(* ===== verification/NP_Prelude.thy ===== *)
theory NP_Prelude
  imports Main "HOL-Library.Word"
begin

unbundle bit_operations_syntax

text \<open>
  Shared vocabulary of the development: machine integers of the Go program, byte strings,
  errors as values (a Go panic is an error value of its own, so that "never panics" is a
  statement about results), slices with Go's bounds checks, big-endian codecs, and the generic
  lemmas the component theories use. The named collections are
  \<open>go_defs\<close> (definitions of the standard-library layer that proofs unfold),
  \<open>codec\<close> (encode/decode laws) and \<open>wrap\<close> (when a wrapping operation does not wrap).
\<close>

named_theorems go_defs \<open>definitions of the standard-library layer\<close>
named_theorems codec \<open>encode/decode laws\<close>
named_theorems wrap \<open>machine integers that stay in range\<close>

section \<open>Types\<close>

type_synonym byte = "8 word"
type_synonym u16 = "16 word"
type_synonym u32 = "32 word"
type_synonym bytes = "byte list"

text \<open>
  The errors of the program and of the library functions it calls. \<open>New\<close> is
  \<^verbatim>\<open>errors.New\<close>, \<open>Wrap\<close> is \<^verbatim>\<open>fmt.Errorf("...: %w", err)\<close>, \<open>GoPanic\<close> is a run-time panic.
\<close>

datatype error =
    EOF | ErrUnexpectedEOF | ErrShortBuffer | ErrNoProgress | ErrBufferFull
  | ErrClosed | ErrTimeout | ErrCanceled
  | New string | Wrap string error | GoPanic string

type_synonym 'a res = "error + 'a"

primrec is_panic :: "error \<Rightarrow> bool" where
  "is_panic EOF = False"
| "is_panic ErrUnexpectedEOF = False"
| "is_panic ErrShortBuffer = False"
| "is_panic ErrNoProgress = False"
| "is_panic ErrBufferFull = False"
| "is_panic ErrClosed = False"
| "is_panic ErrTimeout = False"
| "is_panic ErrCanceled = False"
| "is_panic (New s) = False"
| "is_panic (Wrap s e) = False"
| "is_panic (GoPanic s) = True"

text \<open>A result that is not a panic: a value or an ordinary error.\<close>

definition no_panic :: "'a res \<Rightarrow> bool" where
  "no_panic r \<longleftrightarrow> (case r of Inl e \<Rightarrow> \<not> is_panic e | Inr x \<Rightarrow> True)"

definition res_bind :: "'a res \<Rightarrow> ('a \<Rightarrow> 'b res) \<Rightarrow> 'b res" where
  "res_bind r f = (case r of Inl e \<Rightarrow> Inl e | Inr x \<Rightarrow> f x)"

section \<open>Signed 64-bit integers\<close>

text \<open>Go's \<^verbatim>\<open>int\<close> and \<^verbatim>\<open>int64\<close>: an \<open>int\<close> reduced to two's complement after every operation.\<close>

definition int64 :: "int \<Rightarrow> int" where
  "int64 x = signed_take_bit 63 x"

definition in_int64 :: "int \<Rightarrow> bool" where
  "in_int64 x \<longleftrightarrow> - (2 ^ 63) \<le> x \<and> x < 2 ^ 63"

section \<open>Bytes and strings\<close>

text \<open>A Go string is a sequence of bytes; conversions to and from \<^verbatim>\<open>[]byte\<close> copy it.\<close>

definition string_of_bytes :: "bytes \<Rightarrow> string" where
  "string_of_bytes bs = map (\<lambda>b. char_of (unat b)) bs"

definition bytes_of_string :: "string \<Rightarrow> bytes" where
  "bytes_of_string s = map of_char s"

section \<open>Big-endian integers\<close>

definition be_put16 :: "u16 \<Rightarrow> bytes" where
  "be_put16 w = [ucast (drop_bit 8 w), ucast w]"

definition be_get16 :: "bytes \<Rightarrow> u16" where
  "be_get16 bs = (case bs of [a, b] \<Rightarrow> push_bit 8 (ucast a) OR ucast b | _ \<Rightarrow> 0)"

definition be_put32 :: "u32 \<Rightarrow> bytes" where
  "be_put32 w = [ucast (drop_bit 24 w), ucast (drop_bit 16 w), ucast (drop_bit 8 w), ucast w]"

definition be_get32 :: "bytes \<Rightarrow> u32" where
  "be_get32 bs = (case bs of [a, b, c, d] \<Rightarrow>
     push_bit 24 (ucast a) OR push_bit 16 (ucast b) OR push_bit 8 (ucast c) OR ucast d | _ \<Rightarrow> 0)"

section \<open>Slices with bounds checks\<close>

definition go_index :: "'a list \<Rightarrow> nat \<Rightarrow> 'a res" where
  "go_index xs i = (if i < length xs then Inr (xs ! i) else Inl (GoPanic ''index out of range''))"

definition go_slice :: "'a list \<Rightarrow> nat \<Rightarrow> nat \<Rightarrow> 'a list res" where
  "go_slice xs i j = (if i \<le> j \<and> j \<le> length xs then Inr (take (j - i) (drop i xs))
     else Inl (GoPanic ''slice bounds out of range''))"

section \<open>Lemmas on results and machine integers\<close>

lemma no_panic_simps [simp]:
  "no_panic (Inr x)" "no_panic (Inl e) \<longleftrightarrow> \<not> is_panic e"
  by (simp_all add: no_panic_def)

lemma res_bind_simps [simp]:
  "res_bind (Inr x) f = f x" "res_bind (Inl e) f = Inl e"
  by (simp_all add: res_bind_def)

lemma res_bind_Inr_iff: "res_bind r f = Inr y \<longleftrightarrow> (\<exists>x. r = Inr x \<and> f x = Inr y)"
  by (cases r) auto

lemma no_panic_bind:
  assumes "no_panic r" and "\<And>x. r = Inr x \<Longrightarrow> no_panic (f x)"
  shows "no_panic (res_bind r f)"
  using assms by (cases r) auto

text \<open>Computations that return a value: neither an error nor a panic.\<close>

definition is_ok :: "'a res \<Rightarrow> bool" where
  "is_ok r \<longleftrightarrow> (\<exists>x. r = Inr x)"

lemma is_ok_Inr [simp, intro]: "is_ok (Inr x)"
  by (simp add: is_ok_def)

lemma is_ok_bind: "is_ok r \<Longrightarrow> (\<And>x. r = Inr x \<Longrightarrow> is_ok (f x)) \<Longrightarrow> is_ok (res_bind r f)"
  by (auto simp: is_ok_def)

lemma is_ok_if: "(c \<Longrightarrow> is_ok a) \<Longrightarrow> (\<not> c \<Longrightarrow> is_ok b) \<Longrightarrow> is_ok (if c then a else b)"
  by simp

lemma is_ok_index: "i < length xs \<Longrightarrow> is_ok (go_index xs i)"
  by (simp add: is_ok_def go_index_def)

lemma is_ok_slice: "i \<le> j \<Longrightarrow> j \<le> length xs \<Longrightarrow> is_ok (go_slice xs i j)"
  by (simp add: is_ok_def go_slice_def)

lemmas is_ok_intros = is_ok_Inr is_ok_bind is_ok_if is_ok_index is_ok_slice

lemma int64_id [wrap]: "in_int64 x \<Longrightarrow> int64 x = x"
  by (simp add: int64_def in_int64_def signed_take_bit_int_eq_self)

lemma int64_range: "in_int64 (int64 x)"
  using signed_take_bit_int_greater_eq_minus_exp [of 63 x] signed_take_bit_int_less_exp [of 63 x]
  by (simp add: int64_def in_int64_def)

lemma int64_0 [simp]: "int64 0 = 0"
  by (simp add: int64_def)

lemma int64_mod: "\<exists>k. int64 x = x + k * 2 ^ 64"
proof -
  have "take_bit 64 (int64 x) = take_bit 64 x"
    by (simp add: int64_def take_bit_signed_take_bit)
  then have "(2 ^ 64 :: int) dvd int64 x - x"
    by (simp add: take_bit_eq_mod mod_eq_dvd_iff)
  then obtain k where "int64 x - x = 2 ^ 64 * k" by (rule dvdE)
  then have "int64 x = x + k * 2 ^ 64" by (simp add: algebra_simps)
  then show ?thesis ..
qed

lemma int64_eq_iff: "int64 x = int64 y \<longleftrightarrow> x mod 2 ^ 64 = y mod 2 ^ 64"
proof -
  have "int64 x = int64 y \<longleftrightarrow> take_bit 64 x = take_bit 64 y"
    by (simp add: int64_def signed_take_bit_eq_iff_take_bit_eq)
  then show ?thesis by (simp add: take_bit_eq_mod)
qed

lemma int64_mod_eq: "int64 x mod 2 ^ 64 = x mod 2 ^ 64"
  using int64_mod [of x] by auto

lemma int64_add_left [simp]: "int64 (int64 x + y) = int64 (x + y)"
  unfolding int64_eq_iff by (metis int64_mod_eq mod_add_left_eq)

lemma int64_add_right [simp]: "int64 (x + int64 y) = int64 (x + y)"
  using int64_add_left [of y x] by (simp add: add.commute)

lemma int64_idem [simp]: "int64 (int64 x) = int64 x"
  by (rule int64_id) (rule int64_range)

section \<open>Lemmas on strings and codecs\<close>

lemma of_char_unat: "(of_char c :: byte) = of_nat (of_char c)"
  by (cases c) simp

lemma of_char_less: "(of_char c :: nat) < 256"
proof -
  have "(of_char c :: nat) = of_char c mod 256" by simp
  then show ?thesis by (metis mod_less_divisor zero_less_numeral)
qed

lemma char_byte_inverse [codec]: "char_of (unat (of_char c :: byte)) = c"
  by (simp add: of_char_unat unat_of_nat of_char_less)

lemma byte_char_inverse [codec]: "of_char (char_of (unat b) :: char) = (b :: byte)"
proof -
  have "unat b < 256" using unsigned_less [of b] by simp
  then show ?thesis by (simp add: of_char_unat)
qed

lemma string_bytes_inverse [codec, simp]: "string_of_bytes (bytes_of_string s) = s"
  by (induction s) (simp_all add: string_of_bytes_def bytes_of_string_def char_byte_inverse)

lemma bytes_string_inverse [codec, simp]: "bytes_of_string (string_of_bytes bs) = bs"
  by (induction bs) (simp_all add: string_of_bytes_def bytes_of_string_def byte_char_inverse)

lemma length_string_of_bytes [simp]: "length (string_of_bytes bs) = length bs"
  by (simp add: string_of_bytes_def)

lemma length_bytes_of_string [simp]: "length (bytes_of_string s) = length s"
  by (simp add: bytes_of_string_def)

lemma be_put_length [simp]: "length (be_put16 w) = 2" "length (be_put32 v) = 4"
  by (simp_all add: be_put16_def be_put32_def)

lemma be_get16_put16 [codec, simp]: "be_get16 (be_put16 w) = w"
  unfolding be_get16_def be_put16_def by (rule bit_word_eqI) (auto simp: bit_simps)

lemma be_get32_put32 [codec, simp]: "be_get32 (be_put32 w) = w"
proof (rule bit_word_eqI)
  fix n assume "n < LENGTH(32)"
  then consider "n < 8" | "8 \<le> n" "n < 16" | "16 \<le> n" "n < 24" | "24 \<le> n" "n < 32" by force
  then show "bit (be_get32 (be_put32 w)) n = bit w n"
    by cases (auto simp: be_get32_def be_put32_def bit_simps)
qed

lemma be_put16_get16 [codec, simp]: "be_put16 (be_get16 [a, b]) = [a, b]"
proof -
  have "(ucast (drop_bit 8 (be_get16 [a, b])) :: byte) = a"
  proof (rule bit_word_eqI)
    fix n assume "n < LENGTH(8)"
    moreover have "\<not> bit b (8 + n)" using bit_imp_le_length [of b "8 + n"] by auto
    ultimately show "bit (ucast (drop_bit 8 (be_get16 [a, b])) :: byte) n = bit a n"
      by (auto simp: be_get16_def bit_simps)
  qed
  moreover have "(ucast (be_get16 [a, b]) :: byte) = b"
    by (rule bit_word_eqI) (auto simp: be_get16_def bit_simps)
  ultimately show ?thesis by (simp add: be_put16_def)
qed

lemma unat_byte: "unat (b :: byte) < 256"
  using unsigned_less [of b] by simp

lemma unat_ucast_u16 [simp]: "unat (ucast (b :: byte) :: u16) = unat b"
  using unat_byte [of b] by (simp add: unsigned_ucast_eq take_bit_nat_eq_self_iff)

lemma unat_of_nat_byte: "n < 256 \<Longrightarrow> unat (of_nat n :: byte) = n"
  by (simp add: unat_of_nat)

lemma unat_of_nat_u16: "n < 65536 \<Longrightarrow> unat (of_nat n :: u16) = n"
  by (simp add: unat_of_nat)

lemma unat_of_nat_u32: "n < 4294967296 \<Longrightarrow> unat (of_nat n :: u32) = n"
  by (simp add: unat_of_nat)

lemma unat_be_get16: "unat (be_get16 [a, b]) = 256 * unat a + unat b"
proof -
  have a: "unat a < 256" and b: "unat b < 256" by (rule unat_byte)+
  have "push_bit 8 (ucast a :: u16) OR ucast b = push_bit 8 (ucast a) + ucast b"
    by (rule disjunctive_add_eq_or [symmetric])
      (rule bit_word_eqI, auto simp: bit_simps dest: bit_imp_le_length)
  also have "unat (push_bit 8 (ucast a :: u16) + ucast b) = 256 * unat a + unat b"
  proof -
    have "unat (push_bit 8 (ucast a :: u16)) = 256 * unat a"
      using a by (simp add: push_bit_eq_mult unat_word_ariths mult.commute)
    then show ?thesis using a b by (simp add: unat_word_ariths)
  qed
  finally show ?thesis by (simp add: be_get16_def)
qed

section \<open>Lemmas on slices\<close>

lemma go_slice_Inr [simp]: "i \<le> j \<Longrightarrow> j \<le> length xs \<Longrightarrow> go_slice xs i j = Inr (take (j - i) (drop i xs))"
  by (simp add: go_slice_def)

lemma go_index_Inr [simp]: "i < length xs \<Longrightarrow> go_index xs i = Inr (xs ! i)"
  by (simp add: go_index_def)

lemma go_slice_mid: "d = p @ x @ r \<Longrightarrow> i = length p \<Longrightarrow> j = length p + length x \<Longrightarrow> go_slice d i j = Inr x"
  by simp

lemma go_index_mid: "d = p @ x # r \<Longrightarrow> i = length p \<Longrightarrow> go_index d i = Inr x"
  by simp

lemma list_all_nth_removed:
  "list_all P xs \<Longrightarrow> i < length xs \<Longrightarrow> list_all P (take i xs @ drop (Suc i) xs) \<and> P (xs ! i)"
  by (auto simp: list_all_iff dest: in_set_takeD in_set_dropD)

lemma take_append_exact: "length xs = n \<Longrightarrow> take n (xs @ ys) = xs"
  by simp

lemma drop_append_exact: "length xs = n \<Longrightarrow> drop n (xs @ ys) = ys"
  by simp

section \<open>Runs of a stateful operation\<close>

text \<open>The results of an operation applied to a list of arguments in order, and the last state.\<close>

fun runs :: "('a \<Rightarrow> 's \<Rightarrow> 'b \<times> 's) \<Rightarrow> 'a list \<Rightarrow> 's \<Rightarrow> 'b list \<times> 's" where
  "runs f [] s = ([], s)"
| "runs f (x # xs) s = (case f x s of (y, s1) \<Rightarrow> case runs f xs s1 of (ys, s2) \<Rightarrow> (y # ys, s2))"

end
