(* ===== verification/Go_IO.thy ===== *)
theory Go_IO
  imports NP_Prelude
begin

text \<open>
  Input and output. A connection is what its peer and the network will deliver (data segments
  and transient failures such as an expired read deadline, then a final error), what has been
  written to it, and whether it is closed. \<^verbatim>\<open>io.Reader\<close> is an operation on a state that
  returns bytes and perhaps an error; \<open>ReadFull\<close>, \<open>CopyN_Discard\<close> and \<^verbatim>\<open>bufio.Reader\<close> are
  defined over any such operation.

  The locale \<open>byte_reader\<close> is the contract of \<^verbatim>\<open>io.Reader\<close> as the program relies on it: a
  state has remaining bytes \<open>rem\<close> and an error \<open>fin\<close> that follows them; a read returns a
  non-empty prefix of them, or the error when none is left. Its lemmas say what \<open>ReadFull\<close> and
  \<open>CopyN_Discard\<close> return, however the bytes are cut into segments. Connections satisfy it, and
  so does \<^verbatim>\<open>bufio.Reader\<close> over any reader that does.
\<close>

section \<open>Connections\<close>

datatype event = Data bytes | Fail error

record conn =
  inq :: "event list"
  end_err :: error
  outq :: bytes
  wlimit :: "nat option"
  werr :: error
  is_closed :: bool
  raddr :: string
  laddr :: string

text \<open>Bytes that arrive before the next failure, and that failure.\<close>

fun avail :: "event list \<Rightarrow> bytes" where
  "avail [] = []"
| "avail (Data d # q) = d @ avail q"
| "avail (Fail e # q) = []"

fun stop_err :: "error \<Rightarrow> event list \<Rightarrow> error" where
  "stop_err e0 [] = e0"
| "stop_err e0 (Data d # q) = stop_err e0 q"
| "stop_err e0 (Fail e # q) = e"

text \<open>All the bytes that ever arrive.\<close>

fun arriving :: "event list \<Rightarrow> bytes" where
  "arriving [] = []"
| "arriving (Data d # q) = d @ arriving q"
| "arriving (Fail e # q) = arriving q"

fun conn_pull :: "event list \<Rightarrow> nat \<Rightarrow> (bytes \<times> error option) option \<times> event list" where
  "conn_pull [] n = (None, [])"
| "conn_pull (Fail e # q) n = (Some ([], Some e), q)"
| "conn_pull (Data d # q) n =
     (if d = [] then conn_pull q n
      else (Some (take n d, None), if length d \<le> n then q else Data (drop n d) # q))"

definition conn_read :: "conn \<Rightarrow> nat \<Rightarrow> (bytes \<times> error option) \<times> conn" where
  "conn_read c n =
     (if is_closed c then (([], Some ErrClosed), c)
      else if n = 0 then (([], None), c)
      else (case conn_pull (inq c) n of
          (None, q) \<Rightarrow> (([], Some (end_err c)), c\<lparr>inq := q\<rparr>)
        | (Some r, q) \<Rightarrow> (r, c\<lparr>inq := q\<rparr>)))"

text \<open>
  A write sends all its bytes, or, where the connection accepts only \<open>k\<close> more bytes, the first
  \<open>k\<close> and returns an error.
\<close>

definition conn_write :: "conn \<Rightarrow> bytes \<Rightarrow> error option \<times> conn" where
  "conn_write c bs =
     (if is_closed c then (Some ErrClosed, c)
      else (case wlimit c of
          None \<Rightarrow> (None, c\<lparr>outq := outq c @ bs\<rparr>)
        | Some k \<Rightarrow>
            if length bs \<le> k then (None, c\<lparr>outq := outq c @ bs, wlimit := Some (k - length bs)\<rparr>)
            else (Some (werr c), c\<lparr>outq := outq c @ take k bs, wlimit := Some 0\<rparr>)))"

definition conn_close :: "conn \<Rightarrow> conn" where
  "conn_close c = c\<lparr>is_closed := True\<rparr>"

text \<open>A connection on which the peer sends \<open>bs\<close> and closes.\<close>

definition peer_sends :: "bytes \<Rightarrow> conn" where
  "peer_sends bs = \<lparr>inq = [Data bs], end_err = EOF, outq = [], wlimit = None, werr = ErrClosed,
     is_closed = False, raddr = ''192.0.2.1:40000'', laddr = ''127.0.0.1:443''\<rparr>"

section \<open>io.ReadFull, io.CopyN to io.Discard\<close>

type_synonym 's reader = "'s \<Rightarrow> nat \<Rightarrow> (bytes \<times> error option) \<times> 's"

text \<open>
  The loop of \<^verbatim>\<open>io.ReadAtLeast\<close>, which also is the loop of \<^verbatim>\<open>io.CopyN\<close> for counts below the
  copy buffer: read what is still missing until it is there or the reader fails. The fuel is
  the number of missing bytes: a reader that returns no error returns at least one byte.
\<close>

fun read_loop :: "'s reader \<Rightarrow> nat \<Rightarrow> nat \<Rightarrow> bytes \<Rightarrow> 's \<Rightarrow> (bytes \<times> error option) \<times> 's" where
  "read_loop rd 0 want acc s = ((acc, if want \<le> length acc then None else Some ErrNoProgress), s)"
| "read_loop rd (Suc k) want acc s =
     (if want \<le> length acc then ((acc, None), s)
      else (case rd s (want - length acc) of
          ((bs, None), s') \<Rightarrow> read_loop rd k want (acc @ bs) s'
        | ((bs, Some e), s') \<Rightarrow> ((acc @ bs, Some e), s')))"

definition ReadFull :: "'s reader \<Rightarrow> nat \<Rightarrow> 's \<Rightarrow> (bytes \<times> error option) \<times> 's" where
  "ReadFull rd n s = (case read_loop rd n n [] s of
     ((bs, e), s') \<Rightarrow>
       ((bs, if n \<le> length bs then None
             else if bs \<noteq> [] \<and> e = Some EOF then Some ErrUnexpectedEOF else e), s'))"

definition CopyN_Discard :: "'s reader \<Rightarrow> nat \<Rightarrow> 's \<Rightarrow> error option \<times> 's" where
  "CopyN_Discard rd n s = (case read_loop rd n n [] s of
     ((bs, e), s') \<Rightarrow> ((if n \<le> length bs then None else e), s'))"

text \<open>\<^verbatim>\<open>binary.Read\<close> of an integer of \<open>n\<close> bytes, and \<^verbatim>\<open>ReadByte\<close> for \<open>n = 1\<close>.\<close>

definition read_field :: "'s reader \<Rightarrow> nat \<Rightarrow> 's \<Rightarrow> bytes res \<times> 's" where
  "read_field rd n s = (case ReadFull rd n s of
     ((bs, None), s') \<Rightarrow> (Inr bs, s') | ((bs, Some e), s') \<Rightarrow> (Inl e, s'))"

section \<open>bufio.Reader\<close>

definition bufio_size :: nat where "bufio_size = 4096"

record 's bufio =
  bbuf :: bytes
  berr :: "error option"
  bsrc :: 's

definition bufio_new :: "'s \<Rightarrow> 's bufio" where
  "bufio_new s = \<lparr>bbuf = [], berr = None, bsrc = s\<rparr>"

text \<open>\<^verbatim>\<open>(*Reader).fill\<close>: up to 100 empty reads are tolerated.\<close>

fun bufio_fill :: "'s reader \<Rightarrow> nat \<Rightarrow> 's bufio \<Rightarrow> 's bufio" where
  "bufio_fill rd 0 b = b\<lparr>berr := Some ErrNoProgress\<rparr>"
| "bufio_fill rd (Suc k) b = (case rd (bsrc b) (bufio_size - length (bbuf b)) of
     ((bs, e), s') \<Rightarrow>
       let b' = b\<lparr>bbuf := bbuf b @ bs, bsrc := s'\<rparr> in
       if e \<noteq> None then b'\<lparr>berr := e\<rparr> else if bs \<noteq> [] then b' else bufio_fill rd k b')"

fun peek_loop :: "'s reader \<Rightarrow> nat \<Rightarrow> nat \<Rightarrow> 's bufio \<Rightarrow> 's bufio" where
  "peek_loop rd 0 n b = b"
| "peek_loop rd (Suc k) n b =
     (if length (bbuf b) < n \<and> length (bbuf b) < bufio_size \<and> berr b = None
      then peek_loop rd k n (bufio_fill rd 100 b) else b)"

text \<open>
  \<^verbatim>\<open>(*Reader).Peek\<close>: a fill adds a byte or sets the error, so \<open>n\<close> fills are enough. The
  pending error is handed out once.
\<close>

definition bufio_peek :: "'s reader \<Rightarrow> nat \<Rightarrow> 's bufio \<Rightarrow> (bytes \<times> error option) \<times> 's bufio" where
  "bufio_peek rd n b = (let b' = peek_loop rd n n b in
     if bufio_size < n then ((bbuf b', Some ErrBufferFull), b')
     else if length (bbuf b') < n then
       ((bbuf b', Some (case berr b' of Some e \<Rightarrow> e | None \<Rightarrow> ErrBufferFull)), b'\<lparr>berr := None\<rparr>)
     else ((take n (bbuf b'), None), b'))"

text \<open>\<^verbatim>\<open>(*Reader).Read\<close> into a buffer of \<open>n\<close> bytes.\<close>

definition bufio_read :: "'s reader \<Rightarrow> 's bufio \<Rightarrow> nat \<Rightarrow> (bytes \<times> error option) \<times> 's bufio" where
  "bufio_read rd b n =
     (if n = 0 then
        (if bbuf b \<noteq> [] then (([], None), b) else (([], berr b), b\<lparr>berr := None\<rparr>))
      else if bbuf b \<noteq> [] then ((take n (bbuf b), None), b\<lparr>bbuf := drop n (bbuf b)\<rparr>)
      else (case berr b of
          Some e \<Rightarrow> (([], Some e), b\<lparr>berr := None\<rparr>)
        | None \<Rightarrow>
            if bufio_size \<le> n then
              (case rd (bsrc b) n of ((bs, e), s') \<Rightarrow> ((bs, e), b\<lparr>bsrc := s'\<rparr>))
            else
              (case rd (bsrc b) bufio_size of ((bs, e), s') \<Rightarrow>
                 if bs = [] then (([], e), b\<lparr>bsrc := s'\<rparr>)
                 else ((take n bs, None), b\<lparr>bbuf := drop n bs, berr := e, bsrc := s'\<rparr>))))"

section \<open>The reader contract\<close>

lemma hundred: "(100 :: nat) = Suc 99"
  by simp

locale byte_reader =
  fixes rd :: "'s \<Rightarrow> nat \<Rightarrow> (bytes \<times> error option) \<times> 's"
    and rem :: "'s \<Rightarrow> bytes"
    and fin :: "'s \<Rightarrow> error"
    and inv :: "'s \<Rightarrow> bool"
  assumes rd_data: "inv s \<Longrightarrow> 0 < n \<Longrightarrow> rem s \<noteq> [] \<Longrightarrow>
      \<exists>bs s'. rd s n = ((bs, None), s') \<and> bs \<noteq> [] \<and> length bs \<le> n \<and> rem s = bs @ rem s'
        \<and> fin s' = fin s \<and> inv s'"
    and rd_end: "inv s \<Longrightarrow> 0 < n \<Longrightarrow> rem s = [] \<Longrightarrow> \<exists>s'. rd s n = (([], Some (fin s)), s') \<and> inv s'"
begin

text \<open>Enough bytes: the loop collects exactly the missing ones.\<close>

lemma read_loop_data:
  assumes "inv s" "want \<le> length acc + length (rem s)" "want - length acc \<le> k" "length acc \<le> want"
  shows "\<exists>s'. read_loop rd k want acc s = ((acc @ take (want - length acc) (rem s), None), s')
    \<and> rem s' = drop (want - length acc) (rem s) \<and> fin s' = fin s \<and> inv s'"
  using assms
proof (induction k arbitrary: acc s)
  case 0
  then show ?case by simp
next
  case (Suc k)
  show ?case
  proof (cases "want \<le> length acc")
    case True
    with Suc.prems show ?thesis by simp
  next
    case False
    then have "0 < want - length acc" "rem s \<noteq> []" using Suc.prems by auto
    with rd_data [of s "want - length acc"] Suc.prems obtain bs s1 where
      r: "rd s (want - length acc) = ((bs, None), s1)" "bs \<noteq> []" "length bs \<le> want - length acc"
        "rem s = bs @ rem s1" "fin s1 = fin s" "inv s1" by auto
    have k: "want - length (acc @ bs) \<le> k" "length (acc @ bs) \<le> want"
      using r(2,3) Suc.prems(3) False by (simp_all add: Suc_leI length_greater_0_conv [symmetric] del: length_greater_0_conv)
    then obtain s' where
      "read_loop rd k want (acc @ bs) s1 =
         (((acc @ bs) @ take (want - length (acc @ bs)) (rem s1), None), s')"
      "rem s' = drop (want - length (acc @ bs)) (rem s1)" "fin s' = fin s1" "inv s'"
      using Suc.IH [of s1 "acc @ bs"] r Suc.prems False by auto
    then show ?thesis using False r by (auto simp: diff_diff_eq)
  qed
qed

text \<open>Too few bytes: all of them, and the reader's error.\<close>

lemma read_loop_short:
  assumes "inv s" "length acc + length (rem s) < want" "want - length acc \<le> k"
  shows "\<exists>s'. read_loop rd k want acc s = ((acc @ rem s, Some (fin s)), s') \<and> inv s'"
  using assms
proof (induction k arbitrary: acc s)
  case 0
  then show ?case by simp
next
  case (Suc k)
  then have pos: "0 < want - length acc" "\<not> want \<le> length acc" by auto
  show ?case
  proof (cases "rem s = []")
    case True
    with rd_end [OF Suc.prems(1) pos(1)] pos show ?thesis by auto
  next
    case False
    with rd_data [OF Suc.prems(1) pos(1)] obtain bs s1 where
      r: "rd s (want - length acc) = ((bs, None), s1)" "bs \<noteq> []" "rem s = bs @ rem s1"
        "fin s1 = fin s" "inv s1" by auto
    have k: "want - length (acc @ bs) \<le> k"
      using r(2) Suc.prems(3) pos by (simp add: length_greater_0_conv [symmetric] del: length_greater_0_conv)
    then obtain s' where "read_loop rd k want (acc @ bs) s1 = (((acc @ bs) @ rem s1, Some (fin s1)), s')" "inv s'"
      using Suc.IH [of s1 "acc @ bs"] r Suc.prems by auto
    then show ?thesis using pos r by auto
  qed
qed

lemma ReadFull_data:
  assumes "inv s" "n \<le> length (rem s)"
  shows "\<exists>s'. ReadFull rd n s = ((take n (rem s), None), s')
    \<and> rem s' = drop n (rem s) \<and> fin s' = fin s \<and> inv s'"
  using read_loop_data [of s n "[]" n] assms by (auto simp: ReadFull_def)

lemma ReadFull_short:
  assumes "inv s" "length (rem s) < n"
  shows "\<exists>s'. ReadFull rd n s =
    ((rem s, Some (if rem s \<noteq> [] \<and> fin s = EOF then ErrUnexpectedEOF else fin s)), s') \<and> inv s'"
  using read_loop_short [of s "[]" n n] assms by (auto simp: ReadFull_def)

lemma CopyN_data:
  assumes "inv s" "n \<le> length (rem s)"
  shows "\<exists>s'. CopyN_Discard rd n s = (None, s') \<and> rem s' = drop n (rem s) \<and> fin s' = fin s \<and> inv s'"
  using read_loop_data [of s n "[]" n] assms by (auto simp: CopyN_Discard_def)

lemma CopyN_short:
  assumes "inv s" "length (rem s) < n"
  shows "\<exists>s'. CopyN_Discard rd n s = (Some (fin s), s') \<and> inv s'"
  using read_loop_short [of s "[]" n n] assms by (auto simp: CopyN_Discard_def)

lemma read_field_data:
  assumes "inv s" "rem s = bs @ r" "length bs = n"
  shows "\<exists>s'. read_field rd n s = (Inr bs, s') \<and> rem s' = r \<and> fin s' = fin s \<and> inv s'"
  using ReadFull_data [of s n] assms by (auto simp: read_field_def)

lemma read_field_take:
  assumes "inv s" "n \<le> length (rem s)"
  shows "\<exists>s'. read_field rd n s = (Inr (take n (rem s)), s') \<and> rem s' = drop n (rem s) \<and> fin s' = fin s \<and> inv s'"
  using ReadFull_data [of s n] assms by (auto simp: read_field_def)

lemma read_field_short:
  assumes "inv s" "length (rem s) < n"
  shows "\<exists>s' e. read_field rd n s = (Inl e, s') \<and> (e = fin s \<or> e = ErrUnexpectedEOF)"
  using ReadFull_short [of s n] assms by (auto simp: read_field_def)

text \<open>Reading through \<^verbatim>\<open>bufio.Reader\<close>: the bytes are those in the buffer, then the source's.\<close>

definition buf_rem :: "'s bufio \<Rightarrow> bytes" where
  "buf_rem b = bbuf b @ (if berr b = None then rem (bsrc b) else [])"

definition buf_fin :: "'s bufio \<Rightarrow> error" where
  "buf_fin b = (case berr b of None \<Rightarrow> fin (bsrc b) | Some e \<Rightarrow> e)"

definition buf_inv :: "'s bufio \<Rightarrow> bool" where
  "buf_inv b \<longleftrightarrow> inv (bsrc b) \<and> length (bbuf b) \<le> bufio_size"

lemmas buf_defs = buf_rem_def buf_fin_def buf_inv_def

lemma bufio_read_data:
  assumes "buf_inv b" "0 < n" "buf_rem b \<noteq> []"
  shows "\<exists>bs b'. bufio_read rd b n = ((bs, None), b') \<and> bs \<noteq> [] \<and> length bs \<le> n
    \<and> buf_rem b = bs @ buf_rem b' \<and> buf_fin b' = buf_fin b \<and> buf_inv b'"
proof (cases "bbuf b = []")
  case False
  with assms show ?thesis by (auto simp: bufio_read_def buf_defs)
next
  case True
  with assms have e: "berr b = None" and r: "rem (bsrc b) \<noteq> []" and i: "inv (bsrc b)"
    by (auto simp: buf_defs split: if_splits)
  let ?m = "if bufio_size \<le> n then n else bufio_size"
  have "0 < ?m" using assms by (simp add: bufio_size_def)
  with rd_data [OF i this r] obtain bs s1 where
    "rd (bsrc b) ?m = ((bs, None), s1)" "bs \<noteq> []" "length bs \<le> ?m" "rem (bsrc b) = bs @ rem s1"
    "fin s1 = fin (bsrc b)" "inv s1" by auto
  note r1 = this
  show ?thesis
  proof (cases "bufio_size \<le> n")
    case True
    with r1 \<open>bbuf b = []\<close> e assms have "bufio_read rd b n = ((bs, None), b\<lparr>bsrc := s1\<rparr>)"
      by (simp add: bufio_read_def)
    with r1 True \<open>bbuf b = []\<close> e show ?thesis by (simp add: buf_defs)
  next
    case False
    with r1 \<open>bbuf b = []\<close> e assms
    have "bufio_read rd b n = ((take n bs, None), b\<lparr>bbuf := drop n bs, berr := None, bsrc := s1\<rparr>)"
      by (simp add: bufio_read_def)
    with r1 False \<open>bbuf b = []\<close> e assms show ?thesis by (simp add: buf_defs)
  qed
qed

lemma bufio_read_end:
  assumes "buf_inv b" "0 < n" "buf_rem b = []"
  shows "\<exists>b'. bufio_read rd b n = (([], Some (buf_fin b)), b') \<and> buf_inv b'"
proof (cases "berr b")
  case (Some e)
  with assms show ?thesis by (auto simp: bufio_read_def buf_defs)
next
  case None
  with assms have r: "rem (bsrc b) = []" "bbuf b = []" and i: "inv (bsrc b)" by (auto simp: buf_defs)
  let ?m = "if bufio_size \<le> n then n else bufio_size"
  have "0 < ?m" using assms by (simp add: bufio_size_def)
  with rd_end [OF i this r(1)] obtain s1 where "rd (bsrc b) ?m = (([], Some (fin (bsrc b))), s1)" "inv s1" by auto
  with None r show ?thesis using assms by (auto simp: bufio_read_def buf_defs split: if_splits)
qed

lemma bufio_fill_Suc:
  assumes "buf_inv b" "berr b = None" "length (bbuf b) < bufio_size"
  shows "buf_inv (bufio_fill rd (Suc k) b) \<and> buf_rem (bufio_fill rd (Suc k) b) = buf_rem b
    \<and> buf_fin (bufio_fill rd (Suc k) b) = buf_fin b
    \<and> (length (bbuf b) < length (bbuf (bufio_fill rd (Suc k) b)) \<or> berr (bufio_fill rd (Suc k) b) \<noteq> None)"
proof -
  let ?m = "bufio_size - length (bbuf b)"
  have m: "0 < ?m" and i: "inv (bsrc b)" using assms by (auto simp: buf_defs)
  show ?thesis
  proof (cases "rem (bsrc b) = []")
    case True
    with rd_end [OF i m] obtain s1 where "rd (bsrc b) ?m = (([], Some (fin (bsrc b))), s1)" "inv s1" by auto
    with True assms show ?thesis by (simp add: Let_def buf_defs)
  next
    case False
    with rd_data [OF i m] obtain bs s1 where
      "rd (bsrc b) ?m = ((bs, None), s1)" "bs \<noteq> []" "length bs \<le> ?m" "rem (bsrc b) = bs @ rem s1"
      "fin s1 = fin (bsrc b)" "inv s1" by auto
    with assms show ?thesis by (simp add: Let_def buf_defs)
  qed
qed

lemmas bufio_fill_spec = bufio_fill_Suc [where k = 99, unfolded hundred [symmetric]]

text \<open>Peeking never loses or reorders a byte.\<close>

lemma peek_loop_spec:
  assumes "buf_inv b"
  shows "buf_inv (peek_loop rd k n b) \<and> buf_rem (peek_loop rd k n b) = buf_rem b
    \<and> buf_fin (peek_loop rd k n b) = buf_fin b"
  using assms
proof (induction k arbitrary: b)
  case (Suc k)
  then show ?case using bufio_fill_spec [of b] by auto
qed simp

lemma peek_loop_fills:
  assumes "buf_inv b" "n \<le> bufio_size" "n - length (bbuf b) \<le> k"
  shows "n \<le> length (bbuf (peek_loop rd k n b)) \<or> berr (peek_loop rd k n b) \<noteq> None"
  using assms
proof (induction k arbitrary: b)
  case (Suc k)
  show ?case
  proof (cases "length (bbuf b) < n \<and> length (bbuf b) < bufio_size \<and> berr b = None")
    case False
    with Suc.prems show ?thesis by auto
  next
    case True
    let ?f = "bufio_fill rd 100 b"
    have f: "buf_inv ?f" "length (bbuf b) < length (bbuf ?f) \<or> berr ?f \<noteq> None"
      using bufio_fill_spec [of b] Suc.prems True by auto
    have stop: "berr ?f \<noteq> None \<Longrightarrow> peek_loop rd k n ?f = ?f" by (cases k) auto
    have "n - length (bbuf ?f) \<le> k \<or> berr ?f \<noteq> None" using f(2) Suc.prems by auto
    then have "n \<le> length (bbuf (peek_loop rd k n ?f)) \<or> berr (peek_loop rd k n ?f) \<noteq> None"
      using Suc.IH [OF f(1)] Suc.prems stop by auto
    then show ?thesis using True by simp
  qed
qed simp

text \<open>A peek that finds enough bytes returns the next \<open>n\<close> bytes of the stream and consumes none.\<close>

lemma bufio_peek_data:
  assumes "buf_inv b" "n \<le> bufio_size" "n \<le> length (buf_rem b)"
  shows "\<exists>b'. bufio_peek rd n b = ((take n (buf_rem b), None), b')
    \<and> buf_rem b' = buf_rem b \<and> buf_fin b' = buf_fin b \<and> buf_inv b'"
proof -
  let ?b = "peek_loop rd n n b"
  have s: "buf_inv ?b" "buf_rem ?b = buf_rem b" "buf_fin ?b = buf_fin b"
    using peek_loop_spec [OF assms(1)] by auto
  have "n \<le> length (bbuf ?b)"
  proof (rule ccontr)
    assume c: "\<not> n \<le> length (bbuf ?b)"
    then have "berr ?b \<noteq> None" using peek_loop_fills [OF assms(1,2), of n] by auto
    then have "buf_rem ?b = bbuf ?b" by (auto simp: buf_rem_def)
    then have "buf_rem b = bbuf ?b" using s(2) by simp
    with c assms(3) show False by simp
  qed
  moreover have "take n (buf_rem b) = take n (bbuf ?b)"
    using calculation s(2) [symmetric] by (simp add: buf_rem_def)
  ultimately show ?thesis using s assms(2) by (auto simp: bufio_peek_def Let_def)
qed

end

section \<open>Connections satisfy the contract\<close>

lemma conn_pull_None: "conn_pull q n = (None, q') \<Longrightarrow> avail q = [] \<and> stop_err e q = e \<and> q' = [] \<and> arriving q = []"
  by (induction q n rule: conn_pull.induct) (auto split: if_splits)

lemma conn_pull_Fail: "conn_pull q n = (Some (bs, Some e), q') \<Longrightarrow>
    bs = [] \<and> avail q = [] \<and> stop_err e0 q = e \<and> arriving q' = arriving q"
  by (induction q n rule: conn_pull.induct) (auto split: if_splits)

lemma conn_pull_Data: "conn_pull q n = (Some (bs, None), q') \<Longrightarrow> 0 < n \<Longrightarrow>
    bs \<noteq> [] \<and> length bs \<le> n \<and> avail q = bs @ avail q' \<and> stop_err e0 q' = stop_err e0 q
    \<and> arriving q = bs @ arriving q'"
  by (induction q n rule: conn_pull.induct) (auto split: if_splits)

definition conn_rem :: "conn \<Rightarrow> bytes" where "conn_rem c = avail (inq c)"
definition conn_fin :: "conn \<Rightarrow> error" where "conn_fin c = stop_err (end_err c) (inq c)"
definition conn_open :: "conn \<Rightarrow> bool" where "conn_open c \<longleftrightarrow> \<not> is_closed c"

interpretation cr: byte_reader conn_read conn_rem conn_fin conn_open
proof
  fix c :: conn and n :: nat
  assume o: "conn_open c" and n: "0 < n"
  { assume ne: "conn_rem c \<noteq> []"
    obtain p q' where p: "conn_pull (inq c) n = (p, q')" by (cases "conn_pull (inq c) n")
    have "p \<noteq> None" using conn_pull_None [of "inq c" n q' EOF] p ne by (cases p) (auto simp: conn_rem_def)
    then obtain bs e where pe: "p = Some (bs, e)" by (cases p) auto
    have "e = None" using conn_pull_Fail [of "inq c" n bs] p pe ne by (cases e) (auto simp: conn_rem_def)
    with p pe have d: "conn_pull (inq c) n = (Some (bs, None), q')" by simp
    with conn_pull_Data [OF d n] o n
    show "\<exists>bs s'. conn_read c n = ((bs, None), s') \<and> bs \<noteq> [] \<and> length bs \<le> n
        \<and> conn_rem c = bs @ conn_rem s' \<and> conn_fin s' = conn_fin c \<and> conn_open s'"
      by (auto simp: conn_read_def conn_rem_def conn_fin_def conn_open_def) }
  { assume e: "conn_rem c = []"
    obtain p q' where p: "conn_pull (inq c) n = (p, q')" by (cases "conn_pull (inq c) n")
    show "\<exists>s'. conn_read c n = (([], Some (conn_fin c)), s') \<and> conn_open s'"
    proof (cases p)
      case None
      with p conn_pull_None [of "inq c" n q' "end_err c"] o n show ?thesis
        by (auto simp: conn_read_def conn_fin_def conn_open_def)
    next
      case (Some r)
      obtain bs e' where r: "r = (bs, e')" by (cases r)
      have "e' \<noteq> None" using conn_pull_Data [of "inq c" n bs] p Some r e n by (auto simp: conn_rem_def)
      with p Some r conn_pull_Fail [of "inq c" n bs _ q' "end_err c"] o n show ?thesis
        by (auto simp: conn_read_def conn_fin_def conn_open_def)
    qed }
qed

text \<open>A \<^verbatim>\<open>bufio.Reader\<close> over a connection is a reader again.\<close>

interpretation br: byte_reader "bufio_read conn_read" cr.buf_rem cr.buf_fin cr.buf_inv
  using cr.bufio_read_data cr.bufio_read_end by unfold_locales blast+

text \<open>Reading never drops a byte of what arrives later.\<close>

lemma conn_read_total: "conn_read c n = ((bs, e), c') \<Longrightarrow> \<not> is_closed c \<Longrightarrow> arriving (inq c) = bs @ arriving (inq c')"
proof -
  assume r: "conn_read c n = ((bs, e), c')" and o: "\<not> is_closed c"
  show ?thesis
  proof (cases "n = 0")
    case True
    with r o show ?thesis by (auto simp: conn_read_def)
  next
    case False
    with r o show ?thesis
      using conn_pull_None [of "inq c" n] conn_pull_Fail [of "inq c" n bs] conn_pull_Data [of "inq c" n bs]
      by (cases e) (auto simp: conn_read_def split: prod.splits option.splits)
  qed
qed

lemma conn_read_arriving:
  "conn_read c n = ((bs, e), c') \<Longrightarrow>
    length (arriving (inq c')) + length bs \<le> length (arriving (inq c))"
proof (cases "is_closed c")
  case False
  assume "conn_read c n = ((bs, e), c')"
  from conn_read_total [OF this False] show ?thesis by simp
qed (auto simp: conn_read_def)

lemma read_loop_arriving:
  "read_loop conn_read k want acc c = ((bs, e), c') \<Longrightarrow>
    length (arriving (inq c')) + length bs \<le> length (arriving (inq c)) + length acc"
proof (induction k arbitrary: acc c)
  case (Suc k)
  then show ?case
    by (fastforce split: if_splits prod.splits option.splits dest: conn_read_arriving)
qed auto

lemma read_loop_None: "read_loop rd k want acc s = ((bs, None), s') \<Longrightarrow> want \<le> length bs"
  by (induction k arbitrary: acc s) (auto split: if_splits prod.splits option.splits)

lemma ReadFull_arriving:
  "ReadFull conn_read n c = ((bs, None), c') \<Longrightarrow>
    length (arriving (inq c')) + n \<le> length (arriving (inq c))"
  unfolding ReadFull_def
  using read_loop_arriving [of n n "[]" c] read_loop_None [of conn_read n n "[]" c]
  by (fastforce split: prod.splits if_splits)

lemma conn_read_closed: "conn_read c n = (r, c') \<Longrightarrow> is_closed c' = is_closed c"
  by (auto simp: conn_read_def split: if_splits prod.splits option.splits)

lemma read_loop_total:
  "read_loop conn_read k want acc c = ((bs, e), c') \<Longrightarrow> \<not> is_closed c \<Longrightarrow> acc @ arriving (inq c) = bs @ arriving (inq c')"
proof (induction k arbitrary: acc c)
  case (Suc k)
  obtain b e1 c1 where r: "conn_read c (want - length acc) = ((b, e1), c1)" by (metis prod.exhaust)
  show ?case
    using Suc.IH [of "acc @ b" c1] Suc.prems r conn_read_total [OF r] conn_read_closed [OF r]
    by (auto split: if_splits option.splits)
qed auto

lemma avail_prefix: "\<exists>ys. arriving q = avail q @ ys"
  by (induction q rule: avail.induct) auto

text \<open>An open connection on which nothing arrives after an error: errors are final.\<close>

definition errors_final :: "conn \<Rightarrow> bool" where
  "errors_final c \<longleftrightarrow> \<not> is_closed c \<and> arriving (inq c) = conn_rem c"

lemma ReadFull_final:
  assumes "errors_final c" "ReadFull conn_read n c = ((bs, e), c')"
  shows "errors_final c' \<and> conn_rem c = bs @ conn_rem c' \<and> length bs \<le> n \<and> (e = None \<longrightarrow> length bs = n) \<and> (e \<noteq> None \<longrightarrow> conn_rem c' = [])"
proof -
  have o: "conn_open c" using assms(1) by (simp add: errors_final_def conn_open_def)
  have t: "arriving (inq c) = bs @ arriving (inq c')"
    using assms read_loop_total [of n n "[]" c] by (auto simp: ReadFull_def errors_final_def split: prod.splits)
  show ?thesis
  proof (cases "n \<le> length (conn_rem c)")
    case True
    with cr.ReadFull_data [OF o True] assms(2) have "bs = take n (conn_rem c)" "e = None" "conn_rem c' = drop n (conn_rem c)" "conn_open c'" by auto
    with t assms(1) True show ?thesis by (auto simp: errors_final_def conn_open_def) (metis append_same_eq append_take_drop_id same_append_eq)
  next
    case False
    with cr.ReadFull_short [OF o, of n] assms(2) have r: "bs = conn_rem c" "e \<noteq> None" "conn_open c'" by auto
    with t assms(1) have "arriving (inq c') = []" by (simp add: errors_final_def)
    moreover from this have "conn_rem c' = []" using avail_prefix [of "inq c'"] by (simp add: conn_rem_def)
    ultimately show ?thesis using r False by (simp add: errors_final_def conn_open_def)
  qed
qed

lemma peer_sends_rem [simp]: "conn_rem (peer_sends bs) = bs" "conn_open (peer_sends bs)" "conn_fin (peer_sends bs) = EOF"
  by (simp_all add: conn_rem_def conn_open_def conn_fin_def peer_sends_def)

text \<open>What the buffer holds and what is still to arrive, across timeouts.\<close>

definition held :: "conn bufio \<Rightarrow> bytes" where
  "held b = bbuf b @ arriving (inq (bsrc b))"

definition live :: "conn bufio \<Rightarrow> bool" where
  "live b \<longleftrightarrow> \<not> is_closed (bsrc b)"

lemma conn_read_open: "conn_read c n = (r, c') \<Longrightarrow> is_closed c' = is_closed c"
  by (auto simp: conn_read_def split: if_splits prod.splits option.splits)

lemma bufio_fill_held: "live b \<Longrightarrow> live (bufio_fill conn_read k b) \<and> held (bufio_fill conn_read k b) = held b"
proof (induction k arbitrary: b)
  case (Suc k)
  obtain bs e c' where r: "conn_read (bsrc b) (bufio_size - length (bbuf b)) = ((bs, e), c')" by (metis prod.exhaust)
  have l: "\<not> is_closed (bsrc b)" using Suc.prems by (simp add: live_def)
  have c: "\<not> is_closed c'" using conn_read_open [OF r] l by simp
  have a: "arriving (inq (bsrc b)) = bs @ arriving (inq c')" using conn_read_total [OF r l] .
  have "live (b\<lparr>bbuf := bbuf b @ bs, bsrc := c'\<rparr>)" "held (b\<lparr>bbuf := bbuf b @ bs, bsrc := c'\<rparr>) = held b"
    using c a by (simp_all add: live_def held_def)
  with Suc.IH [of "b\<lparr>bbuf := bbuf b @ bs, bsrc := c'\<rparr>"] show ?case
    using c a by (auto simp: r Let_def live_def held_def)
qed (simp add: live_def held_def)

lemma peek_loop_held: "live b \<Longrightarrow> live (peek_loop conn_read k n b) \<and> held (peek_loop conn_read k n b) = held b"
proof (induction k arbitrary: b)
  case (Suc k)
  then show ?case using bufio_fill_held [of b 100] by auto
qed simp

lemma bufio_peek_held: "live b \<Longrightarrow> live (snd (bufio_peek conn_read n b)) \<and> held (snd (bufio_peek conn_read n b)) = held b"
  using peek_loop_held [of b n n] by (auto simp: bufio_peek_def Let_def live_def held_def split: option.splits)

definition keeps :: "conn bufio \<Rightarrow> conn bufio \<Rightarrow> bool" where
  "keeps b b' \<longleftrightarrow> (live b \<longrightarrow> live b' \<and> held b' = held b)"

lemma keeps_refl [simp]: "keeps b b"
  by (simp add: keeps_def)

lemma keeps_trans [trans]: "keeps a b \<Longrightarrow> keeps b c \<Longrightarrow> keeps a c"
  by (simp add: keeps_def)

lemma peek_keeps: "bufio_peek conn_read n b = (r, b') \<Longrightarrow> keeps b b'"
  using bufio_peek_held [of b n] by (simp add: keeps_def)

lemma conn_write_frame:
  "conn_write c bs = (e, c') \<Longrightarrow> inq c' = inq c \<and> is_closed c' = is_closed c \<and> end_err c' = end_err c"
  by (auto simp: conn_write_def split: if_splits option.splits)

end
