(* ===== verification/Go_Strings.thy ===== *)
theory Go_Strings
  imports NP_Prelude
begin

text \<open>
  The string functions of Go's standard library that the program calls
  (\<^verbatim>\<open>strings\<close>, \<^verbatim>\<open>strconv\<close>, the \<^verbatim>\<open>%d\<close> verb of \<^verbatim>\<open>fmt\<close>), on byte strings, with the
  laws the components use: decimal numbers print and parse back, splitting and joining are
  inverse. \<open>ToLower\<close> acts on ASCII letters only, which decides the one comparison it is used
  in (a prefix test against an ASCII literal).
\<close>

section \<open>Prefixes, suffixes, search\<close>

definition HasPrefix :: "'a list \<Rightarrow> 'a list \<Rightarrow> bool" where
  "HasPrefix s p \<longleftrightarrow> take (length p) s = p"

definition HasSuffix :: "'a list \<Rightarrow> 'a list \<Rightarrow> bool" where
  "HasSuffix s p \<longleftrightarrow> length p \<le> length s \<and> drop (length s - length p) s = p"

definition TrimPrefix :: "'a list \<Rightarrow> 'a list \<Rightarrow> 'a list" where
  "TrimPrefix s p = (if HasPrefix s p then drop (length p) s else s)"

definition TrimSuffix :: "'a list \<Rightarrow> 'a list \<Rightarrow> 'a list" where
  "TrimSuffix s p = (if HasSuffix s p then take (length s - length p) s else s)"

primrec IndexByte :: "string \<Rightarrow> char \<Rightarrow> nat option" where
  "IndexByte [] c = None"
| "IndexByte (x # xs) c = (if x = c then Some 0 else map_option Suc (IndexByte xs c))"

definition LastIndexByte :: "string \<Rightarrow> char \<Rightarrow> nat option" where
  "LastIndexByte s c = map_option (\<lambda>i. length s - 1 - i) (IndexByte (rev s) c)"

definition ContainsByte :: "string \<Rightarrow> char \<Rightarrow> bool" where
  "ContainsByte s c \<longleftrightarrow> c \<in> set s"

section \<open>Splitting, joining, trimming\<close>

text \<open>\<^verbatim>\<open>strings.Split\<close> with a non-empty separator; \<open>acc\<close> is the current piece, reversed.\<close>

fun split_on :: "'a list \<Rightarrow> 'a list \<Rightarrow> 'a list \<Rightarrow> 'a list list" where
  "split_on sep acc [] = [rev acc]"
| "split_on sep acc (c # cs) =
     (if sep \<noteq> [] \<and> HasPrefix (c # cs) sep then rev acc # split_on sep [] (drop (length sep - 1) cs)
      else split_on sep (c # acc) cs)"

definition Split :: "'a list \<Rightarrow> 'a list \<Rightarrow> 'a list list" where
  "Split s sep = split_on sep [] s"

text \<open>\<^verbatim>\<open>strings.SplitN(s, sep, 2)\<close> for a one-byte separator.\<close>

definition SplitN2 :: "string \<Rightarrow> char \<Rightarrow> string list" where
  "SplitN2 s c = (case IndexByte s c of None \<Rightarrow> [s] | Some i \<Rightarrow> [take i s, drop (Suc i) s])"

fun Join :: "'a list list \<Rightarrow> 'a list \<Rightarrow> 'a list" where
  "Join [] sep = []"
| "Join [x] sep = x"
| "Join (x # xs) sep = x @ sep @ Join xs sep"

text \<open>The UTF-8 encodings of the characters with the Unicode property White\_Space.\<close>

definition white_space :: "bytes list" where
  "white_space = [[0x09], [0x0A], [0x0B], [0x0C], [0x0D], [0x20], [0xC2, 0x85], [0xC2, 0xA0],
     [0xE1, 0x9A, 0x80]] @ map (\<lambda>x. [0xE2, 0x80, x]) [0x80, 0x81, 0x82, 0x83, 0x84, 0x85, 0x86, 0x87,
     0x88, 0x89, 0x8A, 0xA8, 0xA9, 0xAF] @ [[0xE2, 0x81, 0x9F], [0xE3, 0x80, 0x80]]"

text \<open>One step of trimming on the left; a suffix is trimmed on the reversed string.\<close>

fun trim_with :: "'a list list \<Rightarrow> 'a list \<Rightarrow> 'a list" where
  "trim_with ws [] = []"
| "trim_with ws (c # cs) = (case filter (\<lambda>w. w \<noteq> [] \<and> HasPrefix (c # cs) w) ws of
     [] \<Rightarrow> c # cs
   | w # _ \<Rightarrow> trim_with ws (drop (length w - 1) cs))"

definition TrimSpace :: "string \<Rightarrow> string" where
  "TrimSpace s = string_of_bytes
     (rev (trim_with (map rev white_space) (rev (trim_with white_space (bytes_of_string s)))))"

definition to_lower :: "char \<Rightarrow> char" where
  "to_lower c = (let n = (of_char c :: nat) in if 65 \<le> n \<and> n \<le> 90 then char_of (n + 32) else c)"

definition ToLower :: "string \<Rightarrow> string" where
  "ToLower s = map to_lower s"

section \<open>Decimal numbers\<close>

definition is_digit :: "char \<Rightarrow> bool" where
  "is_digit c \<longleftrightarrow> 48 \<le> (of_char c :: nat) \<and> (of_char c :: nat) \<le> 57"

definition digit_val :: "char \<Rightarrow> nat" where
  "digit_val c = of_char c - 48"

definition digit_char :: "nat \<Rightarrow> char" where
  "digit_char d = char_of (48 + d)"

fun nat_to_dec :: "nat \<Rightarrow> string" where
  "nat_to_dec n = (if n < 10 then [digit_char n] else nat_to_dec (n div 10) @ [digit_char (n mod 10)])"

declare nat_to_dec.simps [simp del]

definition Itoa :: "int \<Rightarrow> string" where
  "Itoa i = (if i < 0 then CHR ''-'' # nat_to_dec (nat (- i)) else nat_to_dec (nat i))"

definition ErrSyntax :: error where "ErrSyntax = New ''invalid syntax''"
definition ErrRange :: error where "ErrRange = New ''value out of range''"

text \<open>The digit loop of \<^verbatim>\<open>strconv.ParseUint\<close> (base 10, 64 bits): the first offence wins.\<close>

fun parse_uint :: "nat \<Rightarrow> string \<Rightarrow> nat res" where
  "parse_uint acc [] = Inr acc"
| "parse_uint acc (c # cs) =
     (if \<not> is_digit c then Inl ErrSyntax
      else if 2 ^ 64 \<le> 10 * acc + digit_val c then Inl ErrRange
      else parse_uint (10 * acc + digit_val c) cs)"

text \<open>\<^verbatim>\<open>strconv.Atoi\<close>: the value is 0 on a syntax error and clamped on a range error.\<close>

definition Atoi :: "string \<Rightarrow> int \<times> error option" where
  "Atoi s = (let neg = (s \<noteq> [] \<and> hd s = CHR ''-'');
      body = (if s \<noteq> [] \<and> (hd s = CHR ''-'' \<or> hd s = CHR ''+'') then tl s else s) in
    if body = [] then (0, Some ErrSyntax) else
    case parse_uint 0 body of
      Inl e \<Rightarrow> if e = ErrRange then (if neg then - (2 ^ 63) else 2 ^ 63 - 1, Some ErrRange) else (0, Some ErrSyntax)
    | Inr n \<Rightarrow>
        if \<not> neg \<and> 2 ^ 63 \<le> n then (2 ^ 63 - 1, Some ErrRange)
        else if neg \<and> 2 ^ 63 < n then (- (2 ^ 63), Some ErrRange)
        else (if neg then - int n else int n, None))"

text \<open>\<^verbatim>\<open>fmt.Sscanf(s, "%d", &x)\<close> for an unsigned \<open>x\<close> that was 0: leading blanks are skipped.\<close>

definition sscanf_uint :: "string \<Rightarrow> nat" where
  "sscanf_uint s = (let ds = takeWhile is_digit (dropWhile (\<lambda>c. c = CHR '' '' \<or> of_char c = (9::nat)) s) in
     if ds = [] then 0 else case parse_uint 0 ds of Inl e \<Rightarrow> 0 | Inr n \<Rightarrow> n)"

section \<open>Lemmas\<close>

lemma HasPrefix_append [simp]: "HasPrefix (p @ s) p"
  by (simp add: HasPrefix_def)

lemma HasPrefix_iff: "HasPrefix s p \<longleftrightarrow> (\<exists>r. s = p @ r)"
  unfolding HasPrefix_def by (metis append_eq_conv_conj append_take_drop_id)

lemma HasSuffix_iff: "HasSuffix s p \<longleftrightarrow> (\<exists>r. s = r @ p)"
proof
  assume "HasSuffix s p"
  then have "s = take (length s - length p) s @ p"
    unfolding HasSuffix_def by (metis append_take_drop_id)
  then show "\<exists>r. s = r @ p" ..
next
  assume "\<exists>r. s = r @ p"
  then show "HasSuffix s p" by (auto simp: HasSuffix_def)
qed

lemma TrimPrefix_append [simp]: "TrimPrefix (p @ s) p = s"
  by (simp add: TrimPrefix_def)

lemma TrimSuffix_append [simp]: "TrimSuffix (s @ p) p = s"
proof -
  have "HasSuffix (s @ p) p" by (auto simp: HasSuffix_iff)
  then show ?thesis by (simp add: TrimSuffix_def)
qed

lemma IndexByte_None: "IndexByte s c = None \<longleftrightarrow> c \<notin> set s"
  by (induction s) auto

lemma IndexByte_Some: "IndexByte s c = Some i \<longleftrightarrow> i < length s \<and> s ! i = c \<and> c \<notin> set (take i s)"
proof (induction s arbitrary: i)
  case (Cons x s)
  then show ?case by (cases i) auto
qed simp

lemma IndexByte_append: "c \<notin> set p \<Longrightarrow> IndexByte (p @ c # s) c = Some (length p)"
  by (induction p) auto

lemma LastIndexByte_append: "c \<notin> set s \<Longrightarrow> LastIndexByte (p @ c # s) c = Some (length p)"
  using IndexByte_append [of c "rev s" "rev p"] by (simp add: LastIndexByte_def)

lemma LastIndexByte_None: "LastIndexByte s c = None \<longleftrightarrow> c \<notin> set s"
  by (simp add: LastIndexByte_def IndexByte_None)

lemma SplitN2_append: "c \<notin> set p \<Longrightarrow> SplitN2 (p @ c # s) c = [p, s]"
  by (simp add: SplitN2_def IndexByte_append)

lemma SplitN2_two: "SplitN2 s c = [p, q] \<Longrightarrow> s = p @ c # q \<and> c \<notin> set p"
  by (auto simp: SplitN2_def IndexByte_Some id_take_nth_drop split: option.splits)

lemma SplitN2_cases: "SplitN2 s c = [s] \<or> (\<exists>p q. SplitN2 s c = [p, q])"
  by (auto simp: SplitN2_def split: option.splits)

text \<open>Splitting on one byte and joining again.\<close>

lemma split_on_none: "c \<notin> set s \<Longrightarrow> split_on [c] acc s = [rev acc @ s]"
  by (induction "[c]" acc s rule: split_on.induct) (auto simp: HasPrefix_def)

lemma split_on_append: "c \<notin> set p \<Longrightarrow> split_on [c] acc (p @ c # s) = (rev acc @ p) # split_on [c] [] s"
  by (induction p arbitrary: acc) (auto simp: HasPrefix_def)

lemma Split_append: "c \<notin> set p \<Longrightarrow> Split (p @ c # s) [c] = p # Split s [c]"
  by (simp add: Split_def split_on_append)

lemma Split_single: "c \<notin> set p \<Longrightarrow> Split p [c] = [p]"
  by (simp add: Split_def split_on_none)

lemma Split_Join: "xs \<noteq> [] \<Longrightarrow> (\<And>x. x \<in> set xs \<Longrightarrow> c \<notin> set x) \<Longrightarrow> Split (Join xs [c]) [c] = xs"
  by (induction xs "[c]" rule: Join.induct) (auto simp: Split_append Split_single)

text \<open>Decimal printing and parsing.\<close>

lemma digit_char_props:
  assumes "d < 10"
  shows "is_digit (digit_char d)" and "digit_val (digit_char d) = d"
  using assms by (auto simp: is_digit_def digit_char_def digit_val_def)

lemma nat_to_dec_digits: "c \<in> set (nat_to_dec n) \<Longrightarrow> is_digit c"
proof (induction n arbitrary: c rule: nat_to_dec.induct)
  case (1 n)
  from "1.prems" show ?case
    by (subst (asm) nat_to_dec.simps) (auto simp: digit_char_props "1.IH" split: if_splits)
qed

lemma nat_to_dec_nonempty [simp]: "nat_to_dec n \<noteq> []"
  by (subst nat_to_dec.simps) simp

lemma is_digit_special:
  "\<not> is_digit (CHR '':'')" "\<not> is_digit (CHR ''-'')" "\<not> is_digit (CHR ''+'')" "\<not> is_digit (CHR ''.'')"
  "\<not> is_digit (CHR ''['')" "\<not> is_digit (CHR '']'')" "\<not> is_digit (CHR ''%'')" "\<not> is_digit (CHR ''/'')"
  "\<not> is_digit (CHR '' '')"
  by (simp_all add: is_digit_def)

lemma nat_to_dec_notin: "\<not> is_digit c \<Longrightarrow> c \<notin> set (nat_to_dec n)"
  using nat_to_dec_digits by blast

lemma parse_uint_append:
  "parse_uint a (s @ [c]) = (case parse_uint a s of Inl e \<Rightarrow> Inl e | Inr n \<Rightarrow> parse_uint n [c])"
  by (induction a s rule: parse_uint.induct) auto

lemma parse_uint_nat_to_dec [codec]: "n < 2 ^ 64 \<Longrightarrow> parse_uint 0 (nat_to_dec n) = Inr n"
proof (induction n rule: nat_to_dec.induct)
  case (1 n)
  show ?case
  proof (cases "n < 10")
    case True
    then show ?thesis by (subst nat_to_dec.simps) (simp add: digit_char_props)
  next
    case False
    with 1 have "parse_uint 0 (nat_to_dec (n div 10)) = Inr (n div 10)" by simp
    moreover have "10 * (n div 10) + n mod 10 = n" by simp
    ultimately show ?thesis using False "1.prems"
      by (subst nat_to_dec.simps) (simp add: parse_uint_append digit_char_props)
  qed
qed

lemma Atoi_Itoa_nat [codec]:
  assumes "n < 2 ^ 63"
  shows "Atoi (nat_to_dec n) = (int n, None)"
proof -
  obtain c cs where s: "nat_to_dec n = c # cs" by (cases "nat_to_dec n") auto
  then have "is_digit c" using nat_to_dec_digits [of c n] by simp
  then have "c \<noteq> CHR ''-''" "c \<noteq> CHR ''+''" using is_digit_special by metis+
  moreover have "parse_uint 0 (nat_to_dec n) = Inr n"
    by (rule parse_uint_nat_to_dec) (use assms in simp)
  ultimately show ?thesis using assms by (simp add: Atoi_def Let_def s)
qed

section \<open>Trimming\<close>

definition graphic :: "char \<Rightarrow> bool" where
  "graphic c \<longleftrightarrow> 33 \<le> (of_char c :: nat) \<and> (of_char c :: nat) \<le> 126"

definition blank :: "char \<Rightarrow> bool" where
  "blank c \<longleftrightarrow> (of_char c :: nat) \<in> {9, 10, 13, 32}"

lemma graphic_byte: "graphic c \<Longrightarrow> 33 \<le> unat (of_char c :: byte) \<and> unat (of_char c :: byte) \<le> 126"
  by (simp add: graphic_def of_char_unat unat_of_nat of_char_less)

lemma blank_byte: "blank c \<Longrightarrow> (of_char c :: byte) \<in> {9, 10, 13, 32}"
  by (auto simp: blank_def of_char_unat)

lemma trim_with_stop: "(\<And>w. w \<in> set ws \<Longrightarrow> w \<noteq> [] \<Longrightarrow> hd w \<noteq> c) \<Longrightarrow> trim_with ws (c # cs) = c # cs"
proof -
  assume h: "\<And>w. w \<in> set ws \<Longrightarrow> w \<noteq> [] \<Longrightarrow> hd w \<noteq> c"
  have "\<not> (w \<noteq> [] \<and> HasPrefix (c # cs) w)" if "w \<in> set ws" for w
    using h [OF that] by (cases w) (auto simp: HasPrefix_def)
  then have "filter (\<lambda>w. w \<noteq> [] \<and> HasPrefix (c # cs) w) ws = []" by (simp add: filter_empty_conv)
  then show ?thesis by simp
qed

lemma trim_with_skip:
  assumes "[c] \<in> set ws" "\<And>w. w \<in> set ws \<Longrightarrow> w \<noteq> [] \<Longrightarrow> hd w = c \<Longrightarrow> w = [c]"
  shows "trim_with ws (c # cs) = trim_with ws cs"
proof -
  let ?f = "filter (\<lambda>w. w \<noteq> [] \<and> HasPrefix (c # cs) w) ws"
  have "[c] \<in> set ?f" using assms(1) by (simp add: HasPrefix_def)
  then obtain w f where f: "?f = w # f" by (cases ?f) auto
  then have "w \<in> set ?f" by simp
  then have "w \<in> set ws" "w \<noteq> []" "HasPrefix (c # cs) w" by auto
  then have "hd w = c" by (metis HasPrefix_iff hd_append2 list.sel(1))
  with assms(2) \<open>w \<in> set ws\<close> \<open>w \<noteq> []\<close> have "w = [c]" by blast
  with f show ?thesis by simp
qed

lemma trim_graphic:
  assumes "33 \<le> unat (b :: byte)" "unat b \<le> 126"
  shows "trim_with white_space (b # bs) = b # bs" "trim_with (map rev white_space) (b # bs) = b # bs"
  by (rule trim_with_stop; use assms in \<open>auto simp: white_space_def\<close>)+

lemma trim_blank:
  assumes "(b :: byte) \<in> {9, 10, 13, 32}"
  shows "trim_with white_space (b # bs) = trim_with white_space bs"
    "trim_with (map rev white_space) (b # bs) = trim_with (map rev white_space) bs"
  by (rule trim_with_skip; use assms in \<open>auto simp: white_space_def\<close>)+

lemma trim_blanks:
  assumes "list_all blank p" "graphic c"
  shows "trim_with white_space (bytes_of_string p @ of_char c # bs) = of_char c # bs"
    "trim_with (map rev white_space) (rev (bytes_of_string p) @ of_char c # bs) = of_char c # bs"
proof -
  have b: "\<forall>b \<in> set (bytes_of_string p). b \<in> {9, 10, 13, 32}"
    using assms(1) blank_byte by (auto simp: bytes_of_string_def list_all_iff)
  have "trim_with white_space (xs @ of_char c # bs) = of_char c # bs"
    if "\<forall>b \<in> set xs. b \<in> {9, 10, 13, 32}" for xs
    using that by (induction xs) (auto simp: trim_graphic graphic_byte [OF assms(2)] trim_blank simp del: trim_with.simps)
  then show "trim_with white_space (bytes_of_string p @ of_char c # bs) = of_char c # bs"
    using b by simp
  have "trim_with (map rev white_space) (xs @ of_char c # bs) = of_char c # bs"
    if "\<forall>b \<in> set xs. b \<in> {9, 10, 13, 32}" for xs
    using that by (induction xs) (auto simp: trim_graphic graphic_byte [OF assms(2)] trim_blank simp del: trim_with.simps)
  then show "trim_with (map rev white_space) (rev (bytes_of_string p) @ of_char c # bs) = of_char c # bs"
    using b by simp
qed

lemma TrimSpace_graphic:
  assumes "list_all blank p" "list_all blank q" "s \<noteq> []" "graphic (hd s)" "graphic (last s)"
  shows "TrimSpace (p @ s @ q) = s"
proof -
  obtain c t where s: "s = c # t" using assms(3) by (cases s) auto
  obtain d u where s': "s = u @ [d]" using assms(3) by (metis append_butlast_last_id)
  have b: "bytes_of_string (x @ y) = bytes_of_string x @ bytes_of_string y" for x y by (simp add: bytes_of_string_def)
  have "trim_with white_space (bytes_of_string (p @ s @ q)) = bytes_of_string (s @ q)"
    using trim_blanks(1) [OF assms(1), of c] assms(4) s by (simp add: bytes_of_string_def)
  moreover have "rev (bytes_of_string (s @ q)) = rev (bytes_of_string q) @ of_char d # rev (bytes_of_string u)"
    by (simp add: s' bytes_of_string_def)
  moreover have "trim_with (map rev white_space) (rev (bytes_of_string q) @ of_char d # rev (bytes_of_string u)) =
      of_char d # rev (bytes_of_string u)"
    using trim_blanks(2) [OF assms(2), of d] assms(5) s' by simp
  moreover have "rev (of_char d # rev (bytes_of_string u)) = bytes_of_string s" by (simp add: s' bytes_of_string_def)
  ultimately show ?thesis by (simp add: TrimSpace_def)
qed

end
