(* ===== verification/Go_Net.thy ===== *)
theory Go_Net
  imports Go_Strings
begin

text \<open>
  The address functions of Go's \<^verbatim>\<open>net\<close> package that the program calls: host/port splitting
  and joining, IP literals (IPv4 and IPv6) parsed and printed, CIDR blocks. An IP is the byte
  slice the library uses (4 or 16 bytes); a nil IP or an error is \<open>None\<close> or \<open>Inl\<close>.
\<close>

section \<open>Host and port\<close>

definition addr_error :: "string \<Rightarrow> 'a res" where
  "addr_error why = Inl (New why)"

definition SplitHostPort :: "string \<Rightarrow> (string \<times> string) res" where
  "SplitHostPort hp = (case LastIndexByte hp (CHR '':'') of
     None \<Rightarrow> addr_error ''missing port in address''
   | Some i \<Rightarrow>
      let tail = (\<lambda>host j k.
        if CHR ''['' \<in> set (drop j hp) then addr_error ''unexpected '[' in address''
        else if CHR '']'' \<in> set (drop k hp) then addr_error ''unexpected ']' in address''
        else Inr (host, drop (Suc i) hp)) in
      if hd hp = CHR ''['' then
        (case IndexByte hp (CHR '']'') of
           None \<Rightarrow> addr_error ''missing ']' in address''
         | Some e \<Rightarrow>
             if Suc e = length hp then addr_error ''missing port in address''
             else if Suc e = i then tail (drop 1 (take e hp)) 1 (Suc e)
             else if hp ! Suc e = CHR '':'' then addr_error ''too many colons in address''
             else addr_error ''missing port in address'')
      else if CHR '':'' \<in> set (take i hp) then addr_error ''too many colons in address''
      else tail (take i hp) 0 0)"

definition JoinHostPort :: "string \<Rightarrow> string \<Rightarrow> string" where
  "JoinHostPort host port =
     (if CHR '':'' \<in> set host then ''['' @ host @ '']:'' @ port else host @ '':'' @ port)"

text \<open>\<^verbatim>\<open>host, port, _ := net.SplitHostPort(s)\<close>: both are empty on an error.\<close>

definition split_host :: "string \<Rightarrow> string" where
  "split_host s = (case SplitHostPort s of Inl e \<Rightarrow> [] | Inr (h, p) \<Rightarrow> h)"

definition split_port :: "string \<Rightarrow> string" where
  "split_port s = (case SplitHostPort s of Inl e \<Rightarrow> [] | Inr (h, p) \<Rightarrow> p)"

section \<open>IP literals\<close>

definition v4InV6Prefix :: bytes where
  "v4InV6Prefix = replicate 10 0 @ [0xFF, 0xFF]"

definition To4 :: "bytes \<Rightarrow> bytes option" where
  "To4 ip = (if length ip = 4 then Some ip
     else if length ip = 16 \<and> take 12 ip = v4InV6Prefix then Some (drop 12 ip) else None)"

definition To16 :: "bytes \<Rightarrow> bytes option" where
  "To16 ip = (if length ip = 4 then Some (v4InV6Prefix @ ip)
     else if length ip = 16 then Some ip else None)"

text \<open>
  The loop of \<^verbatim>\<open>netip.parseIPv4Fields\<close>: \<open>st\<close> says that the previous character is a dot or
  that there is none, \<open>v\<close> is the octet so far and \<open>dl\<close> its number of digits.
\<close>

fun v4_loop :: "bool \<Rightarrow> nat \<Rightarrow> nat \<Rightarrow> bytes \<Rightarrow> string \<Rightarrow> bytes option" where
  "v4_loop st v dl fs [] = (if length fs < 3 then None else Some (fs @ [of_nat v]))"
| "v4_loop st v dl fs (c # cs) =
     (if is_digit c then
        (if dl = 1 \<and> v = 0 then None
         else if 255 < 10 * v + digit_val c then None
         else v4_loop False (10 * v + digit_val c) (Suc dl) fs cs)
      else if c = CHR ''.'' then
        (if st \<or> cs = [] then None
         else if length fs = 3 then None
         else v4_loop True 0 0 (fs @ [of_nat v]) cs)
      else None)"

definition hex_val :: "char \<Rightarrow> nat option" where
  "hex_val c = (let n = (of_char c :: nat) in
     if 48 \<le> n \<and> n \<le> 57 then Some (n - 48)
     else if 97 \<le> n \<and> n \<le> 102 then Some (n - 87)
     else if 65 \<le> n \<and> n \<le> 70 then Some (n - 55) else None)"

definition hex_group :: "string \<Rightarrow> nat" where
  "hex_group s = foldl (\<lambda>a c. 16 * a + the (hex_val c)) 0 s"

text \<open>
  The loop of \<^verbatim>\<open>netip.parseIPv6\<close>; \<open>ip\<close> holds the bytes stored so far and \<open>el\<close> the
  position of the ellipsis. Every round but the last stores two bytes, so the eight rounds
  given as fuel are all the rounds the loop can make.
\<close>

fun v6_loop :: "nat \<Rightarrow> bytes \<Rightarrow> nat option \<Rightarrow> string \<Rightarrow> (bytes \<times> nat option \<times> string) option" where
  "v6_loop 0 ip el s = Some (ip, el, s)"
| "v6_loop (Suc k) ip el s =
     (let hex = takeWhile (\<lambda>c. hex_val c \<noteq> None) s; off = length hex; rest = drop off s;
          ip' = ip @ be_put16 (of_nat (hex_group hex)) in
      if off = 0 \<or> 4 < off then None
      else if rest \<noteq> [] \<and> hd rest = CHR ''.'' then
        (if el = None \<and> length ip \<noteq> 12 then None
         else if 16 < length ip + 4 then None
         else (case v4_loop True 0 0 [] s of None \<Rightarrow> None | Some f \<Rightarrow> Some (ip @ f, el, [])))
      else (case rest of
          [] \<Rightarrow> Some (ip', el, [])
        | c # r \<Rightarrow>
            if c \<noteq> CHR '':'' \<or> r = [] then None
            else if hd r = CHR '':'' then
              (if el \<noteq> None then None
               else if tl r = [] then Some (ip', Some (length ip'), [])
               else v6_loop k ip' (Some (length ip')) (tl r))
            else v6_loop k ip' el r))"

definition v6_finish :: "bytes \<times> nat option \<times> string \<Rightarrow> bytes option" where
  "v6_finish r = (case r of (ip, el, s) \<Rightarrow>
     if s \<noteq> [] then None
     else if length ip < 16 then
       (case el of None \<Rightarrow> None
        | Some e \<Rightarrow> Some (take e ip @ replicate (16 - length ip) 0 @ drop e ip))
     else if el \<noteq> None then None else Some ip)"

definition parse_ipv6 :: "string \<Rightarrow> bytes option" where
  "parse_ipv6 s = (if CHR ''%'' \<in> set s then None
     else if HasPrefix s ''::'' then
       (if s = ''::'' then Some (replicate 16 0)
        else Option.bind (v6_loop 8 [] (Some 0) (drop 2 s)) v6_finish)
     else Option.bind (v6_loop 8 [] None s) v6_finish)"

text \<open>\<^verbatim>\<open>netip.ParseAddr\<close> without zones (\<^verbatim>\<open>net\<close> refuses them): 4 bytes or 16 bytes.\<close>

definition ParseAddr :: "string \<Rightarrow> bytes option" where
  "ParseAddr s = (case dropWhile (\<lambda>c. c \<notin> {CHR ''.'', CHR '':'', CHR ''%''}) s of
     [] \<Rightarrow> None
   | c # _ \<Rightarrow> if c = CHR ''.'' then v4_loop True 0 0 [] s
             else if c = CHR '':'' then parse_ipv6 s else None)"

definition ParseIP :: "string \<Rightarrow> bytes option" where
  "ParseIP s = (case ParseAddr s of None \<Rightarrow> None
     | Some a \<Rightarrow> if length a = 4 then Some (v4InV6Prefix @ a) else Some a)"

section \<open>Printing\<close>

definition v4_string :: "bytes \<Rightarrow> string" where
  "v4_string ip = Join (map (\<lambda>b. nat_to_dec (unat b)) ip) ''.''"

definition hex_char :: "nat \<Rightarrow> char" where
  "hex_char d = char_of (if d < 10 then 48 + d else 87 + d)"

definition hex_string :: "nat \<Rightarrow> string" where
  "hex_string n = (let ds = [n div 4096 mod 16, n div 256 mod 16, n div 16 mod 16]
     in map hex_char (dropWhile (\<lambda>d. d = 0) ds) @ [hex_char (n mod 16)])"

fun v6_groups :: "bytes \<Rightarrow> nat list" where
  "v6_groups (a # b # bs) = (256 * unat a + unat b) # v6_groups bs"
| "v6_groups _ = []"

text \<open>The first longest run of at least two zero groups: its start and its end.\<close>

definition zero_run :: "nat list \<Rightarrow> nat \<times> nat" where
  "zero_run gs = foldl (\<lambda>(zs, ze) i.
     let l = length (takeWhile (\<lambda>g. g = 0) (drop i gs)) in
     if 2 \<le> l \<and> ze - zs < l then (i, i + l) else (zs, ze)) (255, 255) [0..<8]"

definition v6_string :: "bytes \<Rightarrow> string" where
  "v6_string ip = (let gs = v6_groups ip; (zs, ze) = zero_run gs in
     if zs = 255 then Join (map hex_string gs) '':''
     else Join (map hex_string (take zs gs)) '':'' @ ''::'' @ Join (map hex_string (drop ze gs)) '':'')"

definition IP_String :: "bytes \<Rightarrow> string" where
  "IP_String ip = (if ip = [] then ''<nil>''
     else if length ip \<noteq> 4 \<and> length ip \<noteq> 16 then
       ''?'' @ concat (map (\<lambda>b. [hex_char (unat b div 16), hex_char (unat b mod 16)]) ip)
     else (case To4 ip of Some p \<Rightarrow> v4_string p | None \<Rightarrow> v6_string ip))"

section \<open>CIDR blocks\<close>

record ip_net =
  net_ip :: bytes
  net_mask :: bytes

text \<open>\<^verbatim>\<open>net.CIDRMask\<close>: \<open>ones\<close> one bits, then zero bits, in \<open>n\<close> bytes.\<close>

fun cidr_mask :: "nat \<Rightarrow> nat \<Rightarrow> bytes" where
  "cidr_mask ones 0 = []"
| "cidr_mask ones (Suc n) =
     (if 8 \<le> ones then 0xFF # cidr_mask (ones - 8) n
      else NOT (drop_bit ones 0xFF) # cidr_mask 0 n)"

definition mask_bytes :: "bytes \<Rightarrow> bytes \<Rightarrow> bytes" where
  "mask_bytes ip m = map2 (AND) ip m"

definition ParseCIDR :: "string \<Rightarrow> ip_net option" where
  "ParseCIDR s = (case IndexByte s (CHR ''/'') of
     None \<Rightarrow> None
   | Some i \<Rightarrow>
      (case ParseAddr (take i s) of
         None \<Rightarrow> None
       | Some a \<Rightarrow>
          let m = drop (Suc i) s; n = foldl (\<lambda>v c. 10 * v + digit_val c) 0 m in
          if m = [] \<or> \<not> list_all is_digit m \<or> 0xFFFFFF \<le> n \<or> 8 * length a < n then None
          else Some \<lparr>net_ip = mask_bytes a (cidr_mask n (length a)), net_mask = cidr_mask n (length a)\<rparr>))"

text \<open>\<^verbatim>\<open>(*IPNet).Contains\<close>, with the 4-byte view of IPv4-mapped blocks.\<close>

definition network_number_and_mask :: "ip_net \<Rightarrow> (bytes \<times> bytes) option" where
  "network_number_and_mask n = (case To4 (net_ip n) of
     Some p \<Rightarrow> (if length (net_mask n) = 4 then Some (p, net_mask n)
               else if length (net_mask n) = 16 then Some (p, drop 12 (net_mask n)) else None)
   | None \<Rightarrow> (if length (net_ip n) = 16 \<and> length (net_mask n) = 16 then Some (net_ip n, net_mask n) else None))"

definition IPNet_Contains :: "ip_net \<Rightarrow> bytes \<Rightarrow> bool" where
  "IPNet_Contains n ip = (case network_number_and_mask n of
     None \<Rightarrow> ip = []
   | Some (nn, m) \<Rightarrow>
      let x = (case To4 ip of Some p \<Rightarrow> p | None \<Rightarrow> ip) in
      length x = length nn \<and> mask_bytes nn m = mask_bytes x m)"

section \<open>Lemmas: host and port\<close>

definition plain_host :: "string \<Rightarrow> bool" where
  "plain_host h \<longleftrightarrow> CHR ''['' \<notin> set h \<and> CHR '']'' \<notin> set h"

definition plain_port :: "string \<Rightarrow> bool" where
  "plain_port p \<longleftrightarrow> CHR ''['' \<notin> set p \<and> CHR '']'' \<notin> set p \<and> CHR '':'' \<notin> set p"

lemma Split_Join_plain:
  assumes "plain_host h" "plain_port p" "CHR '':'' \<notin> set h"
  shows "SplitHostPort (h @ '':'' @ p) = Inr (h, p)"
proof -
  have i: "LastIndexByte (h @ '':'' @ p) (CHR '':'') = Some (length h)"
    using assms LastIndexByte_append [of "CHR '':''" p h] by (simp add: plain_port_def)
  have "hd (h @ '':'' @ p) \<noteq> CHR ''[''"
    using assms by (cases h) (auto simp: plain_host_def)
  then show ?thesis
    using i assms by (simp add: SplitHostPort_def Let_def plain_host_def plain_port_def)
qed

lemma Split_Join_bracket:
  assumes "plain_host h" "plain_port p"
  shows "SplitHostPort (''['' @ h @ '']:'' @ p) = Inr (h, p)"
proof -
  let ?s = "''['' @ h @ '']:'' @ p"
  have i: "LastIndexByte ?s (CHR '':'') = Some (Suc (Suc (length h)))"
    using assms LastIndexByte_append [of "CHR '':''" p "''['' @ h @ '']''"] by (simp add: plain_port_def)
  have e: "IndexByte ?s (CHR '']'') = Some (Suc (length h))"
    using assms IndexByte_append [of "CHR '']''" "''['' @ h" "'':'' @ p"] by (simp add: plain_host_def)
  show ?thesis
    using assms by (simp add: SplitHostPort_def i [simplified] e [simplified] Let_def plain_host_def plain_port_def)
qed

lemma Split_Join_HostPort [codec]:
  assumes "plain_host h" "plain_port p"
  shows "SplitHostPort (JoinHostPort h p) = Inr (h, p)"
  using assms Split_Join_plain Split_Join_bracket by (simp add: JoinHostPort_def)

lemma split_host_Join: "plain_host h \<Longrightarrow> plain_port p \<Longrightarrow> split_host (JoinHostPort h p) = h"
  by (simp add: split_host_def Split_Join_HostPort)

lemma split_port_Join: "plain_host h \<Longrightarrow> plain_port p \<Longrightarrow> split_port (JoinHostPort h p) = p"
  by (simp add: split_port_def Split_Join_HostPort)

lemma plain_port_dec [simp]: "plain_port (nat_to_dec n)"
  by (simp add: plain_port_def nat_to_dec_notin is_digit_special)

section \<open>Lemmas: IP literals\<close>

lemma To4_length: "To4 ip = Some p \<Longrightarrow> length p = 4"
  by (auto simp: To4_def split: if_splits)

lemma To4_mapped [simp]: "length p = 4 \<Longrightarrow> To4 (v4InV6Prefix @ p) = Some p"
  by (simp add: To4_def v4InV6Prefix_def)

lemma v4_loop_length: "v4_loop st v dl fs s = Some r \<Longrightarrow> length fs \<le> 3 \<Longrightarrow> length r = 4"
  by (induction st v dl fs s rule: v4_loop.induct) (auto split: if_splits)

lemma v4_loop_dec:
  assumes "n < 256"
  shows "\<exists>dl. v4_loop st 0 0 fs (nat_to_dec n @ rest) = v4_loop False n dl fs rest"
proof -
  consider "n < 10" | "10 \<le> n" "n < 100" | "100 \<le> n" by linarith
  then show ?thesis
  proof cases
    case 1
    then have "nat_to_dec n = [digit_char n]" by (subst nat_to_dec.simps) simp
    with 1 show ?thesis by (auto simp: digit_char_props)
  next
    case 2
    then have q: "n div 10 < 10" "n div 10 \<noteq> 0" by auto
    have "nat_to_dec n = [digit_char (n div 10), digit_char (n mod 10)]"
      using 2 q by (subst nat_to_dec.simps) (simp add: nat_to_dec.simps [of "n div 10"])
    moreover have "10 * (n div 10) + n mod 10 = n" by simp
    ultimately show ?thesis using q assms by (auto simp: digit_char_props)
  next
    case 3
    then have q: "n div 100 < 10" "n div 100 \<noteq> 0" "n div 10 div 10 = n div 100" using assms by auto
    have "nat_to_dec n = [digit_char (n div 100), digit_char (n div 10 mod 10), digit_char (n mod 10)]"
      using 3 q by (subst nat_to_dec.simps)
        (simp add: nat_to_dec.simps [of "n div 10"] nat_to_dec.simps [of "n div 100"])
    moreover have "10 * (n div 100) + n div 10 mod 10 = n div 10" "10 * (n div 10) + n mod 10 = n"
      using q(3) by (metis mult_div_mod_eq) simp
    moreover have "n div 10 \<le> 25" using assms by simp
    ultimately show ?thesis using q assms by (auto simp: digit_char_props)
  qed
qed

lemma v4_loop_dot:
  "rest \<noteq> [] \<Longrightarrow> length fs < 3 \<Longrightarrow>
   v4_loop False v dl fs (CHR ''.'' # rest) = v4_loop True 0 0 (fs @ [of_nat v]) rest"
  by (simp add: is_digit_special)

lemma v4_loop_v4_string [codec]: "v4_loop True 0 0 [] (v4_string [a, b, c, d]) = Some [a, b, c, d]"
proof -
  let ?s = "\<lambda>x. nat_to_dec (unat x)"
  note u = unat_byte
  have str: "v4_string [a, b, c, d] = ?s a @ ''.'' @ ?s b @ ''.'' @ ?s c @ ''.'' @ ?s d"
    by (simp add: v4_string_def)
  obtain d1 d2 d3 d4 where
    "v4_loop True 0 0 [] (?s a @ ''.'' @ ?s b @ ''.'' @ ?s c @ ''.'' @ ?s d)
      = v4_loop False (unat a) d1 [] (''.'' @ ?s b @ ''.'' @ ?s c @ ''.'' @ ?s d)"
    "v4_loop True 0 0 [a] (?s b @ ''.'' @ ?s c @ ''.'' @ ?s d)
      = v4_loop False (unat b) d2 [a] (''.'' @ ?s c @ ''.'' @ ?s d)"
    "v4_loop True 0 0 [a, b] (?s c @ ''.'' @ ?s d) = v4_loop False (unat c) d3 [a, b] (''.'' @ ?s d)"
    "v4_loop True 0 0 [a, b, c] (?s d @ []) = v4_loop False (unat d) d4 [a, b, c] []"
    using v4_loop_dec [OF u] by metis
  then show ?thesis by (simp add: str v4_loop_dot is_digit_special)
qed

lemma v4_string_head: "\<exists>p s. v4_string [a, b, c, d] = p @ CHR ''.'' # s \<and> list_all is_digit p"
  by (rule exI [of _ "nat_to_dec (unat a)"]) (auto simp: v4_string_def list_all_iff nat_to_dec_digits)

lemma length4: "length xs = 4 \<Longrightarrow> \<exists>a b c d. xs = [a, b, c, d]"
  by (auto simp: numeral_eq_Suc length_Suc_conv)

text \<open>A dotted quad printed by \<^verbatim>\<open>IP.String\<close> parses back to the same address.\<close>

lemma ParseAddr_v4_string [codec]:
  assumes "length p = 4"
  shows "ParseAddr (v4_string p) = Some p"
proof -
  obtain a b c d where p: "p = [a, b, c, d]" using length4 [OF assms] by blast
  obtain q s where s: "v4_string p = q @ CHR ''.'' # s" and q: "list_all is_digit q"
    using v4_string_head p by blast
  have "dropWhile (\<lambda>c. c \<notin> {CHR ''.'', CHR '':'', CHR ''%''}) (v4_string p) = CHR ''.'' # s"
    unfolding s by (subst dropWhile_append2) (use q is_digit_special in \<open>auto simp: list_all_iff\<close>)
  then show ?thesis using v4_loop_v4_string [of a b c d] by (simp add: ParseAddr_def p)
qed

lemma ParseIP_String_v4 [codec]: "length p = 4 \<Longrightarrow> ParseIP (IP_String p) = Some (v4InV6Prefix @ p)"
  by (auto simp: IP_String_def ParseIP_def To4_def ParseAddr_v4_string)

lemma Join_chars: "set (Join xs sep) \<subseteq> \<Union> (set ` set xs) \<union> set sep"
  by (induction xs sep rule: Join.induct) auto

lemma v4_string_chars: "x \<in> set (v4_string p) \<Longrightarrow> is_digit x \<or> x = CHR ''.''"
  using Join_chars [of "map (\<lambda>b. nat_to_dec (unat b)) p" "''.''"] nat_to_dec_digits
  by (fastforce simp: v4_string_def)

lemma hex_char_plain: "d < 16 \<Longrightarrow> hex_char d \<notin> {CHR ''['', CHR '']'', CHR '':''}"
  unfolding hex_char_def by (auto simp: char_of_eq_iff take_bit_eq_mod)

lemma hex_string_digit:
  assumes "x \<in> set (hex_string n)"
  shows "\<exists>d<16. x = hex_char d"
proof -
  from assms have "x \<in> hex_char ` set [n div 4096 mod 16, n div 256 mod 16, n div 16 mod 16, n mod 16]"
    unfolding hex_string_def Let_def set_append set_map using set_dropWhileD by fastforce
  then show ?thesis by (fastforce intro: mod_less_divisor)
qed

lemma hex_string_plain: "x \<in> set (hex_string n) \<Longrightarrow> x \<notin> {CHR ''['', CHR '']'', CHR '':''}"
  using hex_char_plain hex_string_digit [of x n] by metis

lemma Join_hex_plain: "x \<in> set (Join (map hex_string gs) '':'') \<Longrightarrow> x \<notin> {CHR ''['', CHR '']''}"
  using Join_chars [of "map hex_string gs" "'':''"] hex_string_plain by fastforce

lemma v6_string_plain: "plain_host (v6_string ip)"
  unfolding plain_host_def v6_string_def Let_def
  using Join_hex_plain by (auto split: prod.splits if_splits)

lemma v4_string_plain: "plain_host (v4_string p)"
  unfolding plain_host_def using v4_string_chars is_digit_special by blast

lemma IP_String_plain: "length ip = 4 \<or> length ip = 16 \<Longrightarrow> plain_host (IP_String ip)"
  by (auto simp: IP_String_def v4_string_plain v6_string_plain split: option.splits)

section \<open>Lemmas: CIDR blocks\<close>

lemma length_cidr_mask [simp]: "length (cidr_mask ones n) = n"
  by (induction ones n rule: cidr_mask.induct) auto

lemma length_mask_bytes [simp]: "length (mask_bytes ip m) = min (length ip) (length m)"
  by (simp add: mask_bytes_def)

lemma mask_bytes_idem: "mask_bytes (mask_bytes ip m) m = mask_bytes ip m"
  by (rule nth_equalityI) (auto simp: mask_bytes_def ac_simps)

text \<open>A block built from an IPv4 prefix holds exactly the addresses that agree on the masked bits.\<close>

lemma IPNet_Contains_v4:
  assumes "length a = 4" "length p = 4"
  shows "IPNet_Contains \<lparr>net_ip = mask_bytes a (cidr_mask n 4), net_mask = cidr_mask n 4\<rparr> (v4InV6Prefix @ p)
    \<longleftrightarrow> mask_bytes a (cidr_mask n 4) = mask_bytes p (cidr_mask n 4)"
  using assms by (simp add: IPNet_Contains_def network_number_and_mask_def To4_def v4InV6Prefix_def mask_bytes_idem)

end
