(* ===== verification/NP_Types.thy ===== *)
theory NP_Types
  imports Go_Strings
begin

text \<open>
  The data types shared by the components: \<^verbatim>\<open>internal/common/types.go\<close> and
  \<^verbatim>\<open>internal/common/errors.go\<close>. Addresses of type \<^verbatim>\<open>net.Addr\<close> are their string form, times are
  nanoseconds.
\<close>

record session_meta =
  m_ID :: string
  m_TraceID :: string
  m_UserID :: string
  m_Source :: string
  m_Target :: string
  m_Network :: string
  m_HopChain :: "string list"
  m_RouteTags :: "(string \<times> string) list"
  m_CreatedAt :: int

text \<open>The zero value of the struct.\<close>

definition meta0 :: session_meta where
  "meta0 = \<lparr>m_ID = [], m_TraceID = [], m_UserID = [], m_Source = [], m_Target = [], m_Network = [],
     m_HopChain = [], m_RouteTags = [], m_CreatedAt = 0\<rparr>"

record routing_rule =
  r_Type :: string
  r_Pattern :: string
  r_Outbound :: string
  r_OutboundGroup :: string
  r_Strategy :: string

text \<open>The sentinel errors of \<^verbatim>\<open>errors.go\<close>.\<close>

definition ErrInvalidConfig :: error where "ErrInvalidConfig = New ''invalid config''"
definition ErrNoAvailableOutbound :: error where "ErrNoAvailableOutbound = New ''no available outbound''"
definition ErrDialTimeout :: error where "ErrDialTimeout = New ''dial timeout''"
definition ErrAuthFailed :: error where "ErrAuthFailed = New ''authentication failed''"
definition ErrRateLimitExceeded :: error where "ErrRateLimitExceeded = New ''rate limit exceeded''"
definition ErrCircuitBreakerOpen :: error where "ErrCircuitBreakerOpen = New ''circuit breaker open''"
definition ErrInvalidProtocol :: error where "ErrInvalidProtocol = New ''invalid protocol''"
definition ErrReplayAttack :: error where "ErrReplayAttack = New ''replay attack detected''"
definition ErrSessionNotFound :: error where "ErrSessionNotFound = New ''session not found''"

lemmas sentinel_defs = ErrInvalidConfig_def ErrNoAvailableOutbound_def ErrDialTimeout_def ErrAuthFailed_def
  ErrRateLimitExceeded_def ErrCircuitBreakerOpen_def ErrInvalidProtocol_def ErrReplayAttack_def ErrSessionNotFound_def

lemma sentinel_errors_distinct:
  "distinct [ErrInvalidConfig, ErrNoAvailableOutbound, ErrDialTimeout, ErrAuthFailed, ErrRateLimitExceeded,
     ErrCircuitBreakerOpen, ErrInvalidProtocol, ErrReplayAttack, ErrSessionNotFound]"
  by (simp add: sentinel_defs)

end
