(* ===== verification/NPChain_Codec.thy ===== *)
theory NPChain_Codec
  imports Go_IO Go_Net NP_Types
begin

text \<open>
  The NP-Chain tunnel header (\<^verbatim>\<open>internal/protocol/npchain/codec.go\<close>) and its datagrams
  (\<^verbatim>\<open>internal/protocol/npchain/udp.go\<close>). \<open>EncodeHeader\<close> writes a 24-byte header, 34 bytes per
  hop and the random padding; \<open>DecodeNextHop\<close> reads them from any reader. The UUID package is a
  parameter (\<open>uparse\<close> parses, \<open>ustr\<close> prints, \<open>unew\<close> is the fresh UUID), and so is the
  randomness (\<open>r0\<close> the byte that gives the padding length, \<open>junk\<close> the padding bytes).
\<close>

section \<open>Definitions\<close>

definition Magic :: u32 where "Magic = 0x4E504332"
definition Version :: byte where "Version = 1"
definition HeaderSize :: nat where "HeaderSize = 24"
definition HopEntrySize :: nat where "HopEntrySize = 34"

definition FlagTCP :: byte where "FlagTCP = 0"
definition FlagUDP :: byte where "FlagUDP = 1"
definition FlagPad :: byte where "FlagPad = 0x80"

record Header =
  h_Magic :: u32
  h_Version :: byte
  h_NHops :: byte
  h_Flags :: byte
  h_PadLen :: byte
  h_SessionID :: bytes

record HopEntry =
  he_Type :: byte
  he_Port :: u16
  he_AddrLen :: byte
  he_Address :: bytes

text \<open>The body of the loop over \<^verbatim>\<open>meta.HopChain\<close>: address type, truncation to 30 bytes, zero fill.\<close>

definition hop_address :: "string \<Rightarrow> byte \<times> bytes" where
  "hop_address host = (case ParseIP host of
     Some ip \<Rightarrow> (case To4 ip of Some p \<Rightarrow> (1, p) | None \<Rightarrow> (2, ip))
   | None \<Rightarrow> (3, bytes_of_string host))"

definition hop_entry :: "string \<Rightarrow> HopEntry res" where
  "hop_entry hop = (case SplitHostPort hop of
     Inl e \<Rightarrow> Inl (Wrap ''invalid hop address'' e)
   | Inr (host, portStr) \<Rightarrow>
       let (ty, addrBytes) = hop_address host;
           addrLen = min (length addrBytes) 30;
           a = take addrLen addrBytes in
       Inr \<lparr>he_Type = ty, he_Port = of_int (fst (Atoi portStr)), he_AddrLen = of_nat addrLen,
            he_Address = a @ replicate (30 - addrLen) 0\<rparr>)"

definition put_hop :: "HopEntry \<Rightarrow> bytes" where
  "put_hop e = [he_Type e] @ be_put16 (he_Port e) @ [he_AddrLen e] @ he_Address e"

fun put_hops :: "string list \<Rightarrow> bytes res" where
  "put_hops [] = Inr []"
| "put_hops (hop # hops) =
     res_bind (hop_entry hop) (\<lambda>e. res_bind (put_hops hops) (\<lambda>bs. Inr (put_hop e @ bs)))"

definition put_header :: "Header \<Rightarrow> bytes" where
  "put_header h = be_put32 (h_Magic h) @ [h_Version h, h_NHops h, h_Flags h, h_PadLen h] @ h_SessionID h"

text \<open>Flags and padding length as \<^verbatim>\<open>EncodeHeader\<close> sets them.\<close>

definition enc_flags :: "session_meta \<Rightarrow> byte" where
  "enc_flags meta = (let f = (if m_Network meta = ''udp'' then FlagUDP else FlagTCP) in
     if m_ID meta \<noteq> [] then f OR FlagPad else f)"

definition enc_padLen :: "session_meta \<Rightarrow> byte \<Rightarrow> nat" where
  "enc_padLen meta r0 = (if m_ID meta \<noteq> [] then unat (r0 mod 64) else 0)"

definition enc_id :: "(string \<Rightarrow> bytes option) \<Rightarrow> bytes \<Rightarrow> session_meta \<Rightarrow> bytes" where
  "enc_id uparse unew meta = (case uparse (m_ID meta) of Some i \<Rightarrow> i | None \<Rightarrow> unew)"

definition EncodeHeader ::
  "(string \<Rightarrow> bytes option) \<Rightarrow> bytes \<Rightarrow> byte \<Rightarrow> (nat \<Rightarrow> byte) \<Rightarrow> session_meta \<Rightarrow> bytes res" where
  "EncodeHeader uparse unew r0 junk meta =
     (let padLen = enc_padLen meta r0;
          h = \<lparr>h_Magic = Magic, h_Version = Version, h_NHops = of_nat (length (m_HopChain meta)),
               h_Flags = enc_flags meta, h_PadLen = of_nat padLen, h_SessionID = enc_id uparse unew meta\<rparr> in
      res_bind (put_hops (m_HopChain meta)) (\<lambda>hs. Inr (put_header h @ hs @ map junk [0..<padLen])))"

record decoded =
  d_nextHop :: string
  d_sessionID :: string
  d_network :: string
  d_remaining :: bytes
  d_err :: "error option"

text \<open>A single byte with its read error dropped: the field keeps the value 0.\<close>

definition read_byte0 :: "'s reader \<Rightarrow> 's \<Rightarrow> byte \<times> 's" where
  "read_byte0 rd s = (case read_field rd 1 s of (Inr bs, s') \<Rightarrow> (hd bs, s') | (Inl e, s') \<Rightarrow> (0, s'))"

definition hop_host :: "HopEntry \<Rightarrow> string option" where
  "hop_host e = (if he_Type e = 1 then Some (IP_String (take 4 (he_Address e)))
     else if he_Type e = 2 then Some (IP_String (take 16 (he_Address e)))
     else if he_Type e = 3 then Some (string_of_bytes (take (unat (he_AddrLen e)) (he_Address e)))
     else None)"

text \<open>From the padding to the end of \<^verbatim>\<open>DecodeNextHop\<close>.\<close>

definition decode_rest ::
  "'s reader \<Rightarrow> Header \<Rightarrow> string \<Rightarrow> string \<Rightarrow> string \<Rightarrow> 's \<Rightarrow> decoded \<times> 's" where
  "decode_rest rd h nextHop sid net s =
     (let res = (\<lambda>rem e. \<lparr>d_nextHop = nextHop, d_sessionID = sid, d_network = net, d_remaining = rem, d_err = e\<rparr>);
          fwd = put_header (h\<lparr>h_Magic := Magic, h_NHops := h_NHops h - 1\<rparr>) in
      case (if h_Flags h AND FlagPad \<noteq> 0 \<and> 0 < h_PadLen h then read_field rd (unat (h_PadLen h)) s
            else (Inr [], s)) of
        (Inl e, s) \<Rightarrow> (res [] (Some e), s)
      | (Inr pad, s) \<Rightarrow>
          if 1 < h_NHops h then
            (case read_field rd (unat (h_NHops h - 1) * HopEntrySize) s of
               (Inl e, s) \<Rightarrow> (res [] (Some e), s)
             | (Inr hops, s) \<Rightarrow> (res (fwd @ hops) None, s))
          else (res fwd None, s))"

text \<open>The first hop entry; \<open>fail\<close> builds the result of an early return.\<close>

definition decode_hop ::
  "'s reader \<Rightarrow> Header \<Rightarrow> string \<Rightarrow> string \<Rightarrow> 's \<Rightarrow> decoded \<times> 's" where
  "decode_hop rd h sid net s =
     (let fail = (\<lambda>e s. (\<lparr>d_nextHop = [], d_sessionID = sid, d_network = net, d_remaining = [], d_err = Some e\<rparr>, s)) in
      case read_field rd 1 s of (Inl e, s) \<Rightarrow> fail e s | (Inr ty, s) \<Rightarrow>
      case read_field rd 2 s of (Inl e, s) \<Rightarrow> fail e s | (Inr port, s) \<Rightarrow>
      case read_field rd 1 s of (Inl e, s) \<Rightarrow> fail e s | (Inr alen, s) \<Rightarrow>
      if 30 < hd alen then fail (New ''malformed packet: AddrLen exceeds maximum'') s else
      case read_field rd 30 s of (Inl e, s) \<Rightarrow> fail e s | (Inr addr, s) \<Rightarrow>
      let e = \<lparr>he_Type = hd ty, he_Port = be_get16 port, he_AddrLen = hd alen, he_Address = addr\<rparr> in
      case hop_host e of
        None \<Rightarrow> fail (New (''unknown address type: '' @ nat_to_dec (unat (he_Type e)))) s
      | Some host \<Rightarrow> decode_rest rd h (JoinHostPort host (nat_to_dec (unat (he_Port e)))) sid net s)"

definition DecodeNextHop :: "'s reader \<Rightarrow> (bytes \<Rightarrow> string) \<Rightarrow> 's \<Rightarrow> decoded \<times> 's" where
  "DecodeNextHop rd ustr s =
     (let fail0 = (\<lambda>e s. (\<lparr>d_nextHop = [], d_sessionID = [], d_network = [], d_remaining = [], d_err = Some e\<rparr>, s)) in
      case read_field rd 4 s of (Inl e, s) \<Rightarrow> fail0 e s | (Inr m, s) \<Rightarrow>
      if be_get32 m \<noteq> Magic then fail0 (New ''invalid magic'') s else
      case read_byte0 rd s of (ver, s) \<Rightarrow>
      case read_byte0 rd s of (nh, s) \<Rightarrow>
      case read_byte0 rd s of (fl, s) \<Rightarrow>
      case read_byte0 rd s of (pl, s) \<Rightarrow>
      case read_field rd 16 s of (Inl e, s) \<Rightarrow> fail0 e s | (Inr sid, s) \<Rightarrow>
      let h = \<lparr>h_Magic = Magic, h_Version = ver, h_NHops = nh, h_Flags = fl, h_PadLen = pl, h_SessionID = sid\<rparr>;
          net = (if fl AND FlagUDP \<noteq> 0 then ''udp'' else ''tcp'') in
      if nh = 0 then
        (\<lparr>d_nextHop = [], d_sessionID = ustr sid, d_network = net, d_remaining = [],
          d_err = Some (New ''no more hops'')\<rparr>, s)
      else decode_hop rd h (ustr sid) net s)"

definition PackDatagram :: "(string \<Rightarrow> bytes option) \<Rightarrow> string \<Rightarrow> bytes \<Rightarrow> bytes res" where
  "PackDatagram uparse sid payload = (case uparse sid of
     None \<Rightarrow> Inl (New ''invalid UUID'') | Some i \<Rightarrow> Inr (i @ payload))"

definition UnpackDatagram :: "(bytes \<Rightarrow> string) \<Rightarrow> bytes \<Rightarrow> (string \<times> bytes) res" where
  "UnpackDatagram ustr dat =
     (if length dat < 16 then Inl (New ''datagram too short'') else Inr (ustr (take 16 dat), drop 16 dat))"

text \<open>What the decoder takes for padding, and the result it returns.\<close>

definition pad_count :: "Header \<Rightarrow> nat" where
  "pad_count h = (if h_Flags h AND FlagPad \<noteq> 0 then unat (h_PadLen h) else 0)"

definition net_name :: "Header \<Rightarrow> string" where
  "net_name h = (if h_Flags h AND FlagUDP \<noteq> 0 then ''udp'' else ''tcp'')"

definition forward_header :: "Header \<Rightarrow> Header" where
  "forward_header h = h\<lparr>h_Magic := Magic, h_NHops := h_NHops h - 1\<rparr>"

definition rest_size :: "Header \<Rightarrow> nat" where
  "rest_size h = unat (h_NHops h - 1) * HopEntrySize"

section \<open>Decoding over any reader\<close>

context byte_reader
begin

lemma read_byte0_data:
  assumes "inv s" "rem s = b # r"
  shows "\<exists>s'. read_byte0 rd s = (b, s') \<and> rem s' = r \<and> fin s' = fin s \<and> inv s'"
  using read_field_data [of s "[b]" r 1] assms by (auto simp: read_byte0_def)

lemma decode_header:
  assumes "inv s" "rem s = put_header h @ r" "h_Magic h = Magic" "length (h_SessionID h) = 16"
  shows "\<exists>s'. DecodeNextHop rd ustr s =
      (if h_NHops h = 0 then
        (\<lparr>d_nextHop = [], d_sessionID = ustr (h_SessionID h), d_network = net_name h, d_remaining = [],
          d_err = Some (New ''no more hops'')\<rparr>, s')
       else decode_hop rd h (ustr (h_SessionID h)) (net_name h) s')
    \<and> rem s' = r \<and> fin s' = fin s \<and> inv s'"
proof -
  let ?sid = "h_SessionID h"
  have "rem s = be_put32 Magic @ h_Version h # h_NHops h # h_Flags h # h_PadLen h # ?sid @ r"
    using assms(2,3) by (simp add: put_header_def)
  from read_field_data [OF assms(1) this, of 4] obtain s1 where
    s1: "read_field rd 4 s = (Inr (be_put32 Magic), s1)" "fin s1 = fin s" "inv s1"
      "rem s1 = h_Version h # h_NHops h # h_Flags h # h_PadLen h # ?sid @ r" by auto
  obtain s2 where s2: "read_byte0 rd s1 = (h_Version h, s2)" "fin s2 = fin s" "inv s2"
      "rem s2 = h_NHops h # h_Flags h # h_PadLen h # ?sid @ r"
    using read_byte0_data [OF s1(3,4)] s1(2) by auto
  obtain s3 where s3: "read_byte0 rd s2 = (h_NHops h, s3)" "fin s3 = fin s" "inv s3"
      "rem s3 = h_Flags h # h_PadLen h # ?sid @ r"
    using read_byte0_data [OF s2(3,4)] s2(2) by auto
  obtain s4 where s4: "read_byte0 rd s3 = (h_Flags h, s4)" "fin s4 = fin s" "inv s4"
      "rem s4 = h_PadLen h # ?sid @ r"
    using read_byte0_data [OF s3(3,4)] s3(2) by auto
  obtain s5 where s5: "read_byte0 rd s4 = (h_PadLen h, s5)" "fin s5 = fin s" "inv s5" "rem s5 = ?sid @ r"
    using read_byte0_data [OF s4(3,4)] s4(2) by auto
  obtain s6 where s6: "read_field rd 16 s5 = (Inr ?sid, s6)" "fin s6 = fin s" "inv s6" "rem s6 = r"
    using read_field_data [OF s5(3,4) assms(4)] s5(2) by auto
  have h: "\<lparr>h_Magic = Magic, h_Version = h_Version h, h_NHops = h_NHops h, h_Flags = h_Flags h,
      h_PadLen = h_PadLen h, h_SessionID = ?sid\<rparr> = h" using assms(3) by simp
  show ?thesis
    by (rule exI [of _ s6])
      (simp add: DecodeNextHop_def Let_def s1(1) s2(1) s3(1) s4(1) s5(1) s6 h net_name_def)
qed

lemma decode_hop_entry:
  assumes "inv s" "rem s = put_hop e @ r" "length (he_Address e) = 30" "he_AddrLen e \<le> 30"
    and "hop_host e = Some host"
  shows "\<exists>s'. decode_hop rd h sid net s =
      decode_rest rd h (JoinHostPort host (nat_to_dec (unat (he_Port e)))) sid net s'
    \<and> rem s' = r \<and> fin s' = fin s \<and> inv s'"
proof -
  have "rem s = [he_Type e] @ be_put16 (he_Port e) @ [he_AddrLen e] @ he_Address e @ r"
    using assms(2) by (simp add: put_hop_def)
  from read_field_data [OF assms(1) this, of 1] obtain s1 where
    s1: "read_field rd 1 s = (Inr [he_Type e], s1)" "fin s1 = fin s" "inv s1"
      "rem s1 = be_put16 (he_Port e) @ [he_AddrLen e] @ he_Address e @ r" by auto
  obtain s2 where s2: "read_field rd 2 s1 = (Inr (be_put16 (he_Port e)), s2)" "fin s2 = fin s" "inv s2"
      "rem s2 = [he_AddrLen e] @ he_Address e @ r"
    using read_field_data [OF s1(3,4), of 2] s1(2) by auto
  obtain s3 where s3: "read_field rd 1 s2 = (Inr [he_AddrLen e], s3)" "fin s3 = fin s" "inv s3"
      "rem s3 = he_Address e @ r"
    using read_field_data [OF s2(3,4), of 1] s2(2) by auto
  obtain s4 where s4: "read_field rd 30 s3 = (Inr (he_Address e), s4)" "fin s4 = fin s" "inv s4" "rem s4 = r"
    using read_field_data [OF s3(3,4) assms(3)] s3(2) by auto
  have e: "\<lparr>he_Type = he_Type e, he_Port = he_Port e, he_AddrLen = he_AddrLen e, he_Address = he_Address e\<rparr> = e"
    by simp
  have "\<not> 30 < he_AddrLen e" using assms(4) by (simp add: not_less)
  then show ?thesis
    by (intro exI [of _ s4])
      (simp add: decode_hop_def Let_def s1(1) s2(1) s3(1) s4 e assms(5) del: One_nat_def)
qed

lemma decode_rest_data:
  assumes "inv s" "h_NHops h \<noteq> 0" "pad_count h + rest_size h \<le> length (rem s)"
  shows "\<exists>s'. decode_rest rd h nextHop sid net s =
      (\<lparr>d_nextHop = nextHop, d_sessionID = sid, d_network = net,
        d_remaining = put_header (forward_header h) @ take (rest_size h) (drop (pad_count h) (rem s)),
        d_err = None\<rparr>, s')
    \<and> rem s' = drop (pad_count h + rest_size h) (rem s) \<and> fin s' = fin s \<and> inv s'"
proof -
  let ?pads = "h_Flags h AND FlagPad \<noteq> 0 \<and> 0 < h_PadLen h"
  let ?rd = "if ?pads then read_field rd (unat (h_PadLen h)) s else (Inr [], s)"
  have "\<exists>p s1. ?rd = (Inr p, s1) \<and> rem s1 = drop (pad_count h) (rem s) \<and> fin s1 = fin s \<and> inv s1"
  proof (cases ?pads)
    case True
    with assms show ?thesis
      using read_field_take [of s "unat (h_PadLen h)"] by (auto simp: pad_count_def)
  next
    case False
    then have "pad_count h = 0" by (auto simp: pad_count_def word_gt_0)
    with False assms(1) show ?thesis by auto
  qed
  then obtain p s1 where s1: "?rd = (Inr p, s1)" "rem s1 = drop (pad_count h) (rem s)" "fin s1 = fin s" "inv s1"
    by auto
  show ?thesis
  proof (cases "1 < h_NHops h")
    case True
    have "rest_size h \<le> length (rem s1)" using assms(3) s1(2) by simp
    with read_field_take [OF s1(4) this] s1 True show ?thesis
      by (auto simp: decode_rest_def Let_def rest_size_def forward_header_def add.commute)
  next
    case False
    then have "h_NHops h = 1" using assms(2) by (metis word_le_sub1 not_less word_gt_0 antisym_conv3 word_less_1)
    then have "rest_size h = 0" by (simp add: rest_size_def)
    with False s1 show ?thesis by (auto simp: decode_rest_def Let_def forward_header_def)
  qed
qed

text \<open>One whole header with at least one hop.\<close>

lemma decode_next_hop:
  assumes "inv s" "rem s = put_header h @ put_hop e @ r"
    and "h_Magic h = Magic" "length (h_SessionID h) = 16" "h_NHops h \<noteq> 0"
    and "length (he_Address e) = 30" "he_AddrLen e \<le> 30" "hop_host e = Some host"
    and "pad_count h + rest_size h \<le> length r"
  shows "\<exists>s'. DecodeNextHop rd ustr s =
      (\<lparr>d_nextHop = JoinHostPort host (nat_to_dec (unat (he_Port e))), d_sessionID = ustr (h_SessionID h),
        d_network = net_name h,
        d_remaining = put_header (forward_header h) @ take (rest_size h) (drop (pad_count h) r),
        d_err = None\<rparr>, s')
    \<and> rem s' = drop (pad_count h + rest_size h) r \<and> fin s' = fin s \<and> inv s'"
proof -
  obtain s1 where s1: "DecodeNextHop rd ustr s = decode_hop rd h (ustr (h_SessionID h)) (net_name h) s1"
      "rem s1 = put_hop e @ r" "fin s1 = fin s" "inv s1"
    using decode_header [OF assms(1,2,3,4)] assms(5) by auto
  obtain s2 where s2: "decode_hop rd h (ustr (h_SessionID h)) (net_name h) s1 =
        decode_rest rd h (JoinHostPort host (nat_to_dec (unat (he_Port e)))) (ustr (h_SessionID h)) (net_name h) s2"
      "rem s2 = r" "fin s2 = fin s1" "inv s2"
    using decode_hop_entry [OF s1(4,2) assms(6,7,8)] by blast
  show ?thesis
    using decode_rest_data [OF s2(4) assms(5)] assms(9) s1 s2 by auto
qed

end

section \<open>Hop entries\<close>

text \<open>Hosts a hop entry can carry: a name of at most 30 bytes, or a dotted IPv4 address.\<close>

definition hop_ok :: "string \<Rightarrow> bool" where
  "hop_ok h \<longleftrightarrow> plain_host h \<and> ((ParseIP h = None \<and> length h \<le> 30) \<or> (\<exists>ip. length ip = 4 \<and> h = IP_String ip))"

text \<open>What the UUID package promises about lengths.\<close>

definition uuid_wf :: "(string \<Rightarrow> bytes option) \<Rightarrow> bytes \<Rightarrow> bool" where
  "uuid_wf uparse unew \<longleftrightarrow> (\<forall>s i. uparse s = Some i \<longrightarrow> length i = 16) \<and> length unew = 16"

lemma enc_id_length: "uuid_wf uparse unew \<Longrightarrow> length (enc_id uparse unew meta) = 16"
  by (auto simp: uuid_wf_def enc_id_def split: option.splits)

lemma hop_address_len: "hop_address h = (ty, a) \<Longrightarrow> ty \<in> {1, 2, 3}"
  by (auto simp: hop_address_def split: option.splits)

lemma byte_le_30: "n \<le> 30 \<Longrightarrow> (of_nat n :: byte) \<le> 30"
  by (simp add: word_le_nat_alt unat_of_nat_byte)

text \<open>Every entry the encoder writes has the fixed layout the decoder expects.\<close>

lemma hop_entry_layout:
  assumes "hop_entry hop = Inr e"
  shows "length (he_Address e) = 30 \<and> he_AddrLen e \<le> 30 \<and> length (put_hop e) = HopEntrySize
    \<and> (\<exists>host. hop_host e = Some host)"
proof -
  obtain host port where hp: "SplitHostPort hop = Inr (host, port)"
    using assms by (auto simp: hop_entry_def split: sum.splits)
  obtain ty a where ha: "hop_address host = (ty, a)" by (cases "hop_address host")
  have e: "e = \<lparr>he_Type = ty, he_Port = of_int (fst (Atoi port)), he_AddrLen = of_nat (min (length a) 30),
      he_Address = take (min (length a) 30) a @ replicate (30 - min (length a) 30) 0\<rparr>"
    using assms by (simp add: hop_entry_def hp ha Let_def)
  have "ty = 1 \<or> ty = 2 \<or> ty = 3" using hop_address_len [OF ha] by auto
  then have "\<exists>host. hop_host e = Some host" by (auto simp: hop_host_def e)
  moreover have "he_AddrLen e \<le> 30" by (simp add: e byte_le_30 del: of_nat_min)
  moreover have len: "length (he_Address e) = 30" by (simp add: e min_def)
  ultimately show ?thesis by (simp add: put_hop_def HopEntrySize_def)
qed

lemma put_hops_length: "put_hops hops = Inr bs \<Longrightarrow> length bs = length hops * HopEntrySize"
  by (induction hops arbitrary: bs) (auto simp: res_bind_Inr_iff hop_entry_layout)

lemma hop_entry_v4:
  assumes "plain_host (IP_String ip)" "length ip = 4" "p < 65536"
  shows "hop_entry (JoinHostPort (IP_String ip) (nat_to_dec p)) =
    Inr \<lparr>he_Type = 1, he_Port = of_nat p, he_AddrLen = 4, he_Address = ip @ replicate 26 0\<rparr>"
  using assms
  by (simp add: hop_entry_def hop_address_def ParseIP_String_v4 Split_Join_HostPort Atoi_Itoa_nat Let_def)

text \<open>A hop with a representable host and port decodes to itself.\<close>

lemma hop_entry_ok:
  assumes "hop_ok h" "p < 65536"
  shows "\<exists>e. hop_entry (JoinHostPort h (nat_to_dec p)) = Inr e \<and> hop_host e = Some h \<and> unat (he_Port e) = p"
proof -
  have split: "SplitHostPort (JoinHostPort h (nat_to_dec p)) = Inr (h, nat_to_dec p)"
    using assms(1) by (intro Split_Join_HostPort) (auto simp: hop_ok_def)
  have port: "fst (Atoi (nat_to_dec p)) = int p" using assms(2) by (simp add: Atoi_Itoa_nat)
  consider (name) "ParseIP h = None" "length h \<le> 30" | (ip4) ip where "length ip = 4" "h = IP_String ip"
    using assms(1) by (auto simp: hop_ok_def)
  then show ?thesis
  proof cases
    case name
    then have "hop_address h = (3, bytes_of_string h)" by (simp add: hop_address_def)
    with name split port assms(2) show ?thesis
      by (simp add: hop_entry_def hop_host_def Let_def unat_of_nat_byte unat_of_nat_u16 min_absorb1)
  next
    case ip4
    then show ?thesis
      using hop_entry_v4 [of ip p] assms by (simp add: hop_ok_def hop_host_def unat_of_nat_u16)
  qed
qed

section \<open>Encoded headers\<close>

definition enc_header :: "(string \<Rightarrow> bytes option) \<Rightarrow> bytes \<Rightarrow> byte \<Rightarrow> session_meta \<Rightarrow> nat \<Rightarrow> Header" where
  "enc_header uparse unew r0 meta n = \<lparr>h_Magic = Magic, h_Version = Version, h_NHops = of_nat n,
     h_Flags = enc_flags meta, h_PadLen = of_nat (enc_padLen meta r0), h_SessionID = enc_id uparse unew meta\<rparr>"

lemma EncodeHeader_Inr: "EncodeHeader uparse unew r0 junk meta = Inr hdr \<longleftrightarrow>
    (\<exists>hs. put_hops (m_HopChain meta) = Inr hs \<and>
      hdr = put_header (enc_header uparse unew r0 meta (length (m_HopChain meta))) @ hs
        @ map junk [0..<enc_padLen meta r0])"
  by (auto simp: EncodeHeader_def enc_header_def Let_def res_bind_Inr_iff)

lemma enc_padLen_less: "enc_padLen meta r0 < 64"
proof -
  have "unat (r0 mod 64) = unat r0 mod 64" by (simp add: unat_mod_distrib)
  then show ?thesis by (simp add: enc_padLen_def)
qed

lemma pad_count_enc: "pad_count (enc_header uparse unew r0 meta n) = enc_padLen meta r0"
  using enc_padLen_less [of meta r0]
  by (auto simp: pad_count_def enc_header_def enc_flags_def FlagTCP_def FlagUDP_def FlagPad_def
      unat_of_nat_byte enc_padLen_def Let_def)

lemma net_name_enc: "net_name (enc_header uparse unew r0 meta n) = (if m_Network meta = ''udp'' then ''udp'' else ''tcp'')"
  by (simp add: net_name_def enc_header_def enc_flags_def FlagTCP_def FlagUDP_def FlagPad_def Let_def)

lemma forward_enc: "forward_header (enc_header uparse unew r0 meta (Suc n)) = enc_header uparse unew r0 meta n"
  by (simp add: forward_header_def enc_header_def)

lemma rest_size_enc: "n < 256 \<Longrightarrow> rest_size (enc_header uparse unew r0 meta (Suc n)) = n * HopEntrySize"
  by (simp add: rest_size_def enc_header_def unat_of_nat_byte)

lemma nhops_enc: "0 < n \<Longrightarrow> n < 256 \<Longrightarrow> h_NHops (enc_header uparse unew r0 meta n) \<noteq> 0"
  by (auto simp: enc_header_def word_unat_eq_iff unat_of_nat_byte)

lemmas enc_simps = pad_count_enc net_name_enc forward_enc rest_size_enc

text \<open>Decoding any encoded header with at least one hop, over any reader.\<close>

context byte_reader
begin

lemma decode_encoded:
  assumes "uuid_wf uparse unew" "inv s" "hop_entry hop = Inr e" "hop_host e = Some host" "n < 255"
    and "rem s = put_header (enc_header uparse unew r0 meta (Suc n)) @ put_hop e @ r"
    and "enc_padLen meta r0 + n * HopEntrySize \<le> length r"
  shows "\<exists>s'. DecodeNextHop rd ustr s =
      (\<lparr>d_nextHop = JoinHostPort host (nat_to_dec (unat (he_Port e))),
        d_sessionID = ustr (enc_id uparse unew meta),
        d_network = (if m_Network meta = ''udp'' then ''udp'' else ''tcp''),
        d_remaining = put_header (enc_header uparse unew r0 meta n) @
          take (n * HopEntrySize) (drop (enc_padLen meta r0) r),
        d_err = None\<rparr>, s')
    \<and> rem s' = drop (enc_padLen meta r0 + n * HopEntrySize) r \<and> inv s'"
proof -
  let ?h = "enc_header uparse unew r0 meta (Suc n)"
  have "h_Magic ?h = Magic" "length (h_SessionID ?h) = 16" "h_NHops ?h \<noteq> 0"
    using enc_id_length [OF assms(1)] nhops_enc [of "Suc n"] assms(5) by (auto simp: enc_header_def)
  moreover have "h_SessionID ?h = enc_id uparse unew meta" by (simp add: enc_header_def)
  moreover have "pad_count ?h + rest_size ?h \<le> length r" using assms(5,7) by (simp add: enc_simps)
  ultimately show ?thesis
    using decode_next_hop [OF assms(2,6), of host ustr] hop_entry_layout [OF assms(3)] assms(4,5)
    by (auto simp: enc_simps)
qed

lemma decode_single_hop:
  assumes "uuid_wf uparse unew" "hop_ok h" "p < 65536" "inv s"
    and "m_HopChain meta = [JoinHostPort h (nat_to_dec p)]"
    and "EncodeHeader uparse unew r0 junk meta = Inr hdr"
    and "rem s = hdr @ payload"
  shows "\<exists>s'. DecodeNextHop rd ustr s =
      (\<lparr>d_nextHop = JoinHostPort h (nat_to_dec p), d_sessionID = ustr (enc_id uparse unew meta),
        d_network = (if m_Network meta = ''udp'' then ''udp'' else ''tcp''),
        d_remaining = put_header (enc_header uparse unew r0 meta 0), d_err = None\<rparr>, s')
    \<and> rem s' = payload \<and> inv s'"
proof -
  obtain e where e: "hop_entry (JoinHostPort h (nat_to_dec p)) = Inr e" "hop_host e = Some h" "unat (he_Port e) = p"
    using hop_entry_ok [OF assms(2,3)] by blast
  let ?pad = "map junk [0..<enc_padLen meta r0]"
  have "rem s = put_header (enc_header uparse unew r0 meta (Suc 0)) @ put_hop e @ ?pad @ payload"
    using assms(5-7) e(1) by (auto simp: EncodeHeader_Inr)
  from decode_encoded [OF assms(1,4) e(1,2) _ this, of ustr] e(3) show ?thesis by auto
qed

lemma decode_no_hops:
  assumes "uuid_wf uparse unew" "inv s" "m_HopChain meta = []"
    and "EncodeHeader uparse unew r0 junk meta = Inr hdr" "rem s = hdr @ r"
  shows "d_err (fst (DecodeNextHop rd ustr s)) = Some (New ''no more hops'')"
proof -
  let ?h = "enc_header uparse unew r0 meta 0"
  have "rem s = put_header ?h @ map junk [0..<enc_padLen meta r0] @ r"
    using assms(3-5) by (auto simp: EncodeHeader_Inr)
  moreover have "h_Magic ?h = Magic" "length (h_SessionID ?h) = 16" "h_NHops ?h = 0"
    using enc_id_length [OF assms(1)] by (auto simp: enc_header_def)
  ultimately obtain s' where "DecodeNextHop rd ustr s =
      (\<lparr>d_nextHop = [], d_sessionID = ustr (h_SessionID ?h), d_network = net_name ?h, d_remaining = [],
        d_err = Some (New ''no more hops'')\<rparr>, s')"
    using decode_header [OF assms(2), of ?h] by auto
  then show ?thesis by simp
qed

end

section \<open>Properties\<close>

text \<open>
  C1: Round trip of a one-hop header. On any open connection whose pending bytes are an encoded
  header with one representable hop followed by a payload, and however those bytes are cut into
  segments, the decoder returns that hop, the session's UUID and network, a forwarding header
  with no hop left, and leaves exactly the payload: the random padding is stripped.
\<close>

theorem npchain_single_hop:
  assumes "uuid_wf uparse unew" "hop_ok h" "p < 65536" "conn_open c"
    and "m_HopChain meta = [JoinHostPort h (nat_to_dec p)]"
    and "EncodeHeader uparse unew r0 junk meta = Inr hdr"
    and "conn_rem c = hdr @ payload"
  shows "\<exists>c'. DecodeNextHop conn_read ustr c =
      (\<lparr>d_nextHop = JoinHostPort h (nat_to_dec p), d_sessionID = ustr (enc_id uparse unew meta),
        d_network = (if m_Network meta = ''udp'' then ''udp'' else ''tcp''),
        d_remaining = put_header (enc_header uparse unew r0 meta 0), d_err = None\<rparr>, c')
    \<and> conn_rem c' = payload"
  using cr.decode_single_hop [OF assms] by blast

text \<open>A UUID package for the examples: 16-character ids stand for their bytes.\<close>

definition demo_uparse :: "string \<Rightarrow> bytes option" where
  "demo_uparse s = (if length s = 16 then Some (bytes_of_string s) else None)"

definition demo_meta :: "string list \<Rightarrow> session_meta" where
  "demo_meta hops = meta0\<lparr>m_ID := ''0123456789abcdef'', m_Network := ''tcp'', m_HopChain := hops\<rparr>"

lemma demo_uuid_wf: "uuid_wf demo_uparse (replicate 16 0)"
  by (simp add: uuid_wf_def demo_uparse_def)

lemma demo_hop_ok: "hop_ok ''a.example''" "hop_ok ''10.0.0.7''"
proof -
  have "ParseIP ''a.example'' = None" by code_simp
  moreover have "plain_host ''a.example''" by code_simp
  ultimately show "hop_ok ''a.example''" by (simp add: hop_ok_def)
  have "''10.0.0.7'' = IP_String [10, 0, 0, 7]" by code_simp
  moreover have "plain_host ''10.0.0.7''" by code_simp
  ultimately show "hop_ok ''10.0.0.7''" by (auto simp: hop_ok_def intro!: exI [of _ "[10, 0, 0, 7]"])
qed

lemma demo_digits: "digit_char 3 = CHR ''3''" "digit_char 4 = CHR ''4''" "digit_char 8 = CHR ''8''"
  by code_simp+

lemma demo_hops:
  "JoinHostPort ''a.example'' (nat_to_dec 443) = ''a.example:443''"
  "JoinHostPort ''10.0.0.7'' (nat_to_dec 8443) = ''10.0.0.7:8443''"
  by (simp_all add: JoinHostPort_def ContainsByte_def nat_to_dec.simps demo_digits)

lemma demo_encodes: "(\<exists>hdr. EncodeHeader demo_uparse (replicate 16 0) r0 junk meta = Inr hdr) \<longleftrightarrow>
    (\<exists>hs. put_hops (m_HopChain meta) = Inr hs)"
  by (simp add: EncodeHeader_Inr)

lemma demo_chain [simp]: "m_HopChain (demo_meta hops) = hops" "m_Network (demo_meta hops) = ''tcp''"
    "m_ID (demo_meta hops) = ''0123456789abcdef''"
  by (simp_all add: demo_meta_def)


theorem npchain_single_hop_witness:
  "\<exists>hdr c'. EncodeHeader demo_uparse (replicate 16 0) 5 (\<lambda>i. 9) (demo_meta [''a.example:443'']) = Inr hdr \<and>
    DecodeNextHop conn_read string_of_bytes (peer_sends (hdr @ [1, 2, 3])) =
      (\<lparr>d_nextHop = ''a.example:443'', d_sessionID = ''0123456789abcdef'', d_network = ''tcp'',
        d_remaining = put_header (enc_header demo_uparse (replicate 16 0) 5 (demo_meta [''a.example:443'']) 0),
        d_err = None\<rparr>, c') \<and> conn_rem c' = [1, 2, 3]"
proof -
  let ?m = "demo_meta [''a.example:443'']"
  obtain e where "hop_entry ''a.example:443'' = Inr e"
    using hop_entry_ok [OF demo_hop_ok(1), of 443] by (auto simp: demo_hops)
  then obtain hdr where h: "EncodeHeader demo_uparse (replicate 16 0) 5 (\<lambda>i. 9) ?m = Inr hdr"
    using demo_encodes [of 5 "\<lambda>i. 9" ?m] by auto
  have "enc_id demo_uparse (replicate 16 0) ?m = bytes_of_string ''0123456789abcdef''"
    by (simp add: enc_id_def demo_meta_def demo_uparse_def)
  then show ?thesis
    using npchain_single_hop [OF demo_uuid_wf demo_hop_ok(1), of 443 "peer_sends (hdr @ [1, 2, 3])" ?m 5 "\<lambda>i. 9" hdr
        "[1, 2, 3]" string_of_bytes] h
    by (simp add: demo_hops)
qed

text \<open>
  One node of the chain: decode, then forward the rewritten header and everything that follows.
  \<open>walk\<close> collects the hops the first \<open>k\<close> nodes would dial, with what the last of them forwards.
\<close>

fun walk :: "(bytes \<Rightarrow> string) \<Rightarrow> nat \<Rightarrow> bytes \<Rightarrow> string list \<times> bytes" where
  "walk ustr 0 bs = ([], bs)"
| "walk ustr (Suc k) bs = (case DecodeNextHop conn_read ustr (peer_sends bs) of
     (d, c) \<Rightarrow> (if d_err d = None then
         (case walk ustr k (d_remaining d @ conn_rem c) of (hops, fwd) \<Rightarrow> (d_nextHop d # hops, fwd))
       else ([], bs)))"

lemma walk_chain:
  assumes "uuid_wf uparse unew" "enc_padLen meta r0 = 0" "length hps < 256"
    and "\<And>h p. (h, p) \<in> set hps \<Longrightarrow> hop_ok h \<and> p < 65536"
    and "put_hops (map (\<lambda>(h, p). JoinHostPort h (nat_to_dec p)) hps) = Inr hs"
  shows "walk ustr (length hps) (put_header (enc_header uparse unew r0 meta (length hps)) @ hs @ payload) =
    (map (\<lambda>(h, p). JoinHostPort h (nat_to_dec p)) hps, put_header (enc_header uparse unew r0 meta 0) @ payload)"
  using assms(3-5)
proof (induction hps arbitrary: hs)
  case Nil
  then show ?case by simp
next
  case (Cons hp hps)
  obtain h p where hp: "hp = (h, p)" by (cases hp)
  then have ok: "hop_ok h" "p < 65536" using Cons.prems(2) by auto
  obtain e where e: "hop_entry (JoinHostPort h (nat_to_dec p)) = Inr e" "hop_host e = Some h" "unat (he_Port e) = p"
    using hop_entry_ok [OF ok] by blast
  obtain hs' where hs': "put_hops (map (\<lambda>(h, p). JoinHostPort h (nat_to_dec p)) hps) = Inr hs'"
      and hs: "hs = put_hop e @ hs'"
    using Cons.prems(3) e(1) by (auto simp: hp res_bind_Inr_iff)
  have len: "length hs' = length hps * HopEntrySize" using put_hops_length [OF hs'] by simp
  let ?s = "peer_sends (put_header (enc_header uparse unew r0 meta (Suc (length hps))) @ put_hop e @ hs' @ payload)"
  have "conn_rem ?s = put_header (enc_header uparse unew r0 meta (Suc (length hps))) @ put_hop e @ hs' @ payload"
    by simp
  from cr.decode_encoded [OF assms(1) _ e(1,2) _ this, of ustr] assms(2) Cons.prems(1) len e(3)
  obtain c' where "DecodeNextHop conn_read ustr ?s =
      (\<lparr>d_nextHop = JoinHostPort h (nat_to_dec p), d_sessionID = ustr (enc_id uparse unew meta),
        d_network = (if m_Network meta = ''udp'' then ''udp'' else ''tcp''),
        d_remaining = put_header (enc_header uparse unew r0 meta (length hps)) @ hs', d_err = None\<rparr>, c')"
    and "conn_rem c' = payload" by auto
  moreover have "walk ustr (length hps) (put_header (enc_header uparse unew r0 meta (length hps)) @ hs' @ payload) =
    (map (\<lambda>(h, p). JoinHostPort h (nat_to_dec p)) hps, put_header (enc_header uparse unew r0 meta 0) @ payload)"
    using Cons.IH [OF _ _ hs'] Cons.prems(1,2) by auto
  ultimately show ?case by (simp add: hp hs)
qed

text \<open>
  C16: A chain without padding is walked in order. If the padding length drawn is 0, every hop is
  representable and there are fewer than 256 of them, then the nodes along the chain decode the
  hops of \<^verbatim>\<open>meta.HopChain\<close> one after the other, and the last one forwards a header with no hop
  left followed by the untouched payload.
\<close>

theorem npchain_chain_walk:
  assumes "uuid_wf uparse unew" "enc_padLen meta r0 = 0" "length hps < 256"
    and "\<forall>(h, p) \<in> set hps. hop_ok h \<and> p < 65536"
    and "m_HopChain meta = map (\<lambda>(h, p). JoinHostPort h (nat_to_dec p)) hps"
    and "EncodeHeader uparse unew r0 junk meta = Inr hdr"
  shows "walk ustr (length hps) (hdr @ payload) =
    (m_HopChain meta, put_header (enc_header uparse unew r0 meta 0) @ payload)"
proof -
  obtain hs where hs: "put_hops (m_HopChain meta) = Inr hs"
      "hdr = put_header (enc_header uparse unew r0 meta (length (m_HopChain meta))) @ hs"
    using assms(2,6) by (auto simp: EncodeHeader_Inr)
  show ?thesis using walk_chain [OF assms(1,2,3), of hs ustr payload] assms(4,5) hs by auto
qed

theorem npchain_chain_walk_witness:
  "\<exists>hdr. EncodeHeader demo_uparse (replicate 16 0) 64 (\<lambda>i. 9) (demo_meta [''a.example:443'', ''10.0.0.7:8443'']) = Inr hdr \<and>
    fst (walk string_of_bytes 2 (hdr @ [1, 2, 3])) = [''a.example:443'', ''10.0.0.7:8443'']"
proof -
  let ?m = "demo_meta [''a.example:443'', ''10.0.0.7:8443'']"
  obtain e1 e2 where "hop_entry ''a.example:443'' = Inr e1" "hop_entry ''10.0.0.7:8443'' = Inr e2"
    using hop_entry_ok [OF demo_hop_ok(1), of 443] hop_entry_ok [OF demo_hop_ok(2), of 8443] by (auto simp: demo_hops)
  then obtain hdr where h: "EncodeHeader demo_uparse (replicate 16 0) 64 (\<lambda>i. 9) ?m = Inr hdr"
    using demo_encodes [of 64 "\<lambda>i. 9" ?m] by auto
  have "enc_padLen ?m 64 = 0" by (simp add: enc_padLen_def demo_meta_def)
  then have "walk string_of_bytes (length [(''a.example'', 443), (''10.0.0.7'', 8443 :: nat)]) (hdr @ [1, 2, 3]) =
      (m_HopChain ?m, put_header (enc_header demo_uparse (replicate 16 0) 64 ?m 0) @ [1, 2, 3])"
    by (intro npchain_chain_walk [OF demo_uuid_wf _ _ _ _ h]) (simp_all add: demo_hop_ok demo_hops demo_meta_def)
  with h show ?thesis by (simp add: demo_meta_def eval_nat_numeral del: walk.simps)
qed

text \<open>
  C39: With padding, a chain of two or more hops is skewed. The encoder puts the padding after all
  hop entries, the decoder removes it right after the first entry: with \<open>k\<close> padding bytes the
  entries it forwards start \<open>k\<close> bytes too late, and the last \<open>k\<close> bytes of them are taken from
  what follows.
\<close>

theorem npchain_padding_skew:
  assumes "uuid_wf uparse unew" "hop_ok h" "p < 65536" "conn_open c" "length hops < 255"
    and "m_HopChain meta = JoinHostPort h (nat_to_dec p) # hops"
    and "put_hops hops = Inr hs"
    and "EncodeHeader uparse unew r0 junk meta = Inr hdr"
    and "conn_rem c = hdr @ payload"
  shows "\<exists>d c'. DecodeNextHop conn_read ustr c = (d, c') \<and> d_err d = None
    \<and> d_nextHop d = JoinHostPort h (nat_to_dec p)
    \<and> d_remaining d = put_header (enc_header uparse unew r0 meta (length hops)) @
        drop (enc_padLen meta r0) (hs @ map junk [0..<enc_padLen meta r0])
    \<and> conn_rem c' = payload"
proof -
  let ?k = "enc_padLen meta r0" and ?pad = "map junk [0..<enc_padLen meta r0]"
  obtain e where e: "hop_entry (JoinHostPort h (nat_to_dec p)) = Inr e" "hop_host e = Some h" "unat (he_Port e) = p"
    using hop_entry_ok [OF assms(2,3)] by blast
  have len: "length hs = length hops * HopEntrySize" using put_hops_length [OF assms(7)] .
  have "conn_rem c = put_header (enc_header uparse unew r0 meta (Suc (length hops))) @ put_hop e @ hs @ ?pad @ payload"
    using assms(6-9) e(1) by (auto simp: EncodeHeader_Inr)
  from cr.decode_encoded [OF assms(1,4) e(1,2) assms(5) this, of ustr] len e(3)
  obtain c' where "DecodeNextHop conn_read ustr c =
      (\<lparr>d_nextHop = JoinHostPort h (nat_to_dec p), d_sessionID = ustr (enc_id uparse unew meta),
        d_network = (if m_Network meta = ''udp'' then ''udp'' else ''tcp''),
        d_remaining = put_header (enc_header uparse unew r0 meta (length hops)) @
          take (length hs) (drop ?k ((hs @ ?pad) @ payload)), d_err = None\<rparr>, c')"
    and "conn_rem c' = drop (?k + length hs) ((hs @ ?pad) @ payload)" by auto
  moreover have "take (length hs) (drop ?k ((hs @ ?pad) @ payload)) = drop ?k (hs @ ?pad)"
    "drop (?k + length hs) ((hs @ ?pad) @ payload) = payload"
    unfolding drop_append [of _ "hs @ ?pad"] take_append by simp_all
  ultimately show ?thesis by auto
qed

text \<open>
  With three bytes of padding, the second node is sent an entry of type 4 (really the address
  length), where the chain has an entry of type 1.
\<close>

theorem npchain_padding_skew_witness:
  "\<exists>hdr d c'. EncodeHeader demo_uparse (replicate 16 0) 3 (\<lambda>i. 9) (demo_meta [''a.example:443'', ''10.0.0.7:8443'']) = Inr hdr \<and>
    DecodeNextHop conn_read string_of_bytes (peer_sends hdr) = (d, c') \<and>
    d_remaining d ! HeaderSize = 4"
proof -
  let ?m = "demo_meta [''a.example:443'', ''10.0.0.7:8443'']"
  obtain e1 where e1: "hop_entry ''a.example:443'' = Inr e1"
    using hop_entry_ok [OF demo_hop_ok(1), of 443] by (auto simp: demo_hops)
  let ?hs = "[1, 32, 251, 4, 10, 0, 0, 7] @ replicate 26 0"
  have "IP_String [10, 0, 0, 7] = ''10.0.0.7''" by code_simp
  with hop_entry_v4 [of "[10, 0, 0, 7]" 8443] demo_hop_ok(2)
  have e2: "put_hops [''10.0.0.7:8443''] = Inr ?hs"
    by (simp add: hop_ok_def demo_hops put_hop_def be_put16_def)
  obtain hdr where h: "EncodeHeader demo_uparse (replicate 16 0) 3 (\<lambda>i. 9) ?m = Inr hdr"
    using e1 e2 demo_encodes [of 3 "\<lambda>i. 9" ?m] by auto
  have pad: "enc_padLen ?m 3 = 3" by (simp add: enc_padLen_def demo_meta_def)
  obtain d c' where d: "DecodeNextHop conn_read string_of_bytes (peer_sends hdr) = (d, c')"
      "d_remaining d = put_header (enc_header demo_uparse (replicate 16 0) 3 ?m 1) @ drop 3 (?hs @ map (\<lambda>i. 9) [0..<3])"
    using npchain_padding_skew [OF demo_uuid_wf demo_hop_ok(1), of 443 "peer_sends hdr" "[''10.0.0.7:8443'']" ?m ?hs
        3 "\<lambda>i. 9" hdr "[]" string_of_bytes] h e2 pad
    by (auto simp: demo_hops demo_meta_def)
  have "length (put_header (enc_header demo_uparse (replicate 16 0) 3 ?m 1)) = HeaderSize"
    by (simp add: put_header_def enc_header_def HeaderSize_def enc_id_length [OF demo_uuid_wf])
  then have "d_remaining d ! HeaderSize = 4" by (simp add: d(2) nth_append)
  with h d(1) show ?thesis by blast
qed

text \<open>
  A header without hops is refused. Whatever follows it, an encoded header whose hop chain is
  empty makes the decoder return the error "no more hops".
\<close>

theorem npchain_no_hops_refused:
  assumes "uuid_wf uparse unew" "conn_open c" "m_HopChain meta = []"
    and "EncodeHeader uparse unew r0 junk meta = Inr hdr" "conn_rem c = hdr @ rest"
  shows "d_err (fst (DecodeNextHop conn_read ustr c)) = Some (New ''no more hops'')"
  by (rule cr.decode_no_hops [OF assms])

theorem npchain_no_hops_refused_witness:
  "\<exists>hdr. EncodeHeader demo_uparse (replicate 16 0) 3 (\<lambda>i. 9) (demo_meta []) = Inr hdr \<and>
    d_err (fst (DecodeNextHop conn_read string_of_bytes (peer_sends (hdr @ [1, 2, 3])))) = Some (New ''no more hops'')"
proof -
  obtain hdr where h: "EncodeHeader demo_uparse (replicate 16 0) 3 (\<lambda>i. 9) (demo_meta []) = Inr hdr"
    using demo_encodes [of 3 "\<lambda>i. 9" "demo_meta []"] by auto
  then show ?thesis
    using npchain_no_hops_refused [OF demo_uuid_wf _ _ h, of "peer_sends (hdr @ [1, 2, 3])" "[1, 2, 3]" string_of_bytes]
    by (simp add: demo_meta_def)
qed

text \<open>
  Datagrams round-trip. A packed datagram unpacks to the canonical form of the session id and
  the same payload, and a session id that is no UUID is refused.
\<close>

theorem datagram_roundtrip:
  assumes "uuid_wf uparse unew"
  shows "(case PackDatagram uparse sid payload of
      Inl e \<Rightarrow> uparse sid = None
    | Inr dat \<Rightarrow> \<exists>i. uparse sid = Some i \<and> UnpackDatagram ustr dat = Inr (ustr i, payload))"
  using assms by (auto simp: PackDatagram_def UnpackDatagram_def uuid_wf_def split: option.splits)

theorem datagram_roundtrip_witness:
  "\<exists>dat. PackDatagram demo_uparse ''0123456789abcdef'' [1, 2] = Inr dat
    \<and> UnpackDatagram string_of_bytes dat = Inr (''0123456789abcdef'', [1, 2])"
  using datagram_roundtrip [OF demo_uuid_wf, where sid = "''0123456789abcdef''" and payload = "[1, 2]" and ustr = string_of_bytes]
  by (simp add: PackDatagram_def demo_uparse_def)

end
