(* ===== verification/Configuration.thy ===== *)
theory Configuration
  imports NP_Types
begin

text \<open>
  The configuration (\<^verbatim>\<open>internal/common/config.go\<close>) and its manager
  (\<^verbatim>\<open>internal/common/config_manager.go\<close>). YAML marshalling is a parameter. Values of
  \<^verbatim>\<open>map[string]interface{}\<close> are a datatype with the dynamic types the program tests for.

  \<^verbatim>\<open>Update\<close> starts every subscriber's callback in a goroutine of its own, so callbacks run in any
  order: the step relation \<open>cm_step\<close> keeps the callbacks that have not run yet.
\<close>

section \<open>The configuration\<close>

datatype setting = SString string | SInt int | SBool bool | SList "setting list" | SMap "(string \<times> setting) list"

record ObfsConfig =
  oc_Type :: string
  oc_MaxPad :: int
  oc_Interval :: int
  oc_DummySize :: int

record UserAuth =
  ua_Username :: string
  ua_Password :: string

record AuthConfig =
  au_Enabled :: bool
  au_Users :: "UserAuth list"

record InboundConfig =
  ic_Protocol :: string
  ic_Listen :: string
  ic_Transport :: string
  ic_ProxyProtocol :: bool
  ic_Obfuscation :: ObfsConfig
  ic_Auth :: AuthConfig
  ic_WSPath :: string
  ic_WSHeader :: "(string \<times> string) list"
  ic_Settings :: "(string \<times> setting) list"

record OutboundConfig =
  oo_Name :: string
  oo_Protocol :: string
  oo_Group :: string
  oo_Address :: string
  oo_Transport :: string
  oo_Obfuscation :: ObfsConfig
  oo_MultiPath :: bool
  oo_TLSSNI :: string
  oo_WSPath :: string
  oo_WSHeader :: "(string \<times> string) list"
  oo_Settings :: "(string \<times> setting) list"

record LimitsConfig =
  li_MaxBandwidthMBps :: int
  li_PerUserBandwidthMBps :: int
  li_SessionTrafficThreshold :: int

record NodeConfig =
  nc_ID :: string
  nc_Type :: string
  nc_AdminAddr :: string
  nc_Tags :: "(string \<times> string) list"

record ControllerConfig =
  cc_Enabled :: bool
  cc_Address :: string
  cc_Insecure :: bool
  cc_CertFile :: string
  cc_KeyFile :: string
  cc_CAFile :: string

record FakeIPConfig =
  fi_Enabled :: bool
  fi_Range :: string

record RoutingConfig =
  rc_Rules :: "routing_rule list"
  rc_DNSUpstreams :: "string list"
  rc_DNSIsolationThreshold :: int
  rc_FakeIP :: FakeIPConfig

text \<open>The sample rate of tracing, a floating-point number, is kept as its text.\<close>

record TracingConfig =
  tc_Enabled :: bool
  tc_Endpoint :: string
  tc_SampleRate :: string

record MetricsConfig =
  mc_Enabled :: bool
  mc_Listen :: string

record LoggingConfig =
  lc_Level :: string
  lc_Format :: string
  lc_Path :: string

record ObservabilityConfig =
  ob_Tracing :: TracingConfig
  ob_Metrics :: MetricsConfig
  ob_Logging :: LoggingConfig

record Config =
  cf_Version :: string
  cf_Node :: NodeConfig
  cf_Controller :: ControllerConfig
  cf_Inbounds :: "InboundConfig list"
  cf_Outbounds :: "OutboundConfig list"
  cf_Routing :: RoutingConfig
  cf_Observability :: ObservabilityConfig
  cf_Limits :: LimitsConfig

definition Redacted :: "Config \<Rightarrow> Config" where
  "Redacted c = c\<lparr>cf_Inbounds := map (\<lambda>i. i\<lparr>ic_Auth := (ic_Auth i)\<lparr>au_Users := []\<rparr>\<rparr>) (cf_Inbounds c)\<rparr>"

definition Validate :: "Config \<Rightarrow> error option" where
  "Validate c = (if nc_ID (cf_Node c) = [] then Some (New ''node.id required'') else None)"

section \<open>Loading and saving\<close>

text \<open>
  A file system is the files by path and the directories that exist; \<open>dirOf\<close> is
  \<^verbatim>\<open>filepath.Dir\<close>. \<^verbatim>\<open>MkdirAll\<close> makes a directory and the chain
  of its parents, which is no longer than its name. \<^verbatim>\<open>Save\<close> drops the errors of its first three calls.
\<close>

record fsys =
  fs_files :: "(string \<times> bytes) list"
  fs_dirs :: "string list"

definition ErrNotExist :: error where "ErrNotExist = New ''no such file or directory''"

definition WriteFile :: "(string \<Rightarrow> string) \<Rightarrow> string \<Rightarrow> bytes \<Rightarrow> fsys \<Rightarrow> error option \<times> fsys" where
  "WriteFile dirOf p d fs = (if dirOf p \<in> set (fs_dirs fs) then (None, fs\<lparr>fs_files := (p, d) # filter (\<lambda>f. fst f \<noteq> p) (fs_files fs)\<rparr>)
     else (Some ErrNotExist, fs))"

fun parents :: "(string \<Rightarrow> string) \<Rightarrow> nat \<Rightarrow> string \<Rightarrow> string list" where
  "parents dirOf 0 d = [d]"
| "parents dirOf (Suc n) d = d # (if dirOf d = d then [] else parents dirOf n (dirOf d))"

definition MkdirAll :: "(string \<Rightarrow> string) \<Rightarrow> string \<Rightarrow> fsys \<Rightarrow> fsys" where
  "MkdirAll dirOf d fs = fs\<lparr>fs_dirs := fold List.insert (parents dirOf (length d) d) (fs_dirs fs)\<rparr>"

definition Rename :: "string \<Rightarrow> string \<Rightarrow> fsys \<Rightarrow> error option \<times> fsys" where
  "Rename p q fs = (case map_of (fs_files fs) p of
     None \<Rightarrow> (Some ErrNotExist, fs)
   | Some d \<Rightarrow> (None, fs\<lparr>fs_files := (q, d) # filter (\<lambda>f. fst f \<noteq> p \<and> fst f \<noteq> q) (fs_files fs)\<rparr>))"

definition LoadConfig :: "(bytes \<Rightarrow> Config) \<Rightarrow> string \<Rightarrow> fsys \<Rightarrow> Config res" where
  "LoadConfig unmarshal path fs = (case map_of (fs_files fs) path of
     None \<Rightarrow> Inl ErrNotExist | Some d \<Rightarrow> Inr (unmarshal d))"

definition Save :: "(Config \<Rightarrow> bytes) \<Rightarrow> (string \<Rightarrow> string) \<Rightarrow> Config \<Rightarrow> string \<Rightarrow> fsys \<Rightarrow> error option \<times> fsys" where
  "Save marshal dirOf c path fs =
     (let tmpFile = path @ ''.tmp'';
          fs1 = snd (WriteFile dirOf tmpFile (marshal c) fs);
          fs2 = MkdirAll dirOf (dirOf path) fs1 in
      Rename tmpFile path fs2)"

section \<open>The configuration manager\<close>

text \<open>Subscribers are numbered in the order of their subscription.\<close>

record ConfigManager =
  cm_current :: Config
  cm_subs :: nat

definition NewConfigManager :: "Config \<Rightarrow> ConfigManager" where
  "NewConfigManager initial = \<lparr>cm_current = initial, cm_subs = 0\<rparr>"

definition cm_Get :: "ConfigManager \<Rightarrow> Config" where
  "cm_Get cm = cm_current cm"

definition cm_Subscribe :: "ConfigManager \<Rightarrow> ConfigManager" where
  "cm_Subscribe cm = cm\<lparr>cm_subs := Suc (cm_subs cm)\<rparr>"

text \<open>The callbacks started by an update: one per subscriber, with the new configuration.\<close>

definition cm_Update :: "Config \<Rightarrow> ConfigManager \<Rightarrow> (error option \<times> (nat \<times> Config) list) \<times> ConfigManager" where
  "cm_Update newCfg cm = (case Validate newCfg of
     Some e \<Rightarrow> ((Some e, []), cm)
   | None \<Rightarrow> ((None, map (\<lambda>i. (i, newCfg)) [0..<cm_subs cm]), cm\<lparr>cm_current := newCfg\<rparr>))"

record cm_world =
  cw_cm :: ConfigManager
  cw_running :: "(nat \<times> Config) list"
  cw_applied :: "(nat \<times> Config) list"

inductive cm_step :: "cm_world \<Rightarrow> cm_world \<Rightarrow> bool" where
  subscribe: "cm_step w (w\<lparr>cw_cm := cm_Subscribe (cw_cm w)\<rparr>)"
| update: "cm_Update c (cw_cm w) = ((e, cbs), cm) \<Longrightarrow>
    cm_step w (w\<lparr>cw_cm := cm, cw_running := cw_running w @ cbs\<rparr>)"
| run: "i < length (cw_running w) \<Longrightarrow>
    cm_step w (w\<lparr>cw_running := take i (cw_running w) @ drop (Suc i) (cw_running w),
                 cw_applied := cw_applied w @ [cw_running w ! i]\<rparr>)"

inductive_cases cm_stepE: "cm_step w w'"

definition cm_start :: "Config \<Rightarrow> cm_world" where
  "cm_start c = \<lparr>cw_cm = NewConfigManager c, cw_running = [], cw_applied = []\<rparr>"

section \<open>Lemmas\<close>

lemma Redacted_same:
  "cf_Node (Redacted c) = cf_Node c" "cf_Outbounds (Redacted c) = cf_Outbounds c" "cf_Routing (Redacted c) = cf_Routing c"
  "length (cf_Inbounds (Redacted c)) = length (cf_Inbounds c)"
  by (simp_all add: Redacted_def)

definition all_valid :: "cm_world \<Rightarrow> bool" where
  "all_valid w \<longleftrightarrow> Validate (cm_current (cw_cm w)) = None
     \<and> list_all (\<lambda>p. Validate (snd p) = None) (cw_running w) \<and> list_all (\<lambda>p. Validate (snd p) = None) (cw_applied w)"

lemma cm_step_valid: "cm_step w w' \<Longrightarrow> all_valid w \<Longrightarrow> all_valid w'"
proof (induction rule: cm_step.induct)
  case (update c w e cbs cm)
  then show ?case by (simp add: cm_Update_def all_valid_def list_all_iff split: option.splits) auto
next
  case (run i w)
  then show ?case using list_all_nth_removed [of "\<lambda>p. Validate (snd p) = None" "cw_running w" i] by (simp add: all_valid_def)
qed (simp add: cm_Subscribe_def all_valid_def)

lemma cm_reach_valid: "cm_step\<^sup>*\<^sup>* (cm_start c0) w \<Longrightarrow> Validate c0 = None \<Longrightarrow> all_valid w"
proof (induction rule: rtranclp_induct)
  case base
  then show ?case by (simp add: cm_start_def NewConfigManager_def all_valid_def)
next
  case (step w w')
  then show ?case using cm_step_valid by blast
qed

section \<open>Properties\<close>


definition demo_config :: "string \<Rightarrow> Config" where
  "demo_config nid = \<lparr>cf_Version = ''2'', cf_Node = \<lparr>nc_ID = nid, nc_Type = ''edge'', nc_AdminAddr = [], nc_Tags = []\<rparr>,
     cf_Controller = \<lparr>cc_Enabled = False, cc_Address = [], cc_Insecure = False, cc_CertFile = [], cc_KeyFile = [], cc_CAFile = []\<rparr>,
     cf_Inbounds = [], cf_Outbounds = [],
     cf_Routing = \<lparr>rc_Rules = [], rc_DNSUpstreams = [], rc_DNSIsolationThreshold = 0, rc_FakeIP = \<lparr>fi_Enabled = False, fi_Range = []\<rparr>\<rparr>,
     cf_Observability = \<lparr>ob_Tracing = \<lparr>tc_Enabled = False, tc_Endpoint = [], tc_SampleRate = ''0''\<rparr>,
       ob_Metrics = \<lparr>mc_Enabled = False, mc_Listen = []\<rparr>, ob_Logging = \<lparr>lc_Level = [], lc_Format = [], lc_Path = []\<rparr>\<rparr>,
     cf_Limits = \<lparr>li_MaxBandwidthMBps = 0, li_PerUserBandwidthMBps = 0, li_SessionTrafficThreshold = 0\<rparr>\<rparr>"


text \<open>
  A subscriber can end up with an outdated configuration. Two valid updates in a row may run
  their callbacks in the other order, so that the last configuration applied is the older one
  although the manager holds the newer one.
\<close>

theorem config_stale_callback:
  assumes "Validate c1 = None" "Validate c2 = None"
  shows "\<exists>w. cm_step\<^sup>*\<^sup>* (cm_start c0) w \<and> cw_running w = [] \<and> cm_Get (cw_cm w) = c2 \<and> last (cw_applied w) = (0, c1)"
proof -
  define w0 where "w0 = cm_start c0"
  define w1 where "w1 = w0\<lparr>cw_cm := cm_Subscribe (cw_cm w0)\<rparr>"
  define w2 where "w2 = w1\<lparr>cw_cm := (cw_cm w1)\<lparr>cm_current := c1\<rparr>, cw_running := [(0, c1)]\<rparr>"
  define w3 where "w3 = w2\<lparr>cw_cm := (cw_cm w2)\<lparr>cm_current := c2\<rparr>, cw_running := [(0, c1), (0, c2)]\<rparr>"
  define w4 where "w4 = w3\<lparr>cw_running := [(0, c1)], cw_applied := [(0, c2)]\<rparr>"
  define w5 where "w5 = w4\<lparr>cw_running := [], cw_applied := [(0, c2), (0, c1)]\<rparr>"
  note ws = w0_def w1_def w2_def w3_def w4_def w5_def cm_start_def NewConfigManager_def cm_Subscribe_def
  have "cm_step w0 w1" unfolding w1_def by (rule cm_step.subscribe)
  moreover have "cm_step w1 w2"
    using cm_step.update [of c1 w1 None "[(0, c1)]" "(cw_cm w1)\<lparr>cm_current := c1\<rparr>"] assms(1) by (simp add: cm_Update_def ws)
  moreover have "cm_step w2 w3"
    using cm_step.update [of c2 w2 None "[(0, c2)]" "(cw_cm w2)\<lparr>cm_current := c2\<rparr>"] assms(2) by (simp add: cm_Update_def ws)
  moreover have "cm_step w3 w4" using cm_step.run [of 1 w3] by (simp add: ws)
  moreover have "cm_step w4 w5" using cm_step.run [of 0 w4] by (simp add: ws)
  ultimately have "cm_step\<^sup>*\<^sup>* w0 w5" by (meson rtranclp.rtrancl_into_rtrancl rtranclp.rtrancl_refl)
  moreover have "cw_running w5 = []" "cm_Get (cw_cm w5) = c2" "last (cw_applied w5) = (0, c1)"
    by (simp_all add: ws cm_Get_def)
  ultimately show ?thesis unfolding w0_def by blast
qed

theorem config_stale_callback_witness:
  "\<exists>w. cm_step\<^sup>*\<^sup>* (cm_start (demo_config ''n1'')) w \<and> cm_Get (cw_cm w) = demo_config ''n3''
    \<and> last (cw_applied w) = (0, demo_config ''n2'')"
  using config_stale_callback [of "demo_config ''n2''" "demo_config ''n3''" "demo_config ''n1''"]
  by (auto simp: Validate_def demo_config_def)

text \<open>
  Saving into a directory that does not exist fails and leaves no file. The temporary file
  is written before the directory is created, and the error of that write is dropped; saving
  into a directory that exists stores the marshalled configuration, which loads back.
\<close>

theorem config_save:
  assumes "dirOf (path @ ''.tmp'') = dirOf path" "path @ ''.tmp'' \<notin> fst ` set (fs_files fs)"
  shows "(dirOf path \<notin> set (fs_dirs fs) \<longrightarrow>
      fst (Save marshal dirOf c path fs) = Some ErrNotExist \<and> fs_files (snd (Save marshal dirOf c path fs)) = fs_files fs) \<and>
    (dirOf path \<in> set (fs_dirs fs) \<longrightarrow> fst (Save marshal dirOf c path fs) = None
      \<and> LoadConfig unmarshal path (snd (Save marshal dirOf c path fs)) = Inr (unmarshal (marshal c)))"
proof -
  have "map_of (fs_files fs) (path @ ''.tmp'') = None" using assms(2) by (simp add: map_of_eq_None_iff)
  then show ?thesis
    using assms(1) by (auto simp: Save_def WriteFile_def MkdirAll_def Rename_def LoadConfig_def Let_def)
qed

theorem config_save_witness:
  "fst (Save (\<lambda>c. [1]) (\<lambda>p. ''d'') (demo_config ''n1'') ''d/f'' \<lparr>fs_files = [], fs_dirs = []\<rparr>) = Some ErrNotExist
   \<and> LoadConfig (\<lambda>b. demo_config ''n1'') ''d/f'' (snd (Save (\<lambda>c. [1]) (\<lambda>p. ''d'') (demo_config ''n1'') ''d/f'' \<lparr>fs_files = [], fs_dirs = [''d'']\<rparr>))
     = Inr (demo_config ''n1'')"
  using config_save [of "\<lambda>p. ''d''" "''d/f''" "\<lparr>fs_files = [], fs_dirs = []\<rparr>" "\<lambda>c. [1]" "demo_config ''n1''" "\<lambda>b. demo_config ''n1''"]
    config_save [of "\<lambda>p. ''d''" "''d/f''" "\<lparr>fs_files = [], fs_dirs = [''d'']\<rparr>" "\<lambda>c. [1]" "demo_config ''n1''" "\<lambda>b. demo_config ''n1''"]
  by simp

end
