(* ===== verification/Obfs.thy ===== *)
theory Obfs
  imports NPChain_Codec Configuration
begin

text \<open>
  The obfuscating connection (\<^verbatim>\<open>internal/common/obfs.go\<close>): every write becomes one frame
  \<^verbatim>\<open>[payload length, 2 bytes][padding length, 1 byte][payload][padding]\<close>, a heartbeat is a frame
  without payload, and a read returns the payload of the next frame that has one. The random
  numbers of \<^verbatim>\<open>crypto/rand\<close> are parameters: \<open>r0\<close> is the byte that gives the padding length,
  \<open>junk\<close> the padding itself. The heartbeat goroutine is the operation \<open>heartbeat\<close>, which the
  properties interleave with the writes in any order.
\<close>

section \<open>Definitions\<close>

record ObfsConn =
  o_conn :: conn
  o_maxPad :: int
  o_interval :: int
  o_dummy :: int
  o_cancelled :: bool

text \<open>\<open>Inl\<close> is the connection returned as it came, \<open>Inr\<close> the wrapped one.\<close>

definition NewObfsConn :: "conn \<Rightarrow> ObfsConfig \<Rightarrow> conn + ObfsConn" where
  "NewObfsConn c cfg =
     (if oc_Type cfg \<noteq> ''padding'' \<and> oc_Interval cfg \<le> 0 then Inl c
      else Inr \<lparr>o_conn = c, o_maxPad = oc_MaxPad cfg, o_interval = int64 (oc_Interval cfg * 1000000),
                o_dummy = oc_DummySize cfg, o_cancelled = False\<rparr>)"

text \<open>Go's remainder of a non-negative dividend; a zero divisor panics.\<close>

definition frame_padLen :: "int \<Rightarrow> int \<Rightarrow> byte \<Rightarrow> nat res" where
  "frame_padLen maxPad forcePad r0 =
     (if int64 (maxPad + 1) = 0 then Inl (GoPanic ''integer divide by zero'')
      else let padLen = uint r0 mod \<bar>int64 (maxPad + 1)\<bar> in
           Inr (nat (if padLen < forcePad then forcePad else padLen)))"

definition frame_bytes :: "bytes \<Rightarrow> nat \<Rightarrow> (nat \<Rightarrow> byte) \<Rightarrow> bytes" where
  "frame_bytes p padLen junk =
     be_put16 (of_nat (length p)) @ [of_nat padLen] @ p @ map junk [0..<padLen]"

definition sendFrame :: "byte \<Rightarrow> (nat \<Rightarrow> byte) \<Rightarrow> bytes \<Rightarrow> int \<Rightarrow> ObfsConn \<Rightarrow> error option \<times> ObfsConn" where
  "sendFrame r0 junk p forcePad ob = (case frame_padLen (o_maxPad ob) forcePad r0 of
     Inl e \<Rightarrow> (Some e, ob)
   | Inr padLen \<Rightarrow> (case conn_write (o_conn ob) (frame_bytes p padLen junk) of
       (e, c) \<Rightarrow> (e, ob\<lparr>o_conn := c\<rparr>)))"

definition obfs_Write :: "byte \<Rightarrow> (nat \<Rightarrow> byte) \<Rightarrow> bytes \<Rightarrow> ObfsConn \<Rightarrow> (nat \<times> error option) \<times> ObfsConn" where
  "obfs_Write r0 junk p ob =
     (if p = [] then ((0, None), ob)
      else (case sendFrame r0 junk p 0 ob of
          (Some e, ob') \<Rightarrow> ((0, Some e), ob')
        | (None, ob') \<Rightarrow> ((length p, None), ob')))"

text \<open>One tick of \<^verbatim>\<open>heartbeatLoop\<close>: after cancellation the loop has ended; the error is dropped.\<close>

definition heartbeat :: "byte \<Rightarrow> (nat \<Rightarrow> byte) \<Rightarrow> ObfsConn \<Rightarrow> ObfsConn" where
  "heartbeat r0 junk ob = (if o_cancelled ob then ob else snd (sendFrame r0 junk [] (o_dummy ob) ob))"

definition obfs_Close :: "ObfsConn \<Rightarrow> ObfsConn" where
  "obfs_Close ob = ob\<lparr>o_conn := conn_close (o_conn ob), o_cancelled := True\<rparr>"

text \<open>The padding of a frame, discarded when there is any.\<close>

definition skip_pad :: "nat \<Rightarrow> conn \<Rightarrow> error option \<times> conn" where
  "skip_pad padLen c = (if 0 < padLen then CopyN_Discard conn_read padLen c else (None, c))"

section \<open>Reading shrinks what is left to arrive\<close>

lemma skip_pad_arriving: "skip_pad n c = (e, c') \<Longrightarrow> length (arriving (inq c')) \<le> length (arriving (inq c))"
  unfolding skip_pad_def CopyN_Discard_def
  by (fastforce split: prod.splits if_splits dest: read_loop_arriving)

section \<open>Read\<close>

text \<open>
  The loop of \<^verbatim>\<open>Read\<close> on the underlying connection. Every round takes a 3-byte header off what
  is left to arrive, so the loop ends.
\<close>

function obfs_read_loop :: "nat \<Rightarrow> conn \<Rightarrow> (bytes \<times> error option) \<times> conn" where
  "obfs_read_loop n c = (case ReadFull conn_read 3 c of
     ((_, Some e), c1) \<Rightarrow> (([], Some e), c1)
   | ((hdr, None), c1) \<Rightarrow>
       let payloadLen = unat (be_get16 (take 2 hdr)); padLen = unat (hdr ! 2) in
       if payloadLen = 0 then
         (case skip_pad padLen c1 of
            (Some e, c2) \<Rightarrow> (([], Some e), c2)
          | (None, c2) \<Rightarrow> obfs_read_loop n c2)
       else if n < payloadLen then (([], Some ErrShortBuffer), c1)
       else (case ReadFull conn_read payloadLen c1 of
            ((_, Some e), c2) \<Rightarrow> (([], Some e), c2)
          | ((p, None), c2) \<Rightarrow>
              (case skip_pad padLen c2 of
                 (Some e, c3) \<Rightarrow> (([], Some e), c3)
               | (None, c3) \<Rightarrow> ((p, None), c3))))"
  by pat_completeness auto
termination
  by (relation "measure (\<lambda>(n, c). length (arriving (inq c)))")
    (auto dest!: ReadFull_arriving [OF sym] skip_pad_arriving [OF sym])

declare obfs_read_loop.simps [simp del]

definition obfs_Read :: "ObfsConn \<Rightarrow> nat \<Rightarrow> (bytes \<times> error option) \<times> ObfsConn" where
  "obfs_Read ob n = (case obfs_read_loop n (o_conn ob) of (r, c) \<Rightarrow> (r, ob\<lparr>o_conn := c\<rparr>))"

section \<open>Single frames\<close>

lemma length_be16 [simp]: "take 2 (be_put16 w @ r) = be_put16 w" "(be_put16 w @ b # r) ! 2 = b"
  by (simp_all add: nth_append)

lemma skip_pad_data:
  assumes "conn_open c" "k \<le> length (conn_rem c)"
  shows "\<exists>c'. skip_pad k c = (None, c') \<and> conn_rem c' = drop k (conn_rem c)
    \<and> conn_fin c' = conn_fin c \<and> conn_open c'"
  using cr.CopyN_data [OF assms] assms(1) by (auto simp: skip_pad_def)

text \<open>The three header bytes of a frame: the length modulo $2^{16}$ and the padding modulo $2^8$.\<close>

lemma frame_header:
  assumes "conn_open c" "conn_rem c = frame_bytes p padLen junk @ r"
  shows "\<exists>c1. ReadFull conn_read 3 c = ((be_put16 (of_nat (length p)) @ [of_nat padLen], None), c1)
    \<and> conn_rem c1 = p @ map junk [0..<padLen] @ r \<and> conn_fin c1 = conn_fin c \<and> conn_open c1"
  using cr.ReadFull_data [of c 3] assms by (auto simp: frame_bytes_def)

lemma obfs_read_frame:
  assumes "conn_open c" "conn_rem c = frame_bytes p padLen junk @ r"
    and "p \<noteq> []" "length p \<le> 65535" "length p \<le> n" "padLen \<le> 255"
  shows "\<exists>c'. obfs_read_loop n c = ((p, None), c') \<and> conn_rem c' = r \<and> conn_fin c' = conn_fin c \<and> conn_open c'"
proof -
  obtain c1 where c1: "ReadFull conn_read 3 c = ((be_put16 (of_nat (length p)) @ [of_nat padLen], None), c1)"
      "conn_rem c1 = p @ map junk [0..<padLen] @ r" "conn_fin c1 = conn_fin c" "conn_open c1"
    using frame_header [OF assms(1,2)] by blast
  obtain c2 where c2: "ReadFull conn_read (length p) c1 = ((p, None), c2)"
      "conn_rem c2 = map junk [0..<padLen] @ r" "conn_fin c2 = conn_fin c" "conn_open c2"
    using cr.ReadFull_data [of c1 "length p"] c1 by auto
  obtain c3 where c3: "skip_pad padLen c2 = (None, c3)" "conn_rem c3 = r" "conn_fin c3 = conn_fin c" "conn_open c3"
    using skip_pad_data [OF c2(4), of padLen] c2 by auto
  have "unat (of_nat (length p) :: u16) = length p" "unat (of_nat padLen :: byte) = padLen"
    using assms(4,6) by (simp_all add: unat_of_nat_u16 unat_of_nat_byte)
  with c1 c2 c3 assms(3,5) show ?thesis
    by (subst obfs_read_loop.simps) (simp add: Let_def)
qed

text \<open>A frame without payload is skipped, up to the padding its header announces.\<close>

lemma obfs_read_dummy:
  assumes "conn_open c" "conn_rem c = frame_bytes [] padLen junk @ r"
  shows "\<exists>c'. obfs_read_loop n c = obfs_read_loop n c' \<and> conn_fin c' = conn_fin c \<and> conn_open c'
    \<and> conn_rem c' = drop (padLen mod 256) (map junk [0..<padLen]) @ r"
proof -
  obtain c1 where c1: "ReadFull conn_read 3 c = ((be_put16 0 @ [of_nat padLen], None), c1)"
      "conn_rem c1 = map junk [0..<padLen] @ r" "conn_fin c1 = conn_fin c" "conn_open c1"
    using frame_header [OF assms(1,2)] by auto
  have m: "unat (of_nat padLen :: byte) = padLen mod 256" by (simp add: unat_of_nat)
  have le: "padLen mod 256 \<le> padLen" by simp
  obtain c2 where c2: "skip_pad (padLen mod 256) c1 = (None, c2)" "conn_fin c2 = conn_fin c" "conn_open c2"
      "conn_rem c2 = drop (padLen mod 256) (map junk [0..<padLen]) @ r"
    using skip_pad_data [OF c1(4), of "padLen mod 256"] c1 le by (auto simp: drop_append)
  have "obfs_read_loop n c = obfs_read_loop n c2"
    by (subst obfs_read_loop.simps) (use c1(1) c2(1) m in \<open>simp add: Let_def\<close>)
  with c2 show ?thesis by blast
qed

lemma obfs_read_end:
  assumes "conn_open c" "conn_rem c = []"
  shows "\<exists>c'. obfs_read_loop n c = (([], Some (conn_fin c)), c')"
  using cr.ReadFull_short [of c 3] assms by (subst obfs_read_loop.simps) auto

section \<open>Sequences of writes and heartbeats\<close>

datatype obfs_op = OWrite bytes byte "nat \<Rightarrow> byte" | OBeat byte "nat \<Rightarrow> byte"

fun obfs_exec :: "obfs_op \<Rightarrow> ObfsConn \<Rightarrow> ObfsConn" where
  "obfs_exec (OWrite p r0 junk) ob = snd (obfs_Write r0 junk p ob)"
| "obfs_exec (OBeat r0 junk) ob = heartbeat r0 junk ob"

fun sent :: "obfs_op list \<Rightarrow> bytes list" where
  "sent [] = []"
| "sent (OWrite p r0 junk # ops) = (if p = [] then sent ops else p # sent ops)"
| "sent (OBeat r0 junk # ops) = sent ops"

fun obfs_reads :: "nat \<Rightarrow> nat \<Rightarrow> ObfsConn \<Rightarrow> (bytes \<times> error option) list" where
  "obfs_reads 0 n ob = []"
| "obfs_reads (Suc k) n ob = (case obfs_Read ob n of (r, ob') \<Rightarrow> r # obfs_reads k n ob')"

text \<open>A sender whose padding parameters are legal, on a connection that takes all writes.\<close>

definition obfs_sender :: "ObfsConn \<Rightarrow> bool" where
  "obfs_sender ob \<longleftrightarrow> int64 (o_maxPad ob + 1) \<noteq> 0 \<and> o_dummy ob \<le> 255 \<and> \<not> o_cancelled ob
     \<and> conn_open (o_conn ob) \<and> wlimit (o_conn ob) = None"

definition op_fits :: "nat \<Rightarrow> obfs_op \<Rightarrow> bool" where
  "op_fits n p = (case p of OWrite d r0 junk \<Rightarrow> length d \<le> 65535 \<and> length d \<le> n | OBeat r0 junk \<Rightarrow> True)"

lemma frame_padLen_ok:
  assumes "int64 (m + 1) \<noteq> 0" "f \<le> 255"
  shows "\<exists>k. frame_padLen m f r0 = Inr k \<and> k \<le> 255"
proof -
  have "uint r0 mod \<bar>int64 (m + 1)\<bar> \<le> uint r0" by (simp add: zmod_le_nonneg_dividend)
  moreover have "uint r0 \<le> 255" using uint_lt2p [of r0] by simp
  ultimately have "uint r0 mod \<bar>int64 (m + 1)\<bar> \<le> 255" by simp
  with assms show ?thesis by (simp add: frame_padLen_def Let_def nat_le_iff)
qed

text \<open>Each operation appends nothing or one well-formed frame.\<close>

lemma obfs_exec_frame:
  assumes "obfs_sender ob"
  shows "obfs_sender (obfs_exec x ob) \<and> (case x of
      OWrite p r0 junk \<Rightarrow> (if p = [] then obfs_exec x ob = ob
        else \<exists>k \<le> 255. outq (o_conn (obfs_exec x ob)) = outq (o_conn ob) @ frame_bytes p k junk)
    | OBeat r0 junk \<Rightarrow> \<exists>k \<le> 255. outq (o_conn (obfs_exec x ob)) = outq (o_conn ob) @ frame_bytes [] k junk)"
proof (cases x)
  case (OWrite p r0 junk)
  obtain k where "frame_padLen (o_maxPad ob) 0 r0 = Inr k" "k \<le> 255"
    using frame_padLen_ok [of "o_maxPad ob" 0 r0] assms by (auto simp: obfs_sender_def)
  with OWrite assms show ?thesis
    by (auto simp: obfs_Write_def sendFrame_def obfs_sender_def conn_write_def conn_open_def)
next
  case (OBeat r0 junk)
  obtain k where "frame_padLen (o_maxPad ob) (o_dummy ob) r0 = Inr k" "k \<le> 255"
    using frame_padLen_ok [of "o_maxPad ob" "o_dummy ob" r0] assms by (auto simp: obfs_sender_def)
  with OBeat assms show ?thesis
    by (auto simp: heartbeat_def sendFrame_def obfs_sender_def conn_write_def conn_open_def)
qed

lemma obfs_reads_frame:
  assumes "conn_open (o_conn rc)" "conn_rem (o_conn rc) = frame_bytes p k junk @ r"
    and "p \<noteq> []" "length p \<le> 65535" "length p \<le> n" "k \<le> 255"
  shows "\<exists>rc'. obfs_reads (Suc m) n rc = (p, None) # obfs_reads m n rc' \<and> conn_open (o_conn rc')
    \<and> conn_rem (o_conn rc') = r \<and> conn_fin (o_conn rc') = conn_fin (o_conn rc)"
  using obfs_read_frame [OF assms(1,2,3,4,5,6)] by (fastforce simp: obfs_Read_def)

lemma obfs_reads_dummy:
  assumes "conn_open (o_conn rc)" "conn_rem (o_conn rc) = frame_bytes [] k junk @ r" "k \<le> 255"
  shows "\<exists>rc'. obfs_reads (Suc m) n rc = obfs_reads (Suc m) n rc' \<and> conn_open (o_conn rc')
    \<and> conn_rem (o_conn rc') = r \<and> conn_fin (o_conn rc') = conn_fin (o_conn rc)"
proof -
  obtain c' where "obfs_read_loop n (o_conn rc) = obfs_read_loop n c'" "conn_fin c' = conn_fin (o_conn rc)"
      "conn_open c'" "conn_rem c' = r"
    using obfs_read_dummy [OF assms(1,2), of n] assms(3) by auto
  then show ?thesis by (intro exI [of _ "rc\<lparr>o_conn := c'\<rparr>"]) (simp add: obfs_Read_def split: prod.splits)
qed

lemma obfs_wire:
  assumes "obfs_sender ob" "\<forall>x \<in> set ops. op_fits n x"
  shows "\<exists>wire. outq (o_conn (fold obfs_exec ops ob)) = outq (o_conn ob) @ wire \<and>
    (\<forall>rc. conn_open (o_conn rc) \<longrightarrow> conn_rem (o_conn rc) = wire \<longrightarrow>
      obfs_reads (Suc (length (sent ops))) n rc =
        map (\<lambda>p. (p, None)) (sent ops) @ [([], Some (conn_fin (o_conn rc)))])"
  using assms
proof (induction ops arbitrary: ob)
  case Nil
  have "\<forall>rc. conn_open (o_conn rc) \<longrightarrow> conn_rem (o_conn rc) = [] \<longrightarrow>
      obfs_reads (Suc 0) n rc = [([], Some (conn_fin (o_conn rc)))]"
    using obfs_read_end [of _ n] by (fastforce simp: obfs_Read_def)
  then show ?case by auto
next
  case (Cons x ops)
  let ?ob = "obfs_exec x ob"
  have s: "obfs_sender ?ob" using obfs_exec_frame [OF Cons.prems(1)] by blast
  obtain wire where w: "outq (o_conn (fold obfs_exec ops ?ob)) = outq (o_conn ?ob) @ wire"
      "\<And>rc. conn_open (o_conn rc) \<Longrightarrow> conn_rem (o_conn rc) = wire \<Longrightarrow>
        obfs_reads (Suc (length (sent ops))) n rc =
          map (\<lambda>p. (p, None)) (sent ops) @ [([], Some (conn_fin (o_conn rc)))]"
    using Cons.IH [OF s] Cons.prems(2) by auto
  show ?case
  proof (cases "\<exists>r0 junk. x = OWrite [] r0 junk")
    case True
    with w obfs_exec_frame [OF Cons.prems(1), of x] show ?thesis by auto
  next
    case False
    then obtain p k junk where f: "outq (o_conn ?ob) = outq (o_conn ob) @ frame_bytes p k junk" "k \<le> 255"
        "sent (x # ops) = (if p = [] then sent ops else p # sent ops)" "length p \<le> 65535" "length p \<le> n"
      using obfs_exec_frame [OF Cons.prems(1), of x] Cons.prems(2)
      by (cases x) (fastforce simp: op_fits_def)+
    let ?w = "frame_bytes p k junk @ wire"
    have "obfs_reads (Suc (length (sent (x # ops)))) n rc =
        map (\<lambda>p. (p, None)) (sent (x # ops)) @ [([], Some (conn_fin (o_conn rc)))]"
      if op: "conn_open (o_conn rc)" "conn_rem (o_conn rc) = ?w" for rc
    proof (cases "p = []")
      case True
      with obfs_reads_dummy [OF op(1) _ f(2), of junk wire "length (sent ops)" n] op(2)
      obtain rc' where "obfs_reads (Suc (length (sent ops))) n rc = obfs_reads (Suc (length (sent ops))) n rc'"
          "conn_open (o_conn rc')" "conn_rem (o_conn rc') = wire" "conn_fin (o_conn rc') = conn_fin (o_conn rc)"
        by auto
      with w(2) [of rc'] True show ?thesis by (simp add: f(3) del: obfs_reads.simps)
    next
      case False
      obtain rc' where "obfs_reads (Suc (Suc (length (sent ops)))) n rc = (p, None) # obfs_reads (Suc (length (sent ops))) n rc'"
          "conn_open (o_conn rc')" "conn_rem (o_conn rc') = wire" "conn_fin (o_conn rc') = conn_fin (o_conn rc)"
        using obfs_reads_frame [OF op False f(4,5,2), of "Suc (length (sent ops))"] by blast
      with w(2) [of rc'] False show ?thesis by (simp add: f(3) del: obfs_reads.simps)
    qed
    with w(1) f(1) show ?thesis by auto
  qed
qed

section \<open>Properties\<close>

text \<open>
  C4: Messages survive obfuscation. Whatever writes (of at most 65535 bytes each) and heartbeats
  are performed in whatever order, with any padding drawn, a receiver that reads the resulting
  byte stream through a buffer large enough for the messages, however the stream is cut into
  segments, gets exactly the non-empty payloads written, one per read and in order, and then the
  error that ends the stream. The dummy size must be at most 255 and \<^verbatim>\<open>maxPad\<close> not -1.
\<close>

theorem obfs_roundtrip:
  assumes "obfs_sender ob" "outq (o_conn ob) = []" "\<forall>x \<in> set ops. op_fits n x"
    and "conn_open (o_conn rc)" "conn_rem (o_conn rc) = outq (o_conn (fold obfs_exec ops ob))"
  shows "obfs_reads (Suc (length (sent ops))) n rc =
    map (\<lambda>p. (p, None)) (sent ops) @ [([], Some (conn_fin (o_conn rc)))]"
  using obfs_wire [OF assms(1,3)] assms(2,4,5) by auto

text \<open>Two messages with a heartbeat between them.\<close>

definition demo_sender :: "int \<Rightarrow> ObfsConn" where
  "demo_sender dummy = \<lparr>o_conn = peer_sends [], o_maxPad = 16, o_interval = 0, o_dummy = dummy, o_cancelled = False\<rparr>"

definition demo_receiver :: "bytes \<Rightarrow> ObfsConn" where
  "demo_receiver bs = \<lparr>o_conn = peer_sends bs, o_maxPad = 16, o_interval = 0, o_dummy = 0, o_cancelled = False\<rparr>"

definition demo_ops :: "obfs_op list" where
  "demo_ops = [OWrite [1, 2, 3] 5 (\<lambda>i. 7), OBeat 3 (\<lambda>i. 9), OWrite [4] 33 (\<lambda>i. 8)]"

lemma demo_open: "conn_open (o_conn (demo_sender d))" "wlimit (o_conn (demo_sender d)) = None"
    "outq (o_conn (demo_sender d)) = []" "int64 (o_maxPad (demo_sender d) + 1) \<noteq> 0"
    "o_dummy (demo_sender d) = d" "\<not> o_cancelled (demo_sender d)"
  by (simp_all add: demo_sender_def) (simp_all add: peer_sends_def int64_id in_int64_def)

theorem obfs_roundtrip_witness:
  "obfs_reads 3 64 (demo_receiver (outq (o_conn (fold obfs_exec demo_ops (demo_sender 20))))) =
    [([1, 2, 3], None), ([4], None), ([], Some EOF)]"
proof -
  have "obfs_sender (demo_sender 20)" by (simp add: obfs_sender_def demo_open)
  moreover have "\<forall>x \<in> set demo_ops. op_fits 64 x" by (simp add: demo_ops_def op_fits_def)
  ultimately show ?thesis
    using obfs_roundtrip [of "demo_sender 20" demo_ops 64
      "demo_receiver (outq (o_conn (fold obfs_exec demo_ops (demo_sender 20))))"]
    by (simp add: demo_open demo_receiver_def demo_ops_def eval_nat_numeral del: obfs_reads.simps)
qed

text \<open>
  A dummy size above 255 breaks the framing. The heartbeat sends \<open>k\<close> bytes of padding but
  announces \<open>k mod 256\<close> of them, so the receiver's next read takes the other random bytes for
  frames, before it comes to what was really sent.
\<close>

theorem obfs_dummy_overflow:
  assumes "255 < o_dummy ob" "int64 (o_maxPad ob + 1) \<noteq> 0" "\<not> o_cancelled ob"
    and "conn_open (o_conn ob)" "wlimit (o_conn ob) = None" "outq (o_conn ob) = []"
    and "conn_open (o_conn rc)" "conn_rem (o_conn rc) = outq (o_conn (heartbeat r0 junk ob)) @ rest"
  shows "\<exists>rc'. obfs_Read rc n = obfs_Read rc' n \<and> conn_open (o_conn rc')
    \<and> conn_rem (o_conn rc') = map junk [nat (o_dummy ob) mod 256..<nat (o_dummy ob)] @ rest"
proof -
  let ?k = "nat (o_dummy ob)"
  have "uint r0 mod \<bar>int64 (o_maxPad ob + 1)\<bar> \<le> uint r0" by (simp add: zmod_le_nonneg_dividend)
  then have "uint r0 mod \<bar>int64 (o_maxPad ob + 1)\<bar> < o_dummy ob" using uint_lt2p [of r0] assms(1) by simp
  then have "frame_padLen (o_maxPad ob) (o_dummy ob) r0 = Inr ?k" using assms(2) by (simp add: frame_padLen_def Let_def)
  then have "outq (o_conn (heartbeat r0 junk ob)) = frame_bytes [] ?k junk"
    using assms by (simp add: heartbeat_def sendFrame_def conn_write_def conn_open_def)
  then obtain c' where "obfs_read_loop n (o_conn rc) = obfs_read_loop n c'" "conn_open c'"
      "conn_rem c' = drop (?k mod 256) (map junk [0..<?k]) @ rest"
    using obfs_read_dummy [OF assms(7), of ?k junk rest n] assms(8) by auto
  then show ?thesis
    by (intro exI [of _ "rc\<lparr>o_conn := c'\<rparr>"]) (simp add: obfs_Read_def drop_map split: prod.splits)
qed

theorem obfs_dummy_overflow_witness:
  "\<exists>rc'. obfs_Read (demo_receiver (outq (o_conn (heartbeat 0 (\<lambda>i. 5) (demo_sender 257))) @ [1])) 64 = obfs_Read rc' 64
    \<and> conn_rem (o_conn rc') = replicate 256 5 @ [1]"
proof -
  have "map (\<lambda>i. 5 :: byte) [1..<257] = replicate 256 5" by (simp add: map_replicate_const)
  then show ?thesis
    using obfs_dummy_overflow [of "demo_sender 257"
        "demo_receiver (outq (o_conn (heartbeat 0 (\<lambda>i. 5) (demo_sender 257))) @ [1])" 0 "\<lambda>i. 5" "[1]" 64]
    by (auto simp: demo_open demo_receiver_def)
qed

text \<open>
  A tunnel header cannot be decoded through the obfuscating connection. The decoder asks for
  4 bytes first; a read into a buffer smaller than the frame's payload fails with a short-buffer
  error. So when the header arrives as the frame its one write produced, decoding always fails.
\<close>

theorem obfs_breaks_decode:
  assumes "uuid_wf uparse unew" "EncodeHeader uparse unew r0 junk meta = Inr hdr" "length hdr \<le> 65535"
    and "conn_open (o_conn rc)" "conn_rem (o_conn rc) = frame_bytes hdr k pad @ rest"
  shows "d_err (fst (DecodeNextHop obfs_Read ustr rc)) = Some ErrShortBuffer"
proof -
  obtain hs where "hdr = put_header (enc_header uparse unew r0 meta (length (m_HopChain meta))) @ hs"
    using assms(2) by (auto simp: EncodeHeader_Inr)
  then have len: "4 < length hdr" using enc_id_length [OF assms(1)] by (simp add: put_header_def enc_header_def)
  then have ne: "hdr \<noteq> []" by auto
  obtain c1 where c1: "ReadFull conn_read 3 (o_conn rc) = ((be_put16 (of_nat (length hdr)) @ [of_nat k], None), c1)"
    using frame_header [OF assms(4,5)] by blast
  have u: "unat (of_nat (length hdr) :: u16) = length hdr" using assms(3) by (simp add: unat_of_nat_u16)
  have "obfs_read_loop 4 (o_conn rc) = (([], Some ErrShortBuffer), c1)"
    by (subst obfs_read_loop.simps) (use c1 len ne u in \<open>simp add: Let_def\<close>)
  then have "ReadFull obfs_Read 4 rc = (([], Some ErrShortBuffer), rc\<lparr>o_conn := c1\<rparr>)"
    by (simp add: ReadFull_def obfs_Read_def eval_nat_numeral)
  then show ?thesis by (simp add: DecodeNextHop_def read_field_def)
qed

theorem obfs_breaks_decode_witness:
  "d_err (fst (DecodeNextHop obfs_Read string_of_bytes (demo_receiver (frame_bytes
     (be_put32 Magic @ [1, 0, 0, 0] @ replicate 16 0) 2 (\<lambda>i. 0))))) = Some ErrShortBuffer"
proof -
  let ?hdr = "be_put32 Magic @ [1, 0, 0, 0] @ replicate 16 0"
  have "uuid_wf (\<lambda>s. None) (replicate 16 0)" by (simp add: uuid_wf_def)
  moreover have "EncodeHeader (\<lambda>s. None) (replicate 16 0) 7 (\<lambda>i. 0) meta0 = Inr ?hdr"
    by (simp add: EncodeHeader_def meta0_def enc_flags_def enc_padLen_def enc_id_def put_header_def
        Version_def FlagTCP_def)
  ultimately show ?thesis
    using obfs_breaks_decode [of "\<lambda>s. None" "replicate 16 0" 7 "\<lambda>i. 0" meta0 ?hdr "demo_receiver (frame_bytes ?hdr 2 (\<lambda>i. 0))" 2 "\<lambda>i. 0" "[]"]
    by (simp add: demo_receiver_def)
qed

end
