(* ===== verification/Mux_Flow.thy ===== *)
theory Mux_Flow
  imports NP_Prelude
begin

text \<open>
  Window flow control (\<^verbatim>\<open>internal/mux/flowcontrol.go\<close>). The counters are 64-bit and wrap. The
  locale \<open>flow_control\<close> is the contract the reassembler relies on: while the level stays within
  64 bits, buffering adds to it, consuming subtracts from it, and pausing compares it with the
  window. \<open>WindowFlowController\<close> satisfies it.
\<close>

section \<open>Definitions\<close>

record WindowFlowController =
  fc_maxWindow :: int
  fc_buffered :: int
  fc_consumed :: int

definition NewWindowFlowController :: "int \<Rightarrow> WindowFlowController" where
  "NewWindowFlowController maxWindow =
     \<lparr>fc_maxWindow = (if maxWindow \<le> 0 then 16 * 1024 * 1024 else maxWindow), fc_buffered = 0, fc_consumed = 0\<rparr>"

definition ShouldPause :: "WindowFlowController \<Rightarrow> bool" where
  "ShouldPause w \<longleftrightarrow> fc_maxWindow w \<le> fc_buffered w"

definition OnBuffered :: "nat \<Rightarrow> WindowFlowController \<Rightarrow> WindowFlowController" where
  "OnBuffered n w = w\<lparr>fc_buffered := int64 (fc_buffered w + int n)\<rparr>"

definition OnConsumed :: "nat \<Rightarrow> WindowFlowController \<Rightarrow> WindowFlowController" where
  "OnConsumed n w = w\<lparr>fc_consumed := int64 (fc_consumed w + int n), fc_buffered := int64 (fc_buffered w - int n)\<rparr>"

definition WindowSize :: "WindowFlowController \<Rightarrow> int" where
  "WindowSize w = (let remain = int64 (fc_maxWindow w - fc_buffered w) in if remain < 0 then 0 else remain)"

definition fc_Reset :: "WindowFlowController \<Rightarrow> WindowFlowController" where
  "fc_Reset w = w\<lparr>fc_buffered := 0, fc_consumed := 0\<rparr>"

section \<open>The contract\<close>

datatype flow_event = Buffered nat | Consumed nat

fun event_delta :: "flow_event \<Rightarrow> int" where
  "event_delta (Buffered n) = int n"
| "event_delta (Consumed n) = - int n"

text \<open>All partial sums of a sequence of events stay within 64 bits.\<close>

fun in_range :: "int \<Rightarrow> flow_event list \<Rightarrow> bool" where
  "in_range l [] = in_int64 l"
| "in_range l (e # es) \<longleftrightarrow> in_int64 l \<and> in_range (l + event_delta e) es"

locale flow_control =
  fixes on_buffered :: "nat \<Rightarrow> 'w \<Rightarrow> 'w"
    and on_consumed :: "nat \<Rightarrow> 'w \<Rightarrow> 'w"
    and should_pause :: "'w \<Rightarrow> bool"
    and level :: "'w \<Rightarrow> int"
    and window :: "'w \<Rightarrow> int"
  assumes level_buffered: "in_int64 (level w + int n) \<Longrightarrow> level (on_buffered n w) = level w + int n"
    and level_consumed: "in_int64 (level w - int n) \<Longrightarrow> level (on_consumed n w) = level w - int n"
    and window_buffered: "window (on_buffered n w) = window w"
    and window_consumed: "window (on_consumed n w) = window w"
    and pause_iff: "should_pause w \<longleftrightarrow> window w \<le> level w"
begin

fun play :: "flow_event \<Rightarrow> 'w \<Rightarrow> 'w" where
  "play (Buffered n) w = on_buffered n w"
| "play (Consumed n) w = on_consumed n w"

lemma window_play [simp]: "window (fold play es w) = window w"
proof (induction es arbitrary: w)
  case (Cons e es)
  then show ?case by (cases e) (simp_all add: window_buffered window_consumed)
qed simp

lemma in_range_start: "in_range l es \<Longrightarrow> in_int64 l"
  by (cases es) auto

lemma level_play:
  assumes "in_range (level w) es"
  shows "level (fold play es w) = level w + sum_list (map event_delta es)"
  using assms
proof (induction es arbitrary: w)
  case (Cons e es)
  then have "level (play e w) = level w + event_delta e"
    using in_range_start [of "level w + event_delta e" es]
    by (cases e) (simp_all add: level_buffered level_consumed)
  with Cons show ?case by simp
qed simp

lemma pause_play:
  assumes "in_range (level w) es"
  shows "should_pause (fold play es w) \<longleftrightarrow> window w \<le> level w + sum_list (map event_delta es)"
  using level_play [OF assms] by (simp add: pause_iff)

end

interpretation wfc: flow_control OnBuffered OnConsumed ShouldPause fc_buffered fc_maxWindow
  by unfold_locales (simp_all add: OnBuffered_def OnConsumed_def ShouldPause_def int64_id)

fun flow_play :: "flow_event \<Rightarrow> WindowFlowController \<Rightarrow> WindowFlowController" where
  "flow_play (Buffered n) w = OnBuffered n w"
| "flow_play (Consumed n) w = OnConsumed n w"

lemma flow_play_eq: "wfc.play = flow_play"
proof (intro ext)
  fix e w
  show "wfc.play e w = flow_play e w" by (cases e) simp_all
qed

lemma in_range_sum: "in_range l es \<Longrightarrow> in_int64 (l + sum_list (map event_delta es))"
  by (induction es arbitrary: l) (fastforce simp: add.assoc)+

section \<open>Properties\<close>

text \<open>
  The window controller pauses exactly when the bytes buffered and not yet consumed reach
  the window. For a new controller with a positive window and any sequence of buffer and consume
  calls whose running totals fit in 64 bits, the pause decision is that comparison, and while
  the level is not negative the reported window size is what is left of the window.
\<close>

theorem flow_pauses_at_window:
  assumes "0 < maxWindow" "maxWindow < 2 ^ 63" "in_range 0 es"
  shows "(ShouldPause (fold flow_play es (NewWindowFlowController maxWindow)) \<longleftrightarrow>
      maxWindow \<le> sum_list (map event_delta es)) \<and>
    (0 \<le> sum_list (map event_delta es) \<longrightarrow>
      WindowSize (fold flow_play es (NewWindowFlowController maxWindow)) = max 0 (maxWindow - sum_list (map event_delta es)))"
proof -
  let ?w = "NewWindowFlowController maxWindow" and ?l = "sum_list (map event_delta es)"
  have w: "fc_buffered ?w = 0" "fc_maxWindow ?w = maxWindow" using assms(1) by (simp_all add: NewWindowFlowController_def)
  have "ShouldPause (fold flow_play es ?w) \<longleftrightarrow> maxWindow \<le> ?l" "fc_buffered (fold flow_play es ?w) = ?l"
    "fc_maxWindow (fold flow_play es ?w) = maxWindow"
    using wfc.pause_play [of ?w es] wfc.level_play [of ?w es] wfc.window_play [of es ?w] assms(3) w
    by (simp_all add: flow_play_eq)
  moreover have "in_int64 ?l" using in_range_sum [OF assms(3)] by simp
  ultimately show ?thesis
    using assms(1,2) by (auto simp: WindowSize_def int64_id in_int64_def Let_def)
qed

theorem flow_pauses_at_window_witness:
  "ShouldPause (fold flow_play [Buffered 512, Buffered 600, Consumed 50] (NewWindowFlowController 1024))
   \<and> \<not> ShouldPause (fold flow_play [Buffered 512, Buffered 600, Consumed 256] (NewWindowFlowController 1024))
   \<and> WindowSize (fold flow_play [Buffered 512, Buffered 600, Consumed 256] (NewWindowFlowController 1024)) = 168"
  using flow_pauses_at_window [of 1024 "[Buffered 512, Buffered 600, Consumed 50]"]
    flow_pauses_at_window [of 1024 "[Buffered 512, Buffered 600, Consumed 256]"]
  by (simp add: in_int64_def del: fold_simps)

end
