(* ===== verification/Mux.thy ===== *)
theory Mux
  imports Go_IO Mux_Flow NPChain_Codec "HOL-Library.AList"
begin

text \<open>
  Bandwidth aggregation (\<^verbatim>\<open>internal/mux/aggregator.go\<close>, \<^verbatim>\<open>internal/mux/reassembler.go\<close>). The
  aggregator cuts a write into numbered chunks and spreads the frames over its connections; the
  reassembler puts chunks back in order.

  \<open>Push\<close> holds a mutex and may block while sending to a channel of 1024 chunks, and \<open>Read\<close> runs
  concurrently. So \<open>Push\<close> is split where other goroutines can run: \<open>push_begin\<close> (parsing, and the
  critical section up to the loop) and \<open>push_iter\<close> (one round of the loop). The step relation
  \<open>mux_step\<close> interleaves pushes, rounds of the push in progress, and reads in every possible order;
  the chunk map is an association list with distinct keys.
\<close>

section \<open>Aggregator\<close>

record Aggregator =
  ag_conns :: "conn list"
  ag_nextConn :: "32 word"
  ag_sessionID :: bytes
  ag_chunkSize :: int

definition NewAggregator :: "conn list \<Rightarrow> bytes \<Rightarrow> int \<Rightarrow> Aggregator" where
  "NewAggregator conns sessionID chunkSize =
     \<lparr>ag_conns = conns, ag_nextConn = 0, ag_sessionID = sessionID,
      ag_chunkSize = (if chunkSize \<le> 0 then 64 * 1024 else chunkSize)\<rparr>"

text \<open>The 24-byte header and the chunk, as \<^verbatim>\<open>Write\<close> puts them into its buffer.\<close>

definition agg_frame :: "bytes \<Rightarrow> u32 \<Rightarrow> bool \<Rightarrow> bytes \<Rightarrow> bytes" where
  "agg_frame sessionID seq fin chunk =
     sessionID @ be_put32 seq @ be_put16 (of_nat (length chunk)) @ [if fin then 1 else 0, 0] @ chunk"

text \<open>
  \<^verbatim>\<open>int(a.nextConn.Add(1)-1) % len(a.conns)\<close>: the counter is a signed 32-bit integer and Go's
  remainder has the sign of the dividend. A negative index and an empty slice panic.
\<close>

definition conn_index :: "32 word \<Rightarrow> nat \<Rightarrow> nat res" where
  "conn_index k n =
     (if n = 0 then Inl (GoPanic ''integer divide by zero'')
      else if 0 \<le> sint k then Inr (nat (sint k mod int n))
      else if (- sint k) mod int n = 0 then Inr 0 else Inl (GoPanic ''index out of range''))"

text \<open>
  The loop of \<^verbatim>\<open>Write\<close>. With a chunk size below 1 it would not make progress (the constructor
  excludes that): the fuel is the number of bytes left, and \<open>None\<close> means it ran out.
\<close>

fun agg_loop :: "nat \<Rightarrow> u32 \<Rightarrow> bytes \<Rightarrow> Aggregator \<Rightarrow> error option option \<times> Aggregator" where
  "agg_loop k seq [] a = (Some None, a)"
| "agg_loop 0 seq (x # xs) a = (None, a)"
| "agg_loop (Suc k) seq (x # xs) a =
     (let size = min (length (x # xs)) (nat (ag_chunkSize a));
          chunk = take size (x # xs); rest = drop size (x # xs);
          frame = agg_frame (ag_sessionID a) seq (rest = []) chunk;
          a1 = a\<lparr>ag_nextConn := ag_nextConn a + 1\<rparr> in
      case conn_index (ag_nextConn a) (length (ag_conns a)) of
        Inl e \<Rightarrow> (Some (Some e), a1)
      | Inr idx \<Rightarrow> (case conn_write (ag_conns a ! idx) frame of
            (Some e, c) \<Rightarrow> (Some (Some (Wrap (''failed to write chunk to connection '' @ nat_to_dec idx) e)),
                a1\<lparr>ag_conns := (ag_conns a)[idx := c]\<rparr>)
          | (None, c) \<Rightarrow> agg_loop k (seq + 1) rest (a1\<lparr>ag_conns := (ag_conns a)[idx := c]\<rparr>)))"

definition agg_Write :: "bytes \<Rightarrow> Aggregator \<Rightarrow> (nat \<times> error option) option \<times> Aggregator" where
  "agg_Write dat a = (case agg_loop (length dat) 0 dat a of
     (None, a') \<Rightarrow> (None, a')
   | (Some None, a') \<Rightarrow> (Some (length dat, None), a')
   | (Some (Some e), a') \<Rightarrow> (Some (0, Some e), a'))"

section \<open>Reassembler\<close>

definition output_cap :: nat where "output_cap = 1024"

record Reassembler =
  ra_chunks :: "(u32 \<times> bytes) list"
  ra_nextSeq :: u32
  ra_isClosed :: bool
  ra_output :: "bytes list"
  ra_flowCtrl :: WindowFlowController
  ra_pending :: bytes

definition NewReassembler :: "WindowFlowController \<Rightarrow> Reassembler" where
  "NewReassembler fc = \<lparr>ra_chunks = [], ra_nextSeq = 0, ra_isClosed = False, ra_output = [],
     ra_flowCtrl = fc, ra_pending = []\<rparr>"

record pushed_chunk =
  pc_seq :: u32
  pc_chunk :: bytes
  pc_flags :: byte

text \<open>The checks and the parsing before the lock is taken.\<close>

definition parse_chunk :: "bytes \<Rightarrow> pushed_chunk res" where
  "parse_chunk dat =
     (if length dat < 24 then Inl (New ''chunk data too short'')
      else let chunkSize = unat (be_get16 (take 2 (drop 20 dat))) in
        if length dat < 24 + chunkSize then Inl (New ''size mismatch'')
        else Inr \<lparr>pc_seq = be_get32 (take 4 (drop 16 dat)), pc_chunk = take chunkSize (drop 24 dat),
                  pc_flags = dat ! 22\<rparr>)"

text \<open>
  Up to the loop. \<open>Inl r\<close>: \<^verbatim>\<open>Push\<close> has returned \<open>r\<close>; \<open>Inr (flags, s)\<close>: the lock is held, the
  chunk is stored and the loop begins.
\<close>

definition push_begin :: "bytes \<Rightarrow> Reassembler \<Rightarrow> error option + byte \<times> Reassembler" where
  "push_begin dat r = (case parse_chunk dat of
     Inl e \<Rightarrow> Inl (Some e)
   | Inr p \<Rightarrow>
       if pc_seq p < ra_nextSeq r then Inl None
       else Inr (pc_flags p, r\<lparr>ra_chunks := AList.update (pc_seq p) (pc_chunk p) (ra_chunks r),
                              ra_flowCtrl := OnBuffered (length (pc_chunk p)) (ra_flowCtrl r)\<rparr>))"

datatype iter_out = Exit | Again | Blocks | Panics

text \<open>One round of the loop; \<open>Blocks\<close>: the channel is full, nothing has changed.\<close>

definition push_iter :: "byte \<Rightarrow> Reassembler \<Rightarrow> iter_out \<times> Reassembler" where
  "push_iter flags r = (case map_of (ra_chunks r) (ra_nextSeq r) of
     None \<Rightarrow> (Exit, r)
   | Some nextChunk \<Rightarrow>
       if ShouldPause (ra_flowCtrl r) then (Exit, r)
       else if ra_isClosed r then (Panics, r)
       else if output_cap \<le> length (ra_output r) then (Blocks, r)
       else let r1 = r\<lparr>ra_output := ra_output r @ [nextChunk],
                       ra_chunks := AList.delete (ra_nextSeq r) (ra_chunks r),
                       ra_nextSeq := ra_nextSeq r + 1\<rparr> in
         if flags AND 1 \<noteq> 0 \<and> ra_chunks r1 = [] then (Exit, r1\<lparr>ra_isClosed := True\<rparr>)
         else (Again, r1))"

text \<open>\<^verbatim>\<open>Read\<close> into a buffer of \<open>n\<close> bytes; \<open>None\<close>: it blocks on the empty channel.\<close>

definition reasm_Read :: "nat \<Rightarrow> Reassembler \<Rightarrow> ((bytes \<times> error option) \<times> Reassembler) option" where
  "reasm_Read n r =
     (if ra_pending r \<noteq> [] then
        (let bs = take n (ra_pending r) in
         Some ((bs, None), r\<lparr>ra_pending := drop n (ra_pending r), ra_flowCtrl := OnConsumed (length bs) (ra_flowCtrl r)\<rparr>))
      else (case ra_output r of
          [] \<Rightarrow> if ra_isClosed r then Some (([], Some EOF), r) else None
        | chunk # cs \<Rightarrow>
            (let bs = take n chunk in
             Some ((bs, None), r\<lparr>ra_output := cs,
               ra_pending := (if length bs < length chunk then drop n chunk else ra_pending r),
               ra_flowCtrl := OnConsumed (length bs) (ra_flowCtrl r)\<rparr>))))"

text \<open>A whole \<^verbatim>\<open>Push\<close> while nobody else runs.\<close>

datatype push_out = Returned "error option" | Stuck | Crashed

lemma length_delete_less: "map_of al k = Some v \<Longrightarrow> length (AList.delete k al) < length al"
proof (induction al)
  case (Cons p al)
  show ?case
  proof (cases "fst p = k")
    case True
    then show ?thesis by (cases p) (simp add: AList.delete_eq less_Suc_eq_le)
  next
    case False
    with Cons show ?thesis by (cases p) (simp add: AList.delete_eq)
  qed
qed simp

lemma push_iter_Again: "push_iter flags r = (Again, r') \<Longrightarrow> length (ra_chunks r') < length (ra_chunks r)"
  by (auto simp: push_iter_def Let_def length_delete_less split: option.splits if_splits)

function push_loop :: "byte \<Rightarrow> Reassembler \<Rightarrow> push_out \<times> Reassembler" where
  "push_loop flags r = (case push_iter flags r of
     (Exit, r') \<Rightarrow> (Returned None, r') | (Again, r') \<Rightarrow> push_loop flags r'
   | (Blocks, r') \<Rightarrow> (Stuck, r') | (Panics, r') \<Rightarrow> (Crashed, r'))"
  by pat_completeness auto
termination
  by (relation "measure (\<lambda>(flags, r). length (ra_chunks r))") (auto dest!: push_iter_Again [OF sym])

declare push_loop.simps [simp del]

definition reasm_Push :: "bytes \<Rightarrow> Reassembler \<Rightarrow> push_out \<times> Reassembler" where
  "reasm_Push dat r = (case push_begin dat r of Inl e \<Rightarrow> (Returned e, r) | Inr (flags, r') \<Rightarrow> push_loop flags r')"

section \<open>All interleavings of pushes and reads\<close>

text \<open>
  \<open>ms_busy\<close> is the push that holds the lock (its flags), \<open>ms_got\<close> what reads have returned,
  \<open>ms_pushed\<close> the indices of the frames pushed, \<open>ms_crashed\<close> a send on the closed channel.
\<close>

record mux_state =
  ms_r :: Reassembler
  ms_busy :: "byte option"
  ms_got :: bytes
  ms_pushed :: "nat list"
  ms_crashed :: bool

definition mux_init :: "WindowFlowController \<Rightarrow> mux_state" where
  "mux_init fc = \<lparr>ms_r = NewReassembler fc, ms_busy = None, ms_got = [], ms_pushed = [], ms_crashed = False\<rparr>"

inductive mux_step :: "bytes list \<Rightarrow> mux_state \<Rightarrow> mux_state \<Rightarrow> bool" for frames where
  push_ignored: "i < length frames \<Longrightarrow> ms_busy s = None \<Longrightarrow> push_begin (frames ! i) (ms_r s) = Inl e \<Longrightarrow>
     mux_step frames s (s\<lparr>ms_pushed := ms_pushed s @ [i]\<rparr>)"
| push_stored: "i < length frames \<Longrightarrow> ms_busy s = None \<Longrightarrow> push_begin (frames ! i) (ms_r s) = Inr (flags, r) \<Longrightarrow>
     mux_step frames s (s\<lparr>ms_r := r, ms_busy := Some flags, ms_pushed := ms_pushed s @ [i]\<rparr>)"
| round_exit: "ms_busy s = Some flags \<Longrightarrow> push_iter flags (ms_r s) = (Exit, r) \<Longrightarrow>
     mux_step frames s (s\<lparr>ms_r := r, ms_busy := None\<rparr>)"
| round_again: "ms_busy s = Some flags \<Longrightarrow> push_iter flags (ms_r s) = (Again, r) \<Longrightarrow>
     mux_step frames s (s\<lparr>ms_r := r\<rparr>)"
| round_panics: "ms_busy s = Some flags \<Longrightarrow> push_iter flags (ms_r s) = (Panics, r) \<Longrightarrow>
     mux_step frames s (s\<lparr>ms_crashed := True\<rparr>)"
| read: "reasm_Read n (ms_r s) = Some ((bs, e), r) \<Longrightarrow>
     mux_step frames s (s\<lparr>ms_r := r, ms_got := ms_got s @ bs\<rparr>)"

inductive_cases mux_stepE: "mux_step frames s s'"

abbreviation mux_reach :: "bytes list \<Rightarrow> mux_state \<Rightarrow> mux_state \<Rightarrow> bool" where
  "mux_reach frames \<equiv> (mux_step frames)\<^sup>*\<^sup>*"

text \<open>The chunks of a write and the frames they travel in.\<close>

fun chunks_of :: "nat \<Rightarrow> nat \<Rightarrow> bytes \<Rightarrow> bytes list" where
  "chunks_of k c [] = []"
| "chunks_of 0 c (x # xs) = []"
| "chunks_of (Suc k) c (x # xs) = take c (x # xs) # chunks_of k c (drop c (x # xs))"

definition chunks :: "nat \<Rightarrow> bytes \<Rightarrow> bytes list" where
  "chunks c dat = chunks_of (length dat) c dat"

definition frames_of :: "bytes \<Rightarrow> bytes list \<Rightarrow> bytes list" where
  "frames_of sid cs = map (\<lambda>i. agg_frame sid (of_nat i) (Suc i = length cs) (cs ! i)) [0..<length cs]"

section \<open>Frames parse back\<close>

lemma parse_agg_frame [codec]:
  assumes "length sid = 16" "length chunk \<le> 65535"
  shows "parse_chunk (agg_frame sid seq fin chunk) =
    Inr \<lparr>pc_seq = seq, pc_chunk = chunk, pc_flags = (if fin then 1 else 0)\<rparr>"
  using assms by (simp add: parse_chunk_def agg_frame_def unat_of_nat_u16 nth_append Let_def)

lemma length_frames_of [simp]: "length (frames_of sid cs) = length cs"
  by (simp add: frames_of_def)

lemma frames_of_nth: "i < length cs \<Longrightarrow> frames_of sid cs ! i = agg_frame sid (of_nat i) (Suc i = length cs) (cs ! i)"
  by (simp add: frames_of_def)

text \<open>A message the reassembler can take: a 16-byte session id, chunks of at most 65535 bytes, fewer than $2^{32}$.\<close>

definition msg_ok :: "bytes \<Rightarrow> bytes list \<Rightarrow> bool" where
  "msg_ok sid cs \<longleftrightarrow> length sid = 16 \<and> (\<forall>c \<in> set cs. length c \<le> 65535) \<and> length cs < 2 ^ 32"

lemma push_begin_frame:
  assumes "msg_ok sid cs" "i < length cs"
  shows "push_begin (frames_of sid cs ! i) r =
    (if i < unat (ra_nextSeq r) then Inl None
     else Inr (if Suc i = length cs then 1 else 0,
       r\<lparr>ra_chunks := AList.update (of_nat i) (cs ! i) (ra_chunks r),
         ra_flowCtrl := OnBuffered (length (cs ! i)) (ra_flowCtrl r)\<rparr>))"
proof -
  have "length (cs ! i) \<le> 65535" "i < 4294967296" using assms by (simp_all add: msg_ok_def)
  then show ?thesis
    using assms by (simp add: frames_of_nth push_begin_def parse_agg_frame msg_ok_def word_less_nat_alt unat_of_nat_u32)
qed

section \<open>Safety\<close>

text \<open>
  What has been read, what is pending and what is in the channel are together the chunks before
  \<^verbatim>\<open>nextSeq\<close>; stored chunks lie at or after it; a push that carries the FIN flag has its last
  chunk stored; the channel is closed only when all chunks have been sent.
\<close>

definition stored_ok :: "bytes list \<Rightarrow> nat \<Rightarrow> (u32 \<rightharpoonup> bytes) \<Rightarrow> bool" where
  "stored_ok cs k m \<longleftrightarrow> (\<forall>q b. m q = Some b \<longrightarrow> k \<le> unat q \<and> unat q < length cs \<and> b = cs ! unat q)"

definition fin_stored :: "bytes list \<Rightarrow> (u32 \<rightharpoonup> bytes) \<Rightarrow> bool" where
  "fin_stored cs m \<longleftrightarrow> (\<exists>q. Suc (unat q) = length cs \<and> m q \<noteq> None)"

definition mux_inv :: "bytes list \<Rightarrow> mux_state \<Rightarrow> bool" where
  "mux_inv cs s \<longleftrightarrow> (let r = ms_r s; k = unat (ra_nextSeq r) in
     k \<le> length cs
     \<and> stored_ok cs k (map_of (ra_chunks r))
     \<and> ms_got s @ ra_pending r @ concat (ra_output r) = concat (take k cs)
     \<and> (ra_isClosed r \<longrightarrow> k = length cs) \<and> \<not> ms_crashed s
     \<and> (\<forall>fl. ms_busy s = Some fl \<longrightarrow> fl AND 1 \<noteq> 0 \<longrightarrow>
          k = length cs \<or> fin_stored cs (map_of (ra_chunks r))))"

lemma stored_ok_empty [simp]: "stored_ok cs k Map.empty"
  by (simp add: stored_ok_def)

lemma stored_ok_update: "stored_ok cs k m \<Longrightarrow> i < length cs \<Longrightarrow> i < 4294967296 \<Longrightarrow> k \<le> i \<Longrightarrow>
    stored_ok cs k (m(of_nat i \<mapsto> cs ! i))"
  by (auto simp: stored_ok_def unat_of_nat_u32)

lemma stored_ok_next: "stored_ok cs (unat q) m \<Longrightarrow> m q = Some b \<Longrightarrow> unat q < length cs \<and> b = cs ! unat q"
  by (simp add: stored_ok_def)

lemma stored_ok_delete: "stored_ok cs (unat q) m \<Longrightarrow> stored_ok cs (Suc (unat q)) (m(q := None))"
  unfolding stored_ok_def
proof (intro allI impI)
  fix q' b
  assume s: "\<forall>q' b. m q' = Some b \<longrightarrow> unat q \<le> unat q' \<and> unat q' < length cs \<and> b = cs ! unat q'"
    and b: "(m(q := None)) q' = Some b"
  then have "q' \<noteq> q" "m q' = Some b" by (auto split: if_splits)
  then have "unat q' \<noteq> unat q" "unat q \<le> unat q' \<and> unat q' < length cs \<and> b = cs ! unat q'"
    using s by (simp add: word_unat_eq_iff, blast)
  then show "Suc (unat q) \<le> unat q' \<and> unat q' < length cs \<and> b = cs ! unat q'" by auto
qed

lemma fin_stored_delete: "fin_stored cs m \<Longrightarrow> Suc (unat q) = length cs \<or> fin_stored cs (m(q := None))"
  by (auto simp: fin_stored_def)

lemma fin_stored_update: "fin_stored cs m \<Longrightarrow> fin_stored cs (m(q \<mapsto> b))"
  by (auto simp: fin_stored_def)

lemma fin_stored_last: "Suc i = length cs \<Longrightarrow> i < 4294967296 \<Longrightarrow> fin_stored cs (m(of_nat i \<mapsto> b))"
  by (auto simp: fin_stored_def unat_of_nat_u32 intro!: exI [of _ "of_nat i"])

lemma mux_inv_init: "mux_inv cs (mux_init fc)"
  by (simp add: mux_inv_def mux_init_def NewReassembler_def Let_def)

lemma map_of_empty_iff: "al = [] \<longleftrightarrow> (\<forall>k. map_of al k = None)"
  by (cases al) auto

text \<open>One round that sends a chunk.\<close>

lemma push_iter_sent:
  assumes "push_iter flags r = (out, r')" "out = Again \<or> (out = Exit \<and> r' \<noteq> r)"
  shows "\<exists>b. map_of (ra_chunks r) (ra_nextSeq r) = Some b \<and> \<not> ra_isClosed r \<and> \<not> ShouldPause (ra_flowCtrl r)
    \<and> ra_output r' = ra_output r @ [b] \<and> ra_chunks r' = AList.delete (ra_nextSeq r) (ra_chunks r)
    \<and> ra_nextSeq r' = ra_nextSeq r + 1 \<and> ra_pending r' = ra_pending r \<and> ra_flowCtrl r' = ra_flowCtrl r
    \<and> (ra_isClosed r' \<longleftrightarrow> flags AND 1 \<noteq> 0 \<and> ra_chunks r' = []) \<and> (ra_isClosed r' \<longleftrightarrow> out = Exit)"
  using assms by (auto simp: push_iter_def Let_def split: option.splits if_splits)

lemma unat_succ_u32: "unat (w :: u32) < n \<Longrightarrow> n < 2 ^ 32 \<Longrightarrow> unat (w + 1) = Suc (unat w)"
  by (simp add: unat_word_ariths)

lemma mux_inv_sent:
  assumes "mux_inv cs s" "length cs < 2 ^ 32" "ms_busy s = Some flags"
    and "push_iter flags (ms_r s) = (out, r')" "out = Again \<or> (out = Exit \<and> r' \<noteq> ms_r s)"
  shows "mux_inv cs (s\<lparr>ms_r := r', ms_busy := (if out = Again then Some flags else None)\<rparr>)"
proof -
  let ?r = "ms_r s" and ?k = "unat (ra_nextSeq (ms_r s))"
  obtain b where b: "map_of (ra_chunks ?r) (ra_nextSeq ?r) = Some b" "ra_output r' = ra_output ?r @ [b]"
      "ra_chunks r' = AList.delete (ra_nextSeq ?r) (ra_chunks ?r)" "ra_nextSeq r' = ra_nextSeq ?r + 1"
      "ra_pending r' = ra_pending ?r" "ra_isClosed r' \<longleftrightarrow> flags AND 1 \<noteq> 0 \<and> ra_chunks r' = []"
    using push_iter_sent [OF assms(4,5)] by blast
  have inv: "stored_ok cs ?k (map_of (ra_chunks ?r))" "\<not> ms_crashed s"
      "ms_got s @ ra_pending ?r @ concat (ra_output ?r) = concat (take ?k cs)"
      "flags AND 1 \<noteq> 0 \<Longrightarrow> ?k = length cs \<or> fin_stored cs (map_of (ra_chunks ?r))"
    using assms(1,3) by (auto simp: mux_inv_def Let_def)
  have k: "?k < length cs" "b = cs ! ?k" using stored_ok_next [OF inv(1) b(1)] by auto
  have k': "unat (ra_nextSeq r') = Suc ?k" using unat_succ_u32 [OF k(1) assms(2)] b(4) by simp
  have m: "map_of (ra_chunks r') = (map_of (ra_chunks ?r))(ra_nextSeq ?r := None)"
    by (simp add: b(3) AList.delete_conv')
  have last: "flags AND 1 \<noteq> 0 \<Longrightarrow> Suc ?k = length cs \<or> fin_stored cs (map_of (ra_chunks r'))"
    using inv(4) k(1) fin_stored_delete [of cs "map_of (ra_chunks ?r)" "ra_nextSeq ?r"] by (auto simp: m)
  then have closed: "ra_isClosed r' \<Longrightarrow> Suc ?k = length cs" using b(6) by (auto simp: fin_stored_def)
  have "concat (take (Suc ?k) cs) = concat (take ?k cs) @ b" using k by (simp add: take_Suc_conv_app_nth)
  then have stream: "ms_got s @ ra_pending r' @ concat (ra_output r') = concat (take (Suc ?k) cs)"
    using inv(3) by (simp add: b(2,5))
  have "stored_ok cs (Suc ?k) (map_of (ra_chunks r'))" using stored_ok_delete [OF inv(1)] by (simp add: m)
  with k(1) last closed stream inv(2) show ?thesis by (simp add: mux_inv_def Let_def k')
qed

lemma mux_inv_read:
  assumes "mux_inv cs s" "reasm_Read n (ms_r s) = Some ((bs, e), r)"
  shows "mux_inv cs (s\<lparr>ms_r := r, ms_got := ms_got s @ bs\<rparr>)"
proof (cases "ra_pending (ms_r s) = []")
  case False
  with assms have "ra_pending (ms_r s) = bs @ ra_pending r" "ra_output r = ra_output (ms_r s)"
    by (auto simp: reasm_Read_def Let_def)
  moreover have "ra_nextSeq r = ra_nextSeq (ms_r s)" "ra_chunks r = ra_chunks (ms_r s)" "ra_isClosed r = ra_isClosed (ms_r s)"
    using assms(2) False by (auto simp: reasm_Read_def Let_def)
  ultimately show ?thesis using assms(1) by (simp add: mux_inv_def Let_def)
next
  case True
  with assms(2) have "ra_nextSeq r = ra_nextSeq (ms_r s)" "ra_chunks r = ra_chunks (ms_r s)"
      "ra_isClosed r = ra_isClosed (ms_r s)" "concat (ra_output (ms_r s)) = bs @ ra_pending r @ concat (ra_output r)"
    by (auto simp: reasm_Read_def Let_def split: list.splits if_splits)
  with True assms(1) show ?thesis by (simp add: mux_inv_def Let_def)
qed

lemma mux_inv_push:
  assumes "msg_ok sid cs" "mux_inv cs s" "i < length cs" "ms_busy s = None"
    and "push_begin (frames_of sid cs ! i) (ms_r s) = Inr (flags, r)"
  shows "mux_inv cs (s\<lparr>ms_r := r, ms_busy := Some flags, ms_pushed := ms_pushed s @ [i]\<rparr>)"
proof -
  have "i < 4294967296" "\<not> i < unat (ra_nextSeq (ms_r s))" "flags = (if Suc i = length cs then 1 else 0)"
      "r = (ms_r s)\<lparr>ra_chunks := AList.update (of_nat i) (cs ! i) (ra_chunks (ms_r s)),
         ra_flowCtrl := OnBuffered (length (cs ! i)) (ra_flowCtrl (ms_r s))\<rparr>"
    using assms(1,3,5) by (auto simp: push_begin_frame [OF assms(1,3)] msg_ok_def split: if_splits)
  then show ?thesis
    using assms(2,3) by (auto simp: mux_inv_def Let_def AList.update_conv' intro: stored_ok_update fin_stored_last)
qed

lemma mux_inv_step:
  assumes "msg_ok sid cs" "mux_step (frames_of sid cs) s s'" "mux_inv cs s"
  shows "mux_inv cs s'"
  using assms(2)
proof (cases rule: mux_step.cases)
  case (push_ignored i e)
  then show ?thesis using assms(3) by (simp add: mux_inv_def Let_def)
next
  case (push_stored i flags r)
  then show ?thesis using mux_inv_push [OF assms(1,3)] by simp
next
  case (round_exit flags r)
  show ?thesis
  proof (cases "r = ms_r s")
    case True
    with round_exit assms(3) show ?thesis by (simp add: mux_inv_def Let_def)
  next
    case False
    with round_exit mux_inv_sent [OF assms(3) _ round_exit(2,3)] assms(1) show ?thesis by (simp add: msg_ok_def)
  qed
next
  case (round_again flags r)
  have "mux_inv cs (s\<lparr>ms_r := r, ms_busy := Some flags\<rparr>)"
    using mux_inv_sent [OF assms(3) _ round_again(2,3)] assms(1) by (simp add: msg_ok_def)
  moreover have "s\<lparr>ms_r := r, ms_busy := Some flags\<rparr> = s\<lparr>ms_r := r\<rparr>" using round_again(2) by (cases s) simp
  ultimately show ?thesis using round_again(1) by metis
next
  case (round_panics flags r)
  then obtain b where "map_of (ra_chunks (ms_r s)) (ra_nextSeq (ms_r s)) = Some b" "ra_isClosed (ms_r s)"
    by (auto simp: push_iter_def Let_def split: option.splits if_splits)
  with assms(3) have False using stored_ok_next [of cs "ra_nextSeq (ms_r s)"] by (auto simp: mux_inv_def Let_def)
  then show ?thesis ..
next
  case (read n bs e r)
  then show ?thesis using mux_inv_read [OF assms(3)] by simp
qed

lemma mux_inv_reach:
  assumes "msg_ok sid cs" "mux_reach (frames_of sid cs) (mux_init fc) s"
  shows "mux_inv cs s"
  using assms(2) by (induction rule: rtranclp_induct) (auto intro: mux_inv_init mux_inv_step [OF assms(1)])

section \<open>Completeness\<close>

text \<open>
  When every frame is pushed at most once and the window exceeds the message, the loop never
  pauses: the frames pushed are those sent or stored, and between pushes the next chunk is missing.
\<close>

definition seen_ok :: "bytes list \<Rightarrow> nat \<Rightarrow> (u32 \<rightharpoonup> bytes) \<Rightarrow> nat list \<Rightarrow> bool" where
  "seen_ok cs k m pushed \<longleftrightarrow> set pushed \<subseteq> {..<length cs} \<and>
     (\<forall>i < length cs. i \<in> set pushed \<longleftrightarrow> i < k \<or> m (of_nat i) \<noteq> None)"

definition mux_live :: "bytes list \<Rightarrow> int \<Rightarrow> mux_state \<Rightarrow> bool" where
  "mux_live cs W s \<longleftrightarrow> (let r = ms_r s; k = unat (ra_nextSeq r); m = map_of (ra_chunks r) in
     seen_ok cs k m (ms_pushed s)
     \<and> fc_maxWindow (ra_flowCtrl r) = W
     \<and> fc_buffered (ra_flowCtrl r) = int (\<Sum>i\<leftarrow>ms_pushed s. length (cs ! i)) - int (length (ms_got s))
     \<and> (ms_busy s = None \<longrightarrow> m (ra_nextSeq r) = None)
     \<and> (\<forall>fl. ms_busy s = Some fl \<longrightarrow> ms_pushed s \<noteq> [] \<and> fl = (if Suc (last (ms_pushed s)) = length cs then 1 else 0)
          \<and> (Suc (last (ms_pushed s)) = length cs \<longrightarrow> k < length cs \<and> (m (ra_nextSeq r) \<noteq> None \<longrightarrow> Suc k = length cs)))
     \<and> (ra_isClosed r \<longleftrightarrow> ms_pushed s \<noteq> [] \<and> k = length cs \<and> Suc (last (ms_pushed s)) = length cs))"

lemma pushed_sum_le:
  assumes "distinct pushed" "set pushed \<subseteq> {..<length cs}"
  shows "(\<Sum>i\<leftarrow>pushed. length (cs ! i)) \<le> length (concat cs)"
proof -
  have "(\<Sum>i\<leftarrow>pushed. length (cs ! i)) = (\<Sum>i\<in>set pushed. length (cs ! i))"
    using assms(1) by (simp add: sum_list_distinct_conv_sum_set)
  also have "\<dots> \<le> (\<Sum>i<length cs. length (cs ! i))" using assms(2) by (intro sum_mono2) auto
  also have "\<dots> = length (concat cs)"
    by (simp add: length_concat sum_list_sum_nth atLeast0LessThan)
  finally show ?thesis .
qed

lemma mux_inv_got: "mux_inv cs s \<Longrightarrow> length (ms_got s) \<le> length (concat cs)"
proof -
  assume "mux_inv cs s"
  then obtain k xs where "ms_got s @ xs = concat (take k cs)" by (auto simp: mux_inv_def Let_def)
  then have "length (ms_got s) \<le> length (concat (take k cs))" by (metis length_append le_add1)
  also have "\<dots> \<le> length (concat (take k cs @ drop k cs))" by (simp only: concat_append length_append le_add1)
  finally show ?thesis by simp
qed

lemma mux_live_no_pause:
  assumes "mux_live cs W s" "distinct (ms_pushed s)" "int (length (concat cs)) < W"
  shows "\<not> ShouldPause (ra_flowCtrl (ms_r s))"
proof -
  have "set (ms_pushed s) \<subseteq> {..<length cs}" using assms(1) by (simp add: mux_live_def seen_ok_def Let_def)
  from pushed_sum_le [OF assms(2) this] assms show ?thesis
    by (simp add: ShouldPause_def mux_live_def Let_def)
qed

lemma mux_live_init: "mux_live cs W (mux_init \<lparr>fc_maxWindow = W, fc_buffered = 0, fc_consumed = 0\<rparr>)"
  by (simp add: mux_live_def mux_init_def NewReassembler_def seen_ok_def Let_def)

lemma mux_live_push:
  assumes "msg_ok sid cs" "mux_inv cs s" "mux_live cs W s" "i < length cs" "ms_busy s = None"
    and "distinct (ms_pushed s @ [i])" "int (length (concat cs)) < W" "W < 2 ^ 63"
    and "push_begin (frames_of sid cs ! i) (ms_r s) = Inr (flags, r)"
  shows "mux_live cs W (s\<lparr>ms_r := r, ms_busy := Some flags, ms_pushed := ms_pushed s @ [i]\<rparr>)"
proof -
  let ?k = "unat (ra_nextSeq (ms_r s))" and ?m = "map_of (ra_chunks (ms_r s))" and ?p = "ms_pushed s"
  let ?fc = "ra_flowCtrl (ms_r s)"
  have r: "i < 4294967296" "?k \<le> i" "flags = (if Suc i = length cs then 1 else 0)"
      "r = (ms_r s)\<lparr>ra_chunks := AList.update (of_nat i) (cs ! i) (ra_chunks (ms_r s)),
         ra_flowCtrl := OnBuffered (length (cs ! i)) ?fc\<rparr>"
    using assms(1,4,9) by (auto simp: push_begin_frame [OF assms(1,4)] msg_ok_def split: if_splits)
  have inv: "seen_ok cs ?k ?m ?p" "fc_maxWindow ?fc = W" "?m (ra_nextSeq (ms_r s)) = None"
      "fc_buffered ?fc = int (\<Sum>i\<leftarrow>?p. length (cs ! i)) - int (length (ms_got s))"
      "\<not> ra_isClosed (ms_r s)"
    using assms(3,4,5) r(2) by (auto simp: mux_live_def Let_def)
  have seen: "seen_ok cs ?k (?m(of_nat i \<mapsto> cs ! i)) (?p @ [i])"
  proof -
    have "j = i \<longleftrightarrow> (of_nat j :: u32) = of_nat i" if "j < length cs" for j
      using that assms(1) r(1) unat_of_nat_u32 [of i] unat_of_nat_u32 [of j] by (auto simp: msg_ok_def)
    with inv(1) assms(4) show ?thesis by (auto simp: seen_ok_def)
  qed
  have "set (?p @ [i]) \<subseteq> {..<length cs}" using seen by (simp add: seen_ok_def)
  from pushed_sum_le [OF assms(6) this] mux_inv_got [OF assms(2)] assms(7,8) inv(4)
  have "in_int64 (fc_buffered ?fc + int (length (cs ! i)))" by (simp add: in_int64_def)
  then have buf: "fc_buffered (OnBuffered (length (cs ! i)) ?fc) =
      int (\<Sum>i\<leftarrow>?p @ [i]. length (cs ! i)) - int (length (ms_got s))"
    using inv(4) by (simp add: wfc.level_buffered)
  have "Suc ?k = length cs" if "Suc i = length cs" "(?m(of_nat i \<mapsto> cs ! i)) (ra_nextSeq (ms_r s)) \<noteq> None"
    using that inv(3) r(1) by (auto simp: unat_of_nat_u32 split: if_splits)
  with seen buf r(2) inv(2,5) assms(4) show ?thesis
    by (auto simp: mux_live_def Let_def r(3,4) AList.update_conv' wfc.window_buffered)
qed

lemma stored_ok_none: "stored_ok cs (length cs) m \<Longrightarrow> m q = None"
  unfolding stored_ok_def by (metis not_le option.exhaust)

lemma seen_ok_next:
  assumes "seen_ok cs (unat q) m pushed" "m q = Some b" "length cs < 2 ^ 32"
  shows "seen_ok cs (Suc (unat q)) (m(q := None)) pushed"
proof -
  have "i \<in> set pushed \<longleftrightarrow> i < Suc (unat q) \<or> (m(q := None)) (of_nat i) \<noteq> None" if "i < length cs" for i
  proof (cases "i = unat q")
    case True
    with assms(1,2) that show ?thesis by (auto simp: seen_ok_def)
  next
    case False
    then have "of_nat i \<noteq> q" using that assms(3) by (auto simp: unat_of_nat_u32)
    with False assms(1) that show ?thesis by (auto simp: seen_ok_def)
  qed
  with assms(1) show ?thesis by (simp add: seen_ok_def)
qed

lemma mux_live_sent:
  assumes "mux_inv cs s" "mux_live cs W s" "length cs < 2 ^ 32" "ms_busy s = Some flags"
    and "push_iter flags (ms_r s) = (out, r')" "out = Again \<or> (out = Exit \<and> r' \<noteq> ms_r s)"
  shows "mux_live cs W (s\<lparr>ms_r := r', ms_busy := (if out = Again then Some flags else None)\<rparr>)"
proof -
  let ?r = "ms_r s" and ?k = "unat (ra_nextSeq (ms_r s))"
  obtain b where b: "map_of (ra_chunks ?r) (ra_nextSeq ?r) = Some b" "ra_nextSeq r' = ra_nextSeq ?r + 1"
      "ra_chunks r' = AList.delete (ra_nextSeq ?r) (ra_chunks ?r)" "ra_flowCtrl r' = ra_flowCtrl ?r"
      "ra_isClosed r' \<longleftrightarrow> flags AND 1 \<noteq> 0 \<and> ra_chunks r' = []" "ra_isClosed r' \<longleftrightarrow> out = Exit"
    using push_iter_sent [OF assms(5,6)] by blast
  have st: "stored_ok cs ?k (map_of (ra_chunks ?r))" using assms(1) by (simp add: mux_inv_def Let_def)
  have k: "?k < length cs" using stored_ok_next [OF st b(1)] by auto
  have k': "unat (ra_nextSeq r') = Suc ?k" using unat_succ_u32 [OF k assms(3)] b(2) by simp
  have m: "map_of (ra_chunks r') = (map_of (ra_chunks ?r))(ra_nextSeq ?r := None)"
    by (simp add: b(3) AList.delete_conv')
  have fl: "ms_pushed s \<noteq> []" "flags = (if Suc (last (ms_pushed s)) = length cs then 1 else 0)"
      "Suc (last (ms_pushed s)) = length cs \<Longrightarrow> Suc ?k = length cs"
    using assms(2,4) b(1) by (auto simp: mux_live_def Let_def)
  have empty: "ra_chunks r' = []" if "Suc ?k = length cs"
    using stored_ok_delete [OF st] that unfolding m [symmetric] map_of_empty_iff by (metis stored_ok_none)
  have closed: "ra_isClosed r' \<longleftrightarrow> Suc (last (ms_pushed s)) = length cs" "out = Exit \<longleftrightarrow> Suc (last (ms_pushed s)) = length cs"
    using b(5,6) fl empty by auto
  have "seen_ok cs (Suc ?k) (map_of (ra_chunks r')) (ms_pushed s)"
    using seen_ok_next [where m = "map_of (ra_chunks ?r)", OF _ b(1) assms(3)] assms(2)
    by (simp add: m mux_live_def Let_def)
  with assms(2) closed fl empty assms(6) show ?thesis
    unfolding mux_live_def Let_def by (auto simp: k' b(4))
qed

lemma mux_live_read:
  assumes "mux_inv cs s" "mux_live cs W s" "distinct (ms_pushed s)" "int (length (concat cs)) < W" "W < 2 ^ 63"
    and "reasm_Read n (ms_r s) = Some ((bs, e), r)"
  shows "mux_live cs W (s\<lparr>ms_r := r, ms_got := ms_got s @ bs\<rparr>)"
proof -
  let ?s' = "s\<lparr>ms_r := r, ms_got := ms_got s @ bs\<rparr>" and ?fc = "ra_flowCtrl (ms_r s)"
  have r: "ra_nextSeq r = ra_nextSeq (ms_r s)" "ra_chunks r = ra_chunks (ms_r s)" "ra_isClosed r = ra_isClosed (ms_r s)"
      "(bs = [] \<and> ra_flowCtrl r = ?fc) \<or> ra_flowCtrl r = OnConsumed (length bs) ?fc"
    using assms(6) by (auto simp: reasm_Read_def Let_def split: list.splits if_splits)
  have "length (ms_got s @ bs) \<le> length (concat cs)"
    using mux_inv_got [OF mux_inv_read [OF assms(1,6)]] by simp
  moreover have "fc_buffered ?fc = int (\<Sum>i\<leftarrow>ms_pushed s. length (cs ! i)) - int (length (ms_got s))"
      "set (ms_pushed s) \<subseteq> {..<length cs}"
    using assms(2) by (simp_all add: mux_live_def seen_ok_def Let_def)
  ultimately have "in_int64 (fc_buffered ?fc - int (length bs))"
    using pushed_sum_le [OF assms(3), of cs] assms(4,5) by (simp add: in_int64_def)
  then have "fc_buffered (ra_flowCtrl r) = fc_buffered ?fc - int (length bs)" "fc_maxWindow (ra_flowCtrl r) = fc_maxWindow ?fc"
    using r(4) by (auto simp: wfc.level_consumed wfc.window_consumed)
  with assms(2) show ?thesis unfolding mux_live_def Let_def
    by (elim conjE, intro conjI) (simp_all add: r(1-3))
qed

lemma mux_live_step:
  assumes "msg_ok sid cs" "mux_step (frames_of sid cs) s s'" "mux_inv cs s" "mux_live cs W s"
    and "distinct (ms_pushed s')" "int (length (concat cs)) < W" "W < 2 ^ 63"
  shows "mux_live cs W s'"
  using assms(2)
proof (cases rule: mux_step.cases)
  case (push_ignored i e)
  then have "i < unat (ra_nextSeq (ms_r s))" "i < length cs"
    using push_begin_frame [OF assms(1), of i] by (auto split: if_splits)
  then have "i \<in> set (ms_pushed s)" using assms(4) by (simp add: mux_live_def seen_ok_def Let_def)
  with push_ignored assms(5) show ?thesis by simp
next
  case (push_stored i flags r)
  with mux_live_push [OF assms(1,3,4) _ push_stored(3) _ assms(6,7)] assms(5) show ?thesis by simp
next
  case (round_exit flags r)
  show ?thesis
  proof (cases "r = ms_r s")
    case True
    have "\<not> ShouldPause (ra_flowCtrl (ms_r s))" using mux_live_no_pause [OF assms(4) _ assms(6)] assms(5) round_exit by simp
    with round_exit(3) True have "map_of (ra_chunks (ms_r s)) (ra_nextSeq (ms_r s)) = None"
      using push_iter_sent [OF round_exit(3)] by (auto simp: push_iter_def Let_def split: option.splits if_splits dest: arg_cong [of _ _ ra_isClosed])
    with round_exit True assms(4) show ?thesis by (simp add: mux_live_def Let_def)
  next
    case False
    with round_exit mux_live_sent [OF assms(3,4) _ round_exit(2,3)] assms(1) show ?thesis by (simp add: msg_ok_def)
  qed
next
  case (round_again flags r)
  have "mux_live cs W (s\<lparr>ms_r := r, ms_busy := Some flags\<rparr>)"
    using mux_live_sent [OF assms(3,4) _ round_again(2,3)] assms(1) by (simp add: msg_ok_def)
  moreover have "s\<lparr>ms_r := r, ms_busy := Some flags\<rparr> = s\<lparr>ms_r := r\<rparr>" using round_again(2) by (cases s) simp
  ultimately show ?thesis using round_again(1) by metis
next
  case (round_panics flags r)
  with assms(4) show ?thesis by (simp add: mux_live_def Let_def)
next
  case (read n bs e r)
  with mux_live_read [OF assms(3,4) _ assms(6,7)] assms(5) show ?thesis by simp
qed

lemma mux_step_pushed: "mux_step frames s s' \<Longrightarrow> \<exists>xs. ms_pushed s' = ms_pushed s @ xs"
  by (auto elim!: mux_stepE)

lemma mux_live_reach:
  assumes "msg_ok sid cs" "int (length (concat cs)) < W" "W < 2 ^ 63"
    and "mux_reach (frames_of sid cs) (mux_init (NewWindowFlowController W)) s" "distinct (ms_pushed s)"
  shows "mux_live cs W s"
  using assms(4,5)
proof (induction rule: rtranclp_induct)
  case base
  have "NewWindowFlowController W = \<lparr>fc_maxWindow = W, fc_buffered = 0, fc_consumed = 0\<rparr>"
    using assms(2) by (simp add: NewWindowFlowController_def)
  then show ?case using mux_live_init [of cs W] by simp
next
  case (step s s')
  then have "distinct (ms_pushed s)" using mux_step_pushed [OF step.hyps(2)] by auto
  then show ?case
    using mux_live_step [OF assms(1) step.hyps(2) mux_inv_reach [OF assms(1) step.hyps(1)] step.IH step.prems assms(2,3)]
    by simp
qed

section \<open>Chunks of a write\<close>

lemma concat_chunks_of: "0 < c \<Longrightarrow> length dat \<le> k \<Longrightarrow> concat (chunks_of k c dat) = dat"
proof (induction k c dat rule: chunks_of.induct)
  case (3 k c x xs)
  then have "concat (chunks_of k c (drop c (x # xs))) = drop c (x # xs)" by (cases c) auto
  then show ?case by (metis append_take_drop_id chunks_of.simps(3) concat.simps(2))
qed auto

lemma concat_chunks [simp]: "0 < c \<Longrightarrow> concat (chunks c dat) = dat"
  by (simp add: chunks_def concat_chunks_of)

lemma chunks_of_bound: "b \<in> set (chunks_of k c dat) \<Longrightarrow> length b \<le> c"
  by (induction k c dat rule: chunks_of.induct) auto

lemma chunks_of_Nil_iff: "length dat \<le> k \<Longrightarrow> chunks_of k c dat = [] \<longleftrightarrow> dat = []"
  by (cases dat; cases k) auto

lemma chunks_ok: "length sid = 16 \<Longrightarrow> 0 < c \<Longrightarrow> c \<le> 65535 \<Longrightarrow> length (chunks c dat) < 2 ^ 32 \<Longrightarrow> msg_ok sid (chunks c dat)"
  using chunks_of_bound [of _ "length dat" c dat] by (fastforce simp: msg_ok_def chunks_def)

lemma conn_index_nat:
  assumes "k < 2 ^ 31" "0 < n"
  shows "conn_index (of_nat k) n = Inr (k mod n)"
proof -
  have "sint (of_nat k :: 32 word) = int k"
    using assms(1) by (simp add: signed_of_nat signed_take_bit_int_eq_self)
  with assms(2) show ?thesis by (simp add: conn_index_def nat_mod_distrib)
qed

lemma filter_upt_Suc: "filter P [0..<Suc n] = (if P 0 then [0] else []) @ map Suc (filter (P \<circ> Suc) [0..<n])"
proof -
  have "[0..<Suc n] = 0 # map Suc [0..<n]" by (simp add: map_Suc_upt upt_conv_Cons)
  then show ?thesis by (simp add: filter_map)
qed

text \<open>The frames of the rest of a message, numbered from \<open>j\<close>.\<close>

definition frame_at :: "bytes \<Rightarrow> nat \<Rightarrow> bytes list \<Rightarrow> nat \<Rightarrow> bytes" where
  "frame_at sid j cs m = agg_frame sid (of_nat (j + m)) (Suc m = length cs) (cs ! m)"

lemma frame_at_Suc [simp]: "frame_at sid j (x # cs) (Suc m) = frame_at sid (Suc j) cs m"
  by (simp add: frame_at_def)

definition takes_writes :: "conn \<Rightarrow> bool" where
  "takes_writes c \<longleftrightarrow> \<not> is_closed c \<and> wlimit c = None"

lemma agg_loop_frames:
  assumes "length dat \<le> k" "0 < ag_chunkSize a" "ag_conns a \<noteq> []" "\<forall>c \<in> set (ag_conns a). takes_writes c"
    and "ag_nextConn a = of_nat st" "cs = chunks_of k (nat (ag_chunkSize a)) dat" "st + length cs \<le> 2 ^ 31"
  shows "\<exists>a'. agg_loop k (of_nat j) dat a = (Some None, a') \<and> length (ag_conns a') = length (ag_conns a) \<and>
    (\<forall>i < length (ag_conns a). outq (ag_conns a' ! i) = outq (ag_conns a ! i) @
      concat (map (frame_at (ag_sessionID a) j cs) (filter (\<lambda>m. (st + m) mod length (ag_conns a) = i) [0..<length cs])))"
  using assms
proof (induction k arbitrary: j dat a st cs)
  case 0
  then show ?case by simp
next
  case (Suc k)
  let ?n = "length (ag_conns a)" and ?c = "nat (ag_chunkSize a)"
  show ?case
  proof (cases dat)
    case Nil
    with Suc.prems show ?thesis by simp
  next
    case (Cons x xs)
    let ?rest = "drop ?c dat" and ?i = "st mod ?n" and ?sid = "ag_sessionID a"
    define cs1 where "cs1 = chunks_of k ?c ?rest"
    have cs: "cs = take ?c dat # cs1" using Suc.prems(6) Cons by (simp add: cs1_def)
    have n: "0 < ?n" "?i < ?n" and c: "0 < ?c" using Suc.prems(2,3) by simp_all
    have rest: "length ?rest \<le> k" using Suc.prems(1) c Cons by (cases ?c) auto
    have idx: "conn_index (ag_nextConn a) ?n = Inr ?i"
      using conn_index_nat [of st ?n] Suc.prems(5,7) n(1) cs by simp
    have "(?rest = []) = (Suc 0 = length cs)" using cs chunks_of_Nil_iff [OF rest, of ?c] by (simp add: cs1_def)
    then have fr: "agg_frame ?sid (of_nat j) (?rest = []) (take ?c dat) = frame_at ?sid j cs 0"
      by (simp add: frame_at_def cs)
    let ?f = "frame_at ?sid j cs 0"
    let ?d = "(ag_conns a ! ?i)\<lparr>outq := outq (ag_conns a ! ?i) @ ?f\<rparr>"
    define a1 where "a1 = a\<lparr>ag_nextConn := ag_nextConn a + 1, ag_conns := (ag_conns a)[?i := ?d]\<rparr>"
    have a1: "ag_chunkSize a1 = ag_chunkSize a" "ag_conns a1 = (ag_conns a)[?i := ?d]" "ag_sessionID a1 = ?sid"
        "ag_nextConn a1 = of_nat (Suc st)" "length (ag_conns a1) = ?n"
      using Suc.prems(5) by (simp_all add: a1_def add.commute)
    have tw: "takes_writes (ag_conns a ! ?i)" using Suc.prems(4) n(2) by simp
    then have w: "conn_write (ag_conns a ! ?i) ?f = (None, ?d)" by (simp add: takes_writes_def conn_write_def)
    have sz: "take (min (length dat) ?c) dat = take ?c dat" "drop (min (length dat) ?c) dat = ?rest"
      by (simp_all add: min_def)
    have loop: "agg_loop (Suc k) (of_nat j) dat a = agg_loop k (of_nat (Suc j)) ?rest a1"
      using idx w fr sz by (simp add: Cons a1_def Let_def add.commute)
    have p1: "\<forall>c \<in> set (ag_conns a1). takes_writes c"
      using Suc.prems(4) tw by (auto simp: a1(2) takes_writes_def dest!: set_update_subset_insert [THEN subsetD])
    have p2: "0 < ag_chunkSize a1" "ag_conns a1 \<noteq> []" "cs1 = chunks_of k (nat (ag_chunkSize a1)) ?rest"
        "Suc st + length cs1 \<le> 2 ^ 31"
      using Suc.prems(2,3,7) cs by (simp_all add: a1(1,2) cs1_def)
    obtain a' where "agg_loop k (of_nat (Suc j)) ?rest a1 = (Some None, a')" "length (ag_conns a') = length (ag_conns a1)"
        "\<forall>i < length (ag_conns a1). outq (ag_conns a' ! i) = outq (ag_conns a1 ! i) @
          concat (map (frame_at (ag_sessionID a1) (Suc j) cs1) (filter (\<lambda>m. (Suc st + m) mod length (ag_conns a1) = i) [0..<length cs1]))"
      using Suc.IH [OF rest p2(1,2) p1 a1(4) p2(3,4), of "Suc j"] by blast
    note a' = this [unfolded a1(5) a1(3)]
    have split: "map (frame_at ?sid j cs) (filter (\<lambda>m. (st + m) mod ?n = i) [0..<length cs]) =
        (if ?i = i then [?f] else []) @ map (frame_at ?sid (Suc j) cs1) (filter (\<lambda>m. (Suc st + m) mod ?n = i) [0..<length cs1])" for i
      unfolding cs length_Cons filter_upt_Suc by (simp add: comp_def)
    have "outq ((ag_conns a)[?i := ?d] ! i) = outq (ag_conns a ! i) @ (if ?i = i then ?f else [])" if "i < ?n" for i
      using that by (simp add: nth_list_update)
    then have o1: "outq (ag_conns a1 ! i) = outq (ag_conns a ! i) @ (if ?i = i then ?f else [])" if "i < ?n" for i
      using that by (simp add: a1(2))
    show ?thesis using a' loop by (simp add: split o1)
  qed
qed

lemma mux_all_sent:
  assumes "msg_ok sid cs" "cs \<noteq> []" "int (length (concat cs)) < W" "W < 2 ^ 63"
    and "mux_reach (frames_of sid cs) (mux_init (NewWindowFlowController W)) s"
    and "distinct (ms_pushed s)" "set (ms_pushed s) = {..<length cs}" "ms_busy s = None"
  shows "ms_got s @ ra_pending (ms_r s) @ concat (ra_output (ms_r s)) = concat cs \<and>
    (ra_isClosed (ms_r s) \<longleftrightarrow> Suc (last (ms_pushed s)) = length cs)"
proof -
  let ?k = "unat (ra_nextSeq (ms_r s))" and ?m = "map_of (ra_chunks (ms_r s))"
  have "mux_inv cs s" by (rule mux_inv_reach [OF assms(1,5)])
  then have inv: "?k \<le> length cs"
      "ms_got s @ ra_pending (ms_r s) @ concat (ra_output (ms_r s)) = concat (take ?k cs)"
    by (simp_all add: mux_inv_def Let_def)
  have "mux_live cs W s" by (rule mux_live_reach [OF assms(1,3-6)])
  then have live: "seen_ok cs ?k ?m (ms_pushed s)" "?m (ra_nextSeq (ms_r s)) = None"
      "ra_isClosed (ms_r s) \<longleftrightarrow> ms_pushed s \<noteq> [] \<and> ?k = length cs \<and> Suc (last (ms_pushed s)) = length cs"
    using assms(8) by (simp_all add: mux_live_def Let_def)
  have "?k = length cs"
  proof (rule ccontr)
    assume "?k \<noteq> length cs"
    with inv have k: "?k < length cs" by simp
    then have "?k \<in> set (ms_pushed s)" using assms(7) by blast
    with live(1) k have "?k < ?k \<or> ?m (of_nat ?k) \<noteq> None" unfolding seen_ok_def by blast
    with live(2) show False by simp
  qed
  moreover have "ms_pushed s \<noteq> []" using assms(2,7) by (metis empty_iff length_greater_0_conv lessThan_iff list.set(1))
  ultimately show ?thesis using inv(2) live(3) by simp
qed

section \<open>Properties\<close>

text \<open>
  C3: What the reassembler delivers is always a prefix of the message. For the frames of one
  message, pushed in any order, repeated or lost, with a window of any size, and reads of any
  size running at any point between the steps of the pushes, the bytes read so far, then those
  pending and in the channel, are the chunks before \<^verbatim>\<open>nextSeq\<close>; no send on the closed channel
  happens.
\<close>

theorem mux_prefix_safety:
  assumes "msg_ok sid cs" "mux_reach (frames_of sid cs) (mux_init fc) s"
  shows "\<not> ms_crashed s \<and> ms_got s @ ra_pending (ms_r s) @ concat (ra_output (ms_r s)) =
    concat (take (unat (ra_nextSeq (ms_r s))) cs)"
  using mux_inv_reach [OF assms] by (simp add: mux_inv_def Let_def)

text \<open>A push that nobody interrupts is a sequence of steps.\<close>

lemma mux_reach_loop:
  "push_loop fl r = (Returned e, r') \<Longrightarrow> ms_r s = r \<Longrightarrow> ms_busy s = Some fl \<Longrightarrow>
    mux_reach frames s (s\<lparr>ms_r := r', ms_busy := None\<rparr>)"
proof (induction fl r arbitrary: s rule: push_loop.induct)
  case (1 fl r)
  obtain out r1 where it: "push_iter fl r = (out, r1)" by (cases "push_iter fl r")
  show ?case
  proof (cases out)
    case Again
    have "mux_step frames s (s\<lparr>ms_r := r1\<rparr>)" using mux_step.round_again [of s fl r1] 1 it Again by simp
    moreover have "mux_reach frames (s\<lparr>ms_r := r1\<rparr>) (s\<lparr>ms_r := r', ms_busy := None\<rparr>)"
      using 1(1) [OF it [symmetric] Again, of "s\<lparr>ms_r := r1\<rparr>"] 1(2-4) it Again by (simp add: push_loop.simps [of fl r])
    ultimately show ?thesis by (rule converse_rtranclp_into_rtranclp)
  qed (use 1 it mux_step.round_exit [of s fl r1] in \<open>auto simp: push_loop.simps [of fl r]\<close>)
qed

lemma mux_reach_push:
  assumes "reasm_Push (frames ! i) (ms_r s) = (Returned e, r')" "i < length frames" "ms_busy s = None"
  shows "mux_reach frames s (s\<lparr>ms_r := r', ms_pushed := ms_pushed s @ [i]\<rparr>)"
proof (cases "push_begin (frames ! i) (ms_r s)")
  case (Inl x)
  then have "r' = ms_r s" using assms(1) by (simp add: reasm_Push_def)
  with mux_step.push_ignored [OF assms(2,3) Inl] show ?thesis by auto
next
  case (Inr y)
  obtain fl r where y: "y = (fl, r)" by (cases y)
  let ?s = "s\<lparr>ms_r := r, ms_busy := Some fl, ms_pushed := ms_pushed s @ [i]\<rparr>"
  have "mux_step frames s ?s" using mux_step.push_stored [OF assms(2,3)] Inr y by simp
  moreover have "push_loop fl r = (Returned e, r')" using assms(1) Inr y by (simp add: reasm_Push_def)
  then have "mux_reach frames ?s (?s\<lparr>ms_r := r', ms_busy := None\<rparr>)" by (rule mux_reach_loop) simp_all
  moreover have "?s\<lparr>ms_r := r', ms_busy := None\<rparr> = s\<lparr>ms_r := r', ms_pushed := ms_pushed s @ [i]\<rparr>"
    using assms(3) by (cases s) simp
  ultimately show ?thesis by (metis converse_rtranclp_into_rtranclp)
qed

text \<open>A message of three bytes in two chunks; its second frame arrives first.\<close>

definition demo_sid :: bytes where "demo_sid = replicate 16 7"

definition demo_frames :: "bytes list" where "demo_frames = frames_of demo_sid (chunks 2 [10, 20, 30])"

definition demo_reasm :: "nat list \<Rightarrow> Reassembler" where
  "demo_reasm is = fold (\<lambda>i r. snd (reasm_Push (demo_frames ! i) r)) is (NewReassembler (NewWindowFlowController 100))"

definition demo_mux :: "nat list \<Rightarrow> mux_state" where
  "demo_mux is = (mux_init (NewWindowFlowController 100))\<lparr>ms_r := demo_reasm is, ms_pushed := is\<rparr>"

lemma all_less_two: "(\<forall>i < Suc (Suc 0). P i) \<longleftrightarrow> P 0 \<and> P (Suc 0)"
  by (auto simp: less_Suc_eq)

lemma demo_chunks: "chunks 2 [10, 20, 30 :: byte] = [[10, 20], [30]]"
  by code_simp

lemma demo_pushes:
  "fst (reasm_Push (demo_frames ! 1) (demo_reasm [])) = Returned None"
  "fst (reasm_Push (demo_frames ! 0) (demo_reasm [1])) = Returned None"
  "fst (reasm_Push (demo_frames ! 0) (demo_reasm [])) = Returned None"
  "fst (reasm_Push (demo_frames ! 1) (demo_reasm [0])) = Returned None"
  by code_simp+

lemma demo_mux_push:
  assumes "fst (reasm_Push (demo_frames ! i) (demo_reasm is)) = Returned None" "i < 2"
  shows "mux_reach demo_frames (demo_mux is) (demo_mux (is @ [i]))"
proof -
  have "reasm_Push (demo_frames ! i) (demo_reasm is) = (Returned None, demo_reasm (is @ [i]))"
    using assms(1) by (simp add: demo_reasm_def prod_eq_iff)
  with mux_reach_push [of demo_frames i "demo_mux is" None] assms(2) show ?thesis
    by (simp add: demo_mux_def mux_init_def demo_frames_def demo_chunks)
qed

lemma demo_mux_init: "demo_mux [] = mux_init (NewWindowFlowController 100)"
  by (simp add: demo_mux_def mux_init_def demo_reasm_def)

lemma demo_mux_reach:
  "mux_reach demo_frames (mux_init (NewWindowFlowController 100)) (demo_mux [1, 0])"
  "mux_reach demo_frames (mux_init (NewWindowFlowController 100)) (demo_mux [0, 1])"
  using demo_mux_push [OF demo_pushes(1)] demo_mux_push [OF demo_pushes(2)]
    demo_mux_push [OF demo_pushes(3)] demo_mux_push [OF demo_pushes(4)]
  by (simp_all add: demo_mux_init)

lemma demo_msg_ok: "msg_ok demo_sid (chunks 2 [10, 20, 30])"
  by (rule chunks_ok) (simp_all add: demo_sid_def demo_chunks)

theorem mux_prefix_safety_witness:
  "ms_got (demo_mux [1, 0]) @ ra_pending (ms_r (demo_mux [1, 0])) @ concat (ra_output (ms_r (demo_mux [1, 0]))) =
    concat (take (unat (ra_nextSeq (ms_r (demo_mux [1, 0])))) [[10, 20], [30]])"
  using mux_prefix_safety [OF demo_msg_ok, unfolded demo_frames_def [symmetric], OF demo_mux_reach(1)]
  by (simp add: demo_chunks)

text \<open>
  C2: The whole message arrives. Let a write be cut into chunks of at most \<open>c\<close> bytes (\<open>c\<close> from 1
  to 65535) and its frames be pushed once each, in any order and with reads in between. If the
  window exceeds the length of the write and no push is in progress, then what has been read,
  is pending and is in the channel is exactly the data written; and the channel is closed if and
  only if the FIN frame was the last to be pushed. In any other order the reader gets all
  the bytes and then waits for ever.
\<close>

theorem mux_complete:
  assumes "length sid = 16" "0 < c" "c \<le> 65535" "length (chunks c dat) < 2 ^ 32" "dat \<noteq> []"
    and "int (length dat) < W" "W < 2 ^ 63"
    and "mux_reach (frames_of sid (chunks c dat)) (mux_init (NewWindowFlowController W)) s"
    and "distinct (ms_pushed s)" "set (ms_pushed s) = {..<length (chunks c dat)}" "ms_busy s = None"
  shows "ms_got s @ ra_pending (ms_r s) @ concat (ra_output (ms_r s)) = dat \<and>
    (ra_isClosed (ms_r s) \<longleftrightarrow> Suc (last (ms_pushed s)) = length (chunks c dat))"
proof -
  have "chunks c dat \<noteq> []" using assms(5) by (simp add: chunks_def chunks_of_Nil_iff)
  from mux_all_sent [OF chunks_ok [OF assms(1-4)] this _ assms(7-11)] assms(2,6) show ?thesis by simp
qed

theorem mux_complete_witness:
  "concat (ra_output (ms_r (demo_mux [1, 0]))) = [10, 20, 30] \<and> \<not> ra_isClosed (ms_r (demo_mux [1, 0]))
   \<and> concat (ra_output (ms_r (demo_mux [0, 1]))) = [10, 20, 30] \<and> ra_isClosed (ms_r (demo_mux [0, 1]))"
proof -
  have d: "ms_got (demo_mux is) = []" "ms_pushed (demo_mux is) = is" "ms_busy (demo_mux is) = None"
      "ms_r (demo_mux is) = demo_reasm is" for "is"
    by (simp_all add: demo_mux_def mux_init_def)
  have p: "ra_pending (demo_reasm [1, 0]) = []" "ra_pending (demo_reasm [0, 1]) = []" by code_simp+
  have l: "length (chunks 2 [10, 20, 30 :: byte]) = 2" by (simp add: demo_chunks)
  have st: "set (ms_pushed (demo_mux [1, 0])) = {..<2}" "set (ms_pushed (demo_mux [0, 1])) = {..<2}"
    unfolding d by (auto simp: less_2_cases_iff)
  note w = mux_complete [of demo_sid 2 "[10, 20, 30]" 100, folded demo_frames_def, unfolded l]
  have "ms_got (demo_mux [1, 0]) @ ra_pending (ms_r (demo_mux [1, 0])) @ concat (ra_output (ms_r (demo_mux [1, 0]))) = [10, 20, 30] \<and>
      (ra_isClosed (ms_r (demo_mux [1, 0])) \<longleftrightarrow> Suc (last (ms_pushed (demo_mux [1, 0]))) = 2)"
    by (rule w [OF _ _ _ _ _ _ _ demo_mux_reach(1) _ st(1)]) (simp_all add: d demo_sid_def)
  moreover have "ms_got (demo_mux [0, 1]) @ ra_pending (ms_r (demo_mux [0, 1])) @ concat (ra_output (ms_r (demo_mux [0, 1]))) = [10, 20, 30] \<and>
      (ra_isClosed (ms_r (demo_mux [0, 1])) \<longleftrightarrow> Suc (last (ms_pushed (demo_mux [0, 1]))) = 2)"
    by (rule w [OF _ _ _ _ _ _ _ demo_mux_reach(2) _ st(2)]) (simp_all add: d demo_sid_def)
  ultimately show ?thesis unfolding d p by simp
qed

text \<open>
  A write is spread round-robin and nothing is lost. On connections that accept all
  bytes, a write of any data returns its length, and connection \<open>i\<close> has received the frames of
  the write's chunks whose position, counted from the aggregator's counter, is \<open>i\<close> modulo the
  number of connections, in order. The counter must stay below $2^{31}$.
\<close>

theorem agg_write_round_robin:
  assumes "0 < ag_chunkSize a" "ag_conns a \<noteq> []" "\<forall>c \<in> set (ag_conns a). takes_writes c"
    and "cs = chunks (nat (ag_chunkSize a)) dat" "ag_nextConn a = of_nat st" "st + length cs \<le> 2 ^ 31"
  shows "\<exists>a'. agg_Write dat a = (Some (length dat, None), a') \<and>
    (\<forall>i < length (ag_conns a). outq (ag_conns a' ! i) = outq (ag_conns a ! i) @
      concat (map (\<lambda>m. frames_of (ag_sessionID a) cs ! m)
        (filter (\<lambda>m. (st + m) mod length (ag_conns a) = i) [0..<length cs])))"
proof -
  have fr: "map (frame_at (ag_sessionID a) 0 cs) (filter P [0..<length cs]) =
      map (\<lambda>m. frames_of (ag_sessionID a) cs ! m) (filter P [0..<length cs])" for P
    by (rule map_cong) (simp_all add: frame_at_def frames_of_nth)
  from agg_loop_frames [of dat "length dat" a st cs 0] assms
  obtain a' where "agg_loop (length dat) 0 dat a = (Some None, a')"
      "\<forall>i < length (ag_conns a). outq (ag_conns a' ! i) = outq (ag_conns a ! i) @
        concat (map (frame_at (ag_sessionID a) 0 cs) (filter (\<lambda>m. (st + m) mod length (ag_conns a) = i) [0..<length cs]))"
    by (auto simp: chunks_def)
  then show ?thesis unfolding fr by (simp add: agg_Write_def)
qed

theorem agg_write_round_robin_witness:
  "\<exists>a'. agg_Write [10, 20, 30] (NewAggregator [peer_sends [], peer_sends []] demo_sid 2) = (Some (3, None), a')
    \<and> outq (ag_conns a' ! 0) = demo_frames ! 0 \<and> outq (ag_conns a' ! 1) = demo_frames ! 1"
proof -
  let ?a = "NewAggregator [peer_sends [], peer_sends []] demo_sid 2"
  have a: "ag_chunkSize ?a = 2" "ag_conns ?a = [peer_sends [], peer_sends []]" "ag_nextConn ?a = of_nat 0" "ag_sessionID ?a = demo_sid"
    by (simp_all add: NewAggregator_def)
  have o: "takes_writes (peer_sends [])" "outq (peer_sends []) = []" by (simp_all add: takes_writes_def peer_sends_def)
  have "[0..<2] = [0, 1 :: nat]" by (simp add: upt_rec)
  then show ?thesis
    using agg_write_round_robin [of ?a "chunks 2 [10, 20, 30]" "[10, 20, 30]" 0] a o
    by (auto simp: demo_frames_def demo_chunks all_less_two)
qed

text \<open>
  C40: A second write can crash the receiver. Every write numbers its chunks from 0 again. After
  a message of \<open>n\<close> chunks has been delivered and its channel closed, pushing the frame that
  carries number \<open>n\<close> of a longer second write sends on the closed channel, a run-time panic;
  the frames before it are silently dropped.
\<close>

theorem mux_second_write_panics:
  assumes "msg_ok sid cs" "ra_isClosed r" "unat (ra_nextSeq r) = n" "n < length cs" "i < n"
    and "int (length (cs ! n)) + fc_buffered (ra_flowCtrl r) < fc_maxWindow (ra_flowCtrl r)"
    and "in_int64 (int (length (cs ! n)) + fc_buffered (ra_flowCtrl r))"
  shows "reasm_Push (frames_of sid cs ! i) r = (Returned None, r) \<and>
    fst (reasm_Push (frames_of sid cs ! n) r) = Crashed"
proof -
  have "ra_nextSeq r = of_nat n" using assms(3) by auto
  then show ?thesis
    using assms push_begin_frame [OF assms(1), of i r] push_begin_frame [OF assms(1,4), of r]
    by (simp add: reasm_Push_def push_loop.simps push_iter_def AList.update_conv' ShouldPause_def
        wfc.level_buffered wfc.window_buffered add.commute)
qed

theorem mux_second_write_panics_witness:
  "reasm_Push (frames_of demo_sid [[1], [2], [3]] ! 0) (demo_reasm [0, 1]) = (Returned None, demo_reasm [0, 1])
   \<and> fst (reasm_Push (frames_of demo_sid [[1], [2], [3]] ! 2) (demo_reasm [0, 1])) = Crashed"
proof -
  have "ra_isClosed (demo_reasm [0, 1])" "unat (ra_nextSeq (demo_reasm [0, 1])) = 2"
      "fc_buffered (ra_flowCtrl (demo_reasm [0, 1])) = 3" "fc_maxWindow (ra_flowCtrl (demo_reasm [0, 1])) = 100"
    by code_simp+
  then show ?thesis
    using mux_second_write_panics [of demo_sid "[[1], [2], [3]]" "demo_reasm [0, 1]" 2 0]
    by (simp add: msg_ok_def demo_sid_def in_int64_def)
qed

text \<open>
  The default chunk size loses data. With the default chunk size of 65536 bytes, the length field
  of a full chunk, 16 bits wide, is 0: a reassembler that gets such a frame as its next one
  delivers an empty chunk in its place.
\<close>

theorem mux_default_chunk_lost:
  assumes "length sid = 16" "length chunk = 65536" "ra_chunks r = []" "\<not> ra_isClosed r"
    and "length (ra_output r) < output_cap" "fc_buffered (ra_flowCtrl r) < fc_maxWindow (ra_flowCtrl r)"
    and "in_int64 (fc_buffered (ra_flowCtrl r))"
  shows "\<exists>r'. reasm_Push (agg_frame sid (ra_nextSeq r) False chunk) r = (Returned None, r') \<and>
    ra_output r' = ra_output r @ [[]] \<and> ra_nextSeq r' = ra_nextSeq r + 1"
proof -
  have "(of_nat (length chunk) :: u16) = 0" using assms(2) by simp
  then have "parse_chunk (agg_frame sid (ra_nextSeq r) False chunk) =
      Inr \<lparr>pc_seq = ra_nextSeq r, pc_chunk = [], pc_flags = 0\<rparr>"
    using assms(1) by (simp add: parse_chunk_def agg_frame_def nth_append Let_def)
  then show ?thesis
    using assms by (simp add: reasm_Push_def push_begin_def push_loop.simps push_iter_def ShouldPause_def
        wfc.level_buffered wfc.window_buffered Let_def)
qed

theorem mux_default_chunk_lost_witness:
  "\<exists>r'. reasm_Push (agg_frame demo_sid 0 False (replicate 65536 1)) (demo_reasm []) = (Returned None, r')
    \<and> ra_output r' = [[]] \<and> ra_nextSeq r' = 1"
  using mux_default_chunk_lost [of demo_sid "replicate 65536 1" "demo_reasm []"]
  by (simp add: demo_sid_def demo_reasm_def NewReassembler_def NewWindowFlowController_def output_cap_def in_int64_def)

text \<open>
  A full window stalls the stream. If the bytes buffered reach the window with the chunk
  that would be next, the push returns without an error and sends nothing, and a reader that finds nothing
  pending blocks; only a later push can get the stream going.
\<close>

theorem mux_window_stall:
  assumes "msg_ok sid cs" "i < length cs" "unat (ra_nextSeq r) = i"
    and "fc_maxWindow (ra_flowCtrl r) \<le> fc_buffered (ra_flowCtrl r) + int (length (cs ! i))"
    and "in_int64 (fc_buffered (ra_flowCtrl r) + int (length (cs ! i)))"
    and "ra_output r = []" "ra_pending r = []" "\<not> ra_isClosed r"
  shows "\<exists>r'. reasm_Push (frames_of sid cs ! i) r = (Returned None, r') \<and> reasm_Read n r' = None"
proof -
  let ?fl = "if Suc i = length cs then 1 else 0 :: byte"
  let ?r = "r\<lparr>ra_chunks := AList.update (of_nat i) (cs ! i) (ra_chunks r),
    ra_flowCtrl := OnBuffered (length (cs ! i)) (ra_flowCtrl r)\<rparr>"
  have "push_begin (frames_of sid cs ! i) r = Inr (?fl, ?r)" using push_begin_frame [OF assms(1,2), of r] assms(3) by simp
  moreover have "ShouldPause (ra_flowCtrl ?r)"
    using assms(4,5) by (simp add: ShouldPause_def wfc.level_buffered wfc.window_buffered)
  then have "push_iter ?fl ?r = (Exit, ?r)" by (auto simp: push_iter_def split: option.splits)
  ultimately have "reasm_Push (frames_of sid cs ! i) r = (Returned None, ?r)"
    by (simp add: reasm_Push_def push_loop.simps)
  moreover have "reasm_Read n ?r = None" using assms(6-8) by (simp add: reasm_Read_def)
  ultimately show ?thesis by blast
qed

theorem mux_window_stall_witness:
  "\<exists>r'. reasm_Push (frames_of demo_sid [[1, 2, 3]] ! 0) (NewReassembler (NewWindowFlowController 3)) = (Returned None, r')
    \<and> reasm_Read 10 r' = None"
  using mux_window_stall [of demo_sid "[[1, 2, 3]]" 0 "NewReassembler (NewWindowFlowController 3)" 10]
  by (simp add: demo_sid_def msg_ok_def NewReassembler_def NewWindowFlowController_def in_int64_def)

end
