(* ===== verification/Accounting.thy ===== *)
theory Accounting
  imports NP_Types "HOL-Library.AList"
begin

text \<open>
  Accounting per user and per process: traffic quotas (\<^verbatim>\<open>internal/common/quota.go\<close>), bandwidth
  limiters (\<^verbatim>\<open>internal/common/ratelimit.go\<close>), the counters of \<^verbatim>\<open>internal/common/metrics.go\<close> and
  the buffer pool (\<^verbatim>\<open>internal/common/pool.go\<close>). Every operation is one atomic step of the program
  (a mutex or an atomic counter), so a concurrent run is a sequence of them.

  The token bucket of \<^verbatim>\<open>golang.org/x/time/rate\<close> is a parameter: \<open>waitN cancelled n l\<close> returns the
  error of waiting for \<open>n\<close> tokens and the new state of the bucket.
\<close>

section \<open>Quotas\<close>

record QuotaManager =
  qm_used :: "(string \<times> int) list"
  qm_limits :: "(string \<times> int) list"

definition NewQuotaManager :: QuotaManager where
  "NewQuotaManager = \<lparr>qm_used = [], qm_limits = []\<rparr>"

definition get0 :: "('k \<times> int) list \<Rightarrow> 'k \<Rightarrow> int" where
  "get0 al k = (case map_of al k of Some v \<Rightarrow> v | None \<Rightarrow> 0)"

definition AddUsage :: "string \<Rightarrow> int \<Rightarrow> QuotaManager \<Rightarrow> bool \<times> QuotaManager" where
  "AddUsage userID n m =
     (let limit = get0 (qm_limits m) userID; current = int64 (get0 (qm_used m) userID + n) in
      (0 < limit \<and> limit < current, m\<lparr>qm_used := AList.update userID current (qm_used m)\<rparr>))"

definition SetLimit :: "string \<Rightarrow> int \<Rightarrow> QuotaManager \<Rightarrow> QuotaManager" where
  "SetLimit userID limit m = m\<lparr>qm_limits := AList.update userID limit (qm_limits m)\<rparr>"

definition quota_Reset :: "string \<Rightarrow> QuotaManager \<Rightarrow> QuotaManager" where
  "quota_Reset userID m = (case map_of (qm_used m) userID of
     None \<Rightarrow> m | Some v \<Rightarrow> m\<lparr>qm_used := AList.update userID 0 (qm_used m)\<rparr>)"

definition GetStatus :: "string \<Rightarrow> QuotaManager \<Rightarrow> int \<times> int" where
  "GetStatus userID m = (get0 (qm_used m) userID, get0 (qm_limits m) userID)"

lemma update_new: "k \<notin> fst ` set al \<Longrightarrow> AList.update k v al = al @ [(k, v)]"
  by (induction al) auto

lemma get0_update [simp]: "get0 (AList.update k v al) k' = (if k' = k then v else get0 al k')"
  by (simp add: get0_def AList.update_conv')

text \<open>What callers rely on: a lookup after each operation.\<close>

lemma quota_status [simp]:
  "GetStatus u (snd (AddUsage v n m)) =
    (if u = v then (int64 (get0 (qm_used m) v + n), get0 (qm_limits m) v) else GetStatus u m)"
  "GetStatus u (SetLimit v l m) = (get0 (qm_used m) u, if u = v then l else get0 (qm_limits m) u)"
  "GetStatus u (quota_Reset v m) = (if u = v then 0 else get0 (qm_used m) u, get0 (qm_limits m) u)"
  by (auto simp: GetStatus_def AddUsage_def SetLimit_def quota_Reset_def Let_def get0_def AList.update_conv'
      split: option.splits)

text \<open>A sequence of usage reports of any users; the result is the amounts accepted for \<open>u\<close>.\<close>

fun usages :: "string \<Rightarrow> (string \<times> nat) list \<Rightarrow> QuotaManager \<Rightarrow> nat \<times> QuotaManager" where
  "usages u [] m = (0, m)"
| "usages u ((v, n) # xs) m = (case AddUsage v (int n) m of (exceeded, m1) \<Rightarrow>
     case usages u xs m1 of (acc, m2) \<Rightarrow> (if v = u \<and> \<not> exceeded then n + acc else acc, m2))"

lemma usages_bound:
  assumes "GetStatus u m = (used, limit)" "0 < limit" "0 \<le> used"
    and "used + int (\<Sum>(v, n)\<leftarrow>xs. if v = u then n else 0) < 2 ^ 63"
    and "usages u xs m = (acc, m')"
  shows "acc = 0 \<or> used + int acc \<le> limit"
  using assms
proof (induction xs arbitrary: m used acc m')
  case (Cons x xs)
  obtain v n where x: "x = (v, n)" by (cases x)
  obtain ex m1 where a: "AddUsage v (int n) m = (ex, m1)" by (cases "AddUsage v (int n) m")
  obtain acc1 m2 where r: "usages u xs m1 = (acc1, m2)" by (cases "usages u xs m1")
  have acc: "acc = (if v = u \<and> \<not> ex then n + acc1 else acc1)" using Cons.prems(5) by (simp add: x a r)
  show ?case
  proof (cases "v = u")
    case False
    then have "GetStatus u m1 = (used, limit)" using Cons.prems(1) a quota_status(1) [of u v "int n" m] by simp
    with Cons.IH [OF this Cons.prems(2,3) _ r] Cons.prems(4) False acc x show ?thesis by simp
  next
    case True
    have u: "get0 (qm_used m) u = used" "get0 (qm_limits m) u = limit" using Cons.prems(1) by (simp_all add: GetStatus_def)
    have rng: "used + int n < 2 ^ 63" using Cons.prems(4) True x by simp
    then have w: "int64 (used + int n) = used + int n" using Cons.prems(3) by (intro int64_id) (simp add: in_int64_def)
    have s1: "GetStatus u m1 = (used + int n, limit)" using a quota_status(1) [of u v "int n" m] u w True by simp
    have ex: "ex \<longleftrightarrow> limit < used + int n" using a u w True Cons.prems(2) by (auto simp: AddUsage_def Let_def)
    have "acc1 = 0 \<or> (used + int n) + int acc1 \<le> limit"
      using Cons.IH [OF s1 Cons.prems(2) _ _ r] Cons.prems(3,4) True x by simp
    with acc ex True show ?thesis by auto
  qed
qed simp

section \<open>Bandwidth limiters\<close>

record BandwidthLimiter =
  bl_rate :: int
  bl_burst :: int

definition NewBandwidthLimiter :: "int \<Rightarrow> BandwidthLimiter option" where
  "NewBandwidthLimiter bytesPerSec =
     (if bytesPerSec \<le> 0 then None
      else Some \<lparr>bl_rate = bytesPerSec, bl_burst = int64 (bytesPerSec div 4 + 1024 * 1024)\<rparr>)"

text \<open>\<^verbatim>\<open>Wait\<close> on a nil limiter succeeds at once.\<close>

definition bl_Wait :: "(bool \<Rightarrow> nat \<Rightarrow> 'l \<Rightarrow> error option \<times> 'l) \<Rightarrow> bool \<Rightarrow> nat \<Rightarrow> 'l option \<Rightarrow> error option \<times> 'l option" where
  "bl_Wait waitN cancelled n l = (case l of
     None \<Rightarrow> (None, None) | Some b \<Rightarrow> (case waitN cancelled n b of (e, b') \<Rightarrow> (e, Some b')))"

record LimiterManager =
  lm_limiters :: "(string \<times> BandwidthLimiter option) list"
  lm_defaultRate :: int

definition NewLimiterManager :: "int \<Rightarrow> LimiterManager" where
  "NewLimiterManager defaultMBps = \<lparr>lm_limiters = [], lm_defaultRate = int64 (defaultMBps * 1024 * 1024)\<rparr>"

definition GetOrCreate :: "string \<Rightarrow> LimiterManager \<Rightarrow> BandwidthLimiter option \<times> LimiterManager" where
  "GetOrCreate userID m =
     (if userID = [] then (None, m)
      else (case map_of (lm_limiters m) userID of
          Some l \<Rightarrow> (l, m)
        | None \<Rightarrow> let l = NewBandwidthLimiter (lm_defaultRate m) in
            (l, m\<lparr>lm_limiters := AList.update userID l (lm_limiters m)\<rparr>)))"

definition lm_Update :: "string \<Rightarrow> int \<Rightarrow> LimiterManager \<Rightarrow> LimiterManager" where
  "lm_Update userID mbps m =
     m\<lparr>lm_limiters := AList.update userID (NewBandwidthLimiter (int64 (mbps * 1024 * 1024))) (lm_limiters m)\<rparr>"

section \<open>Counters\<close>

text \<open>
  The counters of the process. The vectors of the Prometheus library are tables by label; their
  values are floating-point numbers in the code, which hold every integer below $2^{53}$ exactly.
  The vectors for DNS are registered but nothing writes them; the relay errors are in \<open>relay_env\<close>.
\<close>

record metrics =
  mt_activeCount :: int
  mt_totalBytesIn :: int
  mt_totalBytesOut :: int
  mt_ActiveSessions :: int
  mt_BytesTransferred :: "((string \<times> string) \<times> int) list"
  mt_NodeLatencyMs :: "(string \<times> int) list"

definition metrics0 :: metrics where
  "metrics0 = \<lparr>mt_activeCount = 0, mt_totalBytesIn = 0, mt_totalBytesOut = 0, mt_ActiveSessions = 0, mt_BytesTransferred = [], mt_NodeLatencyMs = []\<rparr>"

definition IncActiveSessions :: "metrics \<Rightarrow> metrics" where
  "IncActiveSessions m = (let n = int64 (mt_activeCount m + 1) in m\<lparr>mt_activeCount := n, mt_ActiveSessions := n\<rparr>)"

definition DecActiveSessions :: "metrics \<Rightarrow> metrics" where
  "DecActiveSessions m = (let n = int64 (mt_activeCount m - 1) in m\<lparr>mt_activeCount := n, mt_ActiveSessions := n\<rparr>)"

definition GetActiveSessions :: "metrics \<Rightarrow> int" where
  "GetActiveSessions m = mt_activeCount m"

definition AddBytesIn :: "int \<Rightarrow> metrics \<Rightarrow> metrics" where
  "AddBytesIn n m = m\<lparr>mt_totalBytesIn := int64 (mt_totalBytesIn m + n)\<rparr>"

definition AddBytesOut :: "int \<Rightarrow> metrics \<Rightarrow> metrics" where
  "AddBytesOut n m = m\<lparr>mt_totalBytesOut := int64 (mt_totalBytesOut m + n)\<rparr>"

definition AddBytesTransferred :: "string \<Rightarrow> string \<Rightarrow> nat \<Rightarrow> metrics \<Rightarrow> metrics" where
  "AddBytesTransferred direction node n m = m\<lparr>mt_BytesTransferred :=
     AList.update (direction, node) (get0 (mt_BytesTransferred m) (direction, node) + int n) (mt_BytesTransferred m)\<rparr>"

definition SetNodeLatencyMs :: "string \<Rightarrow> int \<Rightarrow> metrics \<Rightarrow> metrics" where
  "SetNodeLatencyMs name v m = m\<lparr>mt_NodeLatencyMs := AList.update name v (mt_NodeLatencyMs m)\<rparr>"

definition GetTotalStats :: "metrics \<Rightarrow> int \<times> int" where
  "GetTotalStats m = (mt_totalBytesIn m, mt_totalBytesOut m)"

lemma active_sessions_balance:
  "in_int64 (mt_activeCount m) \<Longrightarrow> GetActiveSessions (DecActiveSessions (IncActiveSessions m)) = GetActiveSessions m"
  using int64_add_left [of "mt_activeCount m + 1" "- 1"]
  by (simp add: GetActiveSessions_def IncActiveSessions_def DecActiveSessions_def Let_def int64_id)

section \<open>The buffer pool\<close>

text \<open>
  \<^verbatim>\<open>sync.Pool\<close> may drop what it holds at any time: \<open>GetBuf\<close> takes an index that says which pooled
  buffer is returned, if there is one. Only the lengths of the buffers matter.
\<close>

definition BufferSize :: nat where "BufferSize = 32 * 1024"

definition GetBuf :: "nat \<Rightarrow> nat list \<Rightarrow> nat \<times> nat list" where
  "GetBuf i pool = (if i < length pool then (pool ! i, take i pool @ drop (Suc i) pool) else (BufferSize, pool))"

definition PutBuf :: "nat \<Rightarrow> nat list \<Rightarrow> nat list" where
  "PutBuf len pool = (if len \<noteq> BufferSize then pool else len # pool)"

definition pool_ok :: "nat list \<Rightarrow> bool" where
  "pool_ok pool \<longleftrightarrow> list_all (\<lambda>n. n = BufferSize) pool"

lemma pool_ok_PutBuf: "pool_ok pool \<Longrightarrow> pool_ok (PutBuf len pool)"
  by (simp add: pool_ok_def PutBuf_def)

lemma pool_ok_GetBuf: "pool_ok pool \<Longrightarrow> GetBuf i pool = (len, pool') \<Longrightarrow> len = BufferSize \<and> pool_ok pool'"
  using list_all_nth_removed [of "\<lambda>n. n = BufferSize" pool i] by (auto simp: pool_ok_def GetBuf_def split: if_splits)

section \<open>Properties\<close>

text \<open>
  A quota is never exceeded by accepted traffic. For a user with a positive limit and fresh
  counter, whatever sequence of usage reports of this and other users is made, in whatever order
  concurrent relays make them, the amounts of this user that are accepted add up to at most
  the limit, as long as the total fits in 64 bits.
\<close>

theorem quota_never_exceeded:
  assumes "GetStatus u m = (0, limit)" "0 < limit" "int (\<Sum>(v, n)\<leftarrow>xs. if v = u then n else 0) < 2 ^ 63"
  shows "int (fst (usages u xs m)) \<le> limit"
  using usages_bound [OF assms(1,2), of xs "fst (usages u xs m)" "snd (usages u xs m)"] assms(2,3) by auto

theorem quota_never_exceeded_witness:
  "int (fst (usages ''ann'' [(''ann'', 60), (''bob'', 500), (''ann'', 60), (''ann'', 30)] (SetLimit ''ann'' 100 NewQuotaManager))) \<le> 100"
  using quota_never_exceeded [of "''ann''" "SetLimit ''ann'' 100 NewQuotaManager" 100
      "[(''ann'', 60), (''bob'', 500), (''ann'', 60), (''ann'', 30)]"]
  by (simp add: quota_status NewQuotaManager_def get0_def)

text \<open>
  A relay buffer always fits the token bucket. Every limiter that exists, the default or an
  updated one, has a burst of at least one mebibyte, more than the 32 KiB a relay asks for at
  once; without a rate there is no limiter and no waiting.
\<close>

theorem limiter_burst_fits:
  assumes "in_int64 r"
  shows "(case NewBandwidthLimiter r of None \<Rightarrow> r \<le> 0 | Some l \<Rightarrow> int BufferSize \<le> 1048576 \<and> 1048576 \<le> bl_burst l)"
proof (cases "r \<le> 0")
  case False
  then have "in_int64 (r div 4 + 1024 * 1024)" using assms by (simp add: in_int64_def)
  with False show ?thesis by (simp add: NewBandwidthLimiter_def int64_id BufferSize_def)
qed (simp add: NewBandwidthLimiter_def)

theorem limiter_burst_fits_witness:
  "case NewBandwidthLimiter 4000 of None \<Rightarrow> False | Some l \<Rightarrow> int BufferSize \<le> bl_burst l"
  using limiter_burst_fits [of 4000] by (simp add: in_int64_def NewBandwidthLimiter_def)

end
