(* ===== verification/Relaying.thy ===== *)
theory Relaying
  imports Go_IO Go_Net Accounting
begin

text \<open>
  Relaying between two connections (\<^verbatim>\<open>internal/common/utils.go\<close>). \<open>relay_round\<close> is one round of the
  loop of \<^verbatim>\<open>Relay\<close>: read through the optional limiter, account, write. \<open>Relay\<close> iterates it until it
  returns an error. \<^verbatim>\<open>DualRelay\<close> runs one loop per direction: \<open>dual_step\<close> interleaves their rounds
  with each other, with the traffic of other sessions of the user, and with a cancellation.
\<close>

section \<open>One direction\<close>

text \<open>What a relay shares with the rest of the process. \<open>re_errors\<close> logs the labels of \<^verbatim>\<open>RelayErrors\<close>.\<close>

record 'l relay_env =
  re_quota :: "QuotaManager option"
  re_limiter :: "'l option"
  re_cancelled :: bool
  re_metrics :: metrics
  re_errors :: "string list"

type_synonym 'l waiter = "bool \<Rightarrow> nat \<Rightarrow> 'l \<Rightarrow> error option \<times> 'l"

text \<open>\<^verbatim>\<open>LimitReader.Read\<close>, or the plain read when there is no limiter.\<close>

definition limited_read ::
  "'l waiter \<Rightarrow> conn \<Rightarrow> 'l relay_env \<Rightarrow> (bytes \<times> error option) \<times> conn \<times> 'l relay_env" where
  "limited_read waitN src env = (case conn_read src BufferSize of ((bs, e), src') \<Rightarrow>
     if bs \<noteq> [] \<and> re_limiter env \<noteq> None then
       (case bl_Wait waitN (re_cancelled env) (length bs) (re_limiter env) of (we, l) \<Rightarrow>
          ((bs, if we \<noteq> None then we else e), src', env\<lparr>re_limiter := l\<rparr>))
     else ((bs, e), src', env))"

text \<open>The quota check; the flag says that the quota is exceeded.\<close>

definition charge :: "string \<Rightarrow> nat \<Rightarrow> 'l relay_env \<Rightarrow> bool \<times> 'l relay_env" where
  "charge userID n env = (case re_quota env of
     None \<Rightarrow> (False, env)
   | Some q \<Rightarrow> if userID = [] then (False, env)
       else (case AddUsage userID (int n) q of (exceeded, q') \<Rightarrow> (exceeded, env\<lparr>re_quota := Some q'\<rparr>)))"

definition count_bytes :: "bool \<Rightarrow> nat \<Rightarrow> 'l relay_env \<Rightarrow> 'l relay_env" where
  "count_bytes upstream n env = env\<lparr>re_metrics :=
     (if upstream then AddBytesIn (int n) (AddBytesTransferred ''upstream'' ''relay'' n (re_metrics env))
      else AddBytesOut (int n) (AddBytesTransferred ''downstream'' ''relay'' n (re_metrics env)))\<rparr>"

definition log_error :: "string \<Rightarrow> 'l relay_env \<Rightarrow> 'l relay_env" where
  "log_error l env = env\<lparr>re_errors := re_errors env @ [l]\<rparr>"

text \<open>
  One round: \<open>Some e\<close> when \<^verbatim>\<open>Relay\<close> returns \<open>e\<close>. \<open>tot\<close> is \<^verbatim>\<open>totalRead\<close>.
\<close>

definition relay_round ::
  "'l waiter \<Rightarrow> string \<Rightarrow> bool \<Rightarrow> conn \<Rightarrow> conn \<Rightarrow> int \<Rightarrow> 'l relay_env
     \<Rightarrow> error option \<times> conn \<times> conn \<times> int \<times> 'l relay_env" where
  "relay_round waitN userID upstream src dst tot env =
     (case limited_read waitN src env of ((bs, e), src, env) \<Rightarrow>
      let finish = (\<lambda>dst tot env. (e, src, dst, tot,
            if e \<noteq> None \<and> e \<noteq> Some EOF then log_error ''read'' env else env)) in
      if bs = [] then finish dst tot env
      else (case charge userID (length bs) env of
          (True, env) \<Rightarrow> (Some (New ''traffic quota exceeded''), src, dst, tot, log_error ''quota_exceeded'' env)
        | (False, env) \<Rightarrow>
            let tot = int64 (tot + int (length bs)); env = count_bytes upstream (length bs) env in
            (case conn_write dst bs of
               (Some we, dst) \<Rightarrow> (Some we, src, dst, tot, log_error ''write'' env)
             | (None, dst) \<Rightarrow> finish dst tot env)))"

section \<open>What a round does to the connections\<close>

lemma conn_read_frame:
  "conn_read c n = (r, c') \<Longrightarrow> outq c' = outq c \<and> wlimit c' = wlimit c \<and> is_closed c' = is_closed c"
  by (auto simp: conn_read_def split: if_splits prod.splits option.splits)

lemma limited_read_spec:
  assumes "limited_read waitN src env = ((bs, e), src', env')" "\<not> is_closed src"
  shows "arriving (inq src) = bs @ arriving (inq src') \<and> outq src' = outq src \<and> is_closed src' = is_closed src
    \<and> re_quota env' = re_quota env \<and> length bs \<le> BufferSize \<and> (bs = [] \<longrightarrow> e \<noteq> None)"
proof -
  obtain bs0 e0 s0 where r: "conn_read src BufferSize = ((bs0, e0), s0)" by (metis prod.exhaust)
  have eq: "bs = bs0" "src' = s0" "re_quota env' = re_quota env" "bs0 = [] \<Longrightarrow> e = e0"
    using assms(1) by (auto simp: limited_read_def r split: if_splits prod.splits)
  have pos: "0 < BufferSize" by (simp add: BufferSize_def)
  have "conn_open src" using assms(2) by (simp add: conn_open_def)
  then have "length bs0 \<le> BufferSize \<and> (bs0 = [] \<longrightarrow> e0 \<noteq> None)"
    using cr.rd_data [of src BufferSize] cr.rd_end [of src BufferSize] pos r by (cases "conn_rem src = []") auto
  with eq conn_read_total [OF r assms(2)] conn_read_frame [OF r] show ?thesis by auto
qed

lemma conn_write_spec:
  "conn_write c bs = (e, c') \<Longrightarrow> \<exists>k. outq c' = outq c @ take k bs \<and> (e = None \<longrightarrow> take k bs = bs)"
proof -
  assume w: "conn_write c bs = (e, c')"
  consider "c' = c" "e \<noteq> None" | "outq c' = outq c @ bs" | k where "outq c' = outq c @ take k bs" "e \<noteq> None"
    using w by (auto simp: conn_write_def split: if_splits option.splits)
  then show ?thesis
  proof cases
    case 1
    then show ?thesis by (intro exI [of _ 0]) auto
  next
    case 2
    then show ?thesis by (intro exI [of _ "length bs"]) simp
  next
    case 3
    then show ?thesis by blast
  qed
qed

text \<open>
  The outcome of a round: \<open>bs\<close> was read, its first part \<open>fwd\<close> was written (all of it unless the
  loop ends), and only the read queue of one connection and the output of the other change.
\<close>

lemma relay_round_spec:
  assumes "relay_round waitN user up src dst tot env = (e, src', dst', tot', env')" "\<not> is_closed src"
  shows "\<exists>bs k. arriving (inq src) = bs @ arriving (inq src') \<and> outq dst' = outq dst @ take k bs
    \<and> (e = None \<longrightarrow> take k bs = bs \<and> bs \<noteq> []) \<and> outq src' = outq src \<and> inq dst' = inq dst
    \<and> is_closed src' = is_closed src \<and> is_closed dst' = is_closed dst
    \<and> re_quota env' = (if bs = [] then re_quota env else re_quota (snd (charge user (length bs) env)))
    \<and> (take k bs \<noteq> [] \<longrightarrow> \<not> fst (charge user (length bs) env)) \<and> length bs \<le> BufferSize"
proof -
  obtain bs e1 s1 env1 where r: "limited_read waitN src env = ((bs, e1), s1, env1)" by (metis prod.exhaust)
  note rd = limited_read_spec [OF r assms(2)]
  have ch: "fst (charge user n env1) = fst (charge user n env)" "re_quota (snd (charge user n env1)) = re_quota (snd (charge user n env))" for n
    using rd by (auto simp: charge_def split: option.splits prod.splits)
  obtain ex env2 where c: "charge user (length bs) env1 = (ex, env2)" by (cases "charge user (length bs) env1")
  obtain we d1 where w: "conn_write dst bs = (we, d1)" by (cases "conn_write dst bs")
  obtain k where k: "outq d1 = outq dst @ take k bs" "we = None \<longrightarrow> take k bs = bs" using conn_write_spec [OF w] by blast
  note df = conn_write_frame [OF w]
  consider (empty) "bs = []" | (exceeded) "bs \<noteq> []" ex | (sent) "bs \<noteq> []" "\<not> ex" by blast
  then show ?thesis
  proof cases
    case empty
    with assms(1) r rd show ?thesis
      by (intro exI [of _ "[]"]) (auto simp: relay_round_def Let_def log_error_def split: if_splits)
  next
    case exceeded
    with assms(1) r c have "e \<noteq> None" "src' = s1" "dst' = dst" "re_quota env' = re_quota env2"
      by (auto simp: relay_round_def Let_def log_error_def)
    with rd ch(2) [of "length bs"] c exceeded(1) show ?thesis by (intro exI [of _ bs] exI [of _ 0]) auto
  next
    case sent
    have "src' = s1" "dst' = d1" "re_quota env' = re_quota env2" "e = None \<longrightarrow> we = None"
      using assms(1) r c w sent by (auto simp: relay_round_def Let_def log_error_def count_bytes_def split: option.splits if_splits)
    with rd ch [of "length bs"] c sent k df show ?thesis by (intro exI [of _ bs] exI [of _ k]) auto
  qed
qed

text \<open>The loop ends: a round that goes on has consumed a byte.\<close>

lemma relay_round_shrinks:
  assumes "relay_round waitN user up src dst tot env = (None, src', dst', tot', env')"
  shows "length (arriving (inq src')) < length (arriving (inq src))"
proof (cases "is_closed src")
  case True
  then have "conn_read src BufferSize = (([], Some ErrClosed), src)" by (simp add: conn_read_def)
  with assms show ?thesis by (simp add: relay_round_def limited_read_def Let_def)
next
  case False
  from relay_round_spec [OF assms this] show ?thesis by auto
qed

function Relay ::
  "'l waiter \<Rightarrow> string \<Rightarrow> bool \<Rightarrow> conn \<Rightarrow> conn \<Rightarrow> int \<Rightarrow> 'l relay_env
     \<Rightarrow> error \<times> conn \<times> conn \<times> int \<times> 'l relay_env" where
  "Relay waitN userID upstream src dst tot env =
     (case relay_round waitN userID upstream src dst tot env of
        (Some e, src, dst, tot, env) \<Rightarrow> (e, src, dst, tot, env)
      | (None, src, dst, tot, env) \<Rightarrow> Relay waitN userID upstream src dst tot env)"
  by pat_completeness auto
termination
  by (relation "measure (\<lambda>(w, u, b, src, dst, t, env). length (arriving (inq src)))")
    (auto dest!: relay_round_shrinks [OF sym])

declare Relay.simps [simp del]

section \<open>Sessions\<close>

record SessionInfo =
  si_ID :: string
  si_UserID :: string
  si_Src :: string
  si_Dst :: string
  si_StartTime :: int
  si_BytesSent :: int

type_synonym session_map = "(string \<times> SessionInfo) list"

definition MaskAddr :: "string \<Rightarrow> string" where
  "MaskAddr addr = (case SplitHostPort addr of
     Inl _ \<Rightarrow> ''***''
   | Inr (host, port) \<Rightarrow>
       let parts = Split host ''.'' in
       if 4 \<le> length parts then parts ! 0 @ ''.'' @ parts ! 1 @ ''.'' @ parts ! 2 @ ''.*:'' @ port
       else if 4 < length host then take 4 host @ ''***:'' @ port
       else ''***:'' @ port)"

text \<open>The deferred update at the end of \<^verbatim>\<open>Relay\<close>: the session may be gone by then.\<close>

definition relay_account :: "string \<Rightarrow> int \<Rightarrow> session_map \<Rightarrow> session_map" where
  "relay_account sessionID totalRead m =
     (if sessionID \<noteq> [] \<and> 0 < totalRead then (case map_of m sessionID of
        None \<Rightarrow> m
      | Some s \<Rightarrow> AList.update sessionID (s\<lparr>si_BytesSent := int64 (si_BytesSent s + totalRead)\<rparr>) m)
      else m)"

text \<open>\<^verbatim>\<open>DualRelay\<close> before it starts the two loops, and its deferred calls.\<close>

definition dual_begin :: "string \<Rightarrow> string \<Rightarrow> int \<Rightarrow> conn \<Rightarrow> conn \<Rightarrow> metrics \<times> session_map \<Rightarrow> metrics \<times> session_map" where
  "dual_begin sessionID userID now c1 c2 mm = (case mm of (mt, m) \<Rightarrow>
     (IncActiveSessions mt,
      if sessionID \<noteq> [] then
        AList.update sessionID \<lparr>si_ID = sessionID, si_UserID = userID, si_Src = MaskAddr (raddr c1),
          si_Dst = MaskAddr (raddr c2), si_StartTime = now, si_BytesSent = 0\<rparr> m
      else m))"

definition dual_end :: "string \<Rightarrow> metrics \<times> session_map \<Rightarrow> metrics \<times> session_map" where
  "dual_end sessionID mm = (case mm of (mt, m) \<Rightarrow>
     (DecActiveSessions mt, if sessionID \<noteq> [] then AList.delete sessionID m else m))"

section \<open>Both directions\<close>

record 'l dual =
  du_c1 :: conn
  du_c2 :: conn
  du_up :: "error option"
  du_down :: "error option"
  du_total_up :: int
  du_total_down :: int
  du_env :: "'l relay_env"

inductive dual_step :: "'l waiter \<Rightarrow> string \<Rightarrow> 'l dual \<Rightarrow> 'l dual \<Rightarrow> bool" for waitN user where
  upstream: "du_up s = None \<Longrightarrow>
     relay_round waitN user True (du_c1 s) (du_c2 s) (du_total_up s) (du_env s) = (e, c1, c2, t, env) \<Longrightarrow>
     dual_step waitN user s (s\<lparr>du_c1 := c1, du_c2 := c2, du_up := e, du_total_up := t, du_env := env\<rparr>)"
| downstream: "du_down s = None \<Longrightarrow>
     relay_round waitN user False (du_c2 s) (du_c1 s) (du_total_down s) (du_env s) = (e, c2, c1, t, env) \<Longrightarrow>
     dual_step waitN user s (s\<lparr>du_c1 := c1, du_c2 := c2, du_down := e, du_total_down := t, du_env := env\<rparr>)"
| other_session: "re_quota (du_env s) = Some q \<Longrightarrow> get0 (qm_used q) user + int n < 2 ^ 62 \<Longrightarrow>
     dual_step waitN user s (s\<lparr>du_env := (du_env s)\<lparr>re_quota := Some (snd (AddUsage user (int n) q))\<rparr>\<rparr>)"
| cancel: "dual_step waitN user s (s\<lparr>du_env := (du_env s)\<lparr>re_cancelled := True\<rparr>\<rparr>)"

inductive_cases dual_stepE: "dual_step waitN user s s'"

definition dual_start :: "conn \<Rightarrow> conn \<Rightarrow> 'l relay_env \<Rightarrow> 'l dual" where
  "dual_start c1 c2 env = \<lparr>du_c1 = c1, du_c2 = c2, du_up = None, du_down = None,
     du_total_up = 0, du_total_down = 0, du_env = env\<rparr>"

section \<open>Invariants of both directions\<close>

text \<open>One direction: what the destination has got and what is left to arrive.\<close>

definition flow_inv :: "bytes \<Rightarrow> error option \<Rightarrow> bytes \<Rightarrow> bytes \<Rightarrow> bool" where
  "flow_inv whole st got left \<longleftrightarrow> (st = None \<longrightarrow> got @ left = whole) \<and> (\<exists>xs. got @ xs = whole)"

lemma flow_inv_round:
  assumes "flow_inv whole None got (bs @ left)" "e = None \<longrightarrow> take k bs = bs"
  shows "flow_inv whole e (got @ take k bs) left"
proof -
  have "take k bs @ drop k bs @ left = bs @ left" by (metis append_assoc append_take_drop_id)
  moreover have "whole = got @ bs @ left" using assms(1) by (simp add: flow_inv_def)
  ultimately have "whole = (got @ take k bs) @ (drop k bs @ left)" by simp
  then show ?thesis using assms by (auto simp: flow_inv_def)
qed

definition dual_inv :: "bytes \<Rightarrow> bytes \<Rightarrow> 'l dual \<Rightarrow> bool" where
  "dual_inv w12 w21 s \<longleftrightarrow> \<not> is_closed (du_c1 s) \<and> \<not> is_closed (du_c2 s)
     \<and> flow_inv w12 (du_up s) (outq (du_c2 s)) (arriving (inq (du_c1 s)))
     \<and> flow_inv w21 (du_down s) (outq (du_c1 s)) (arriving (inq (du_c2 s)))"

lemma dual_inv_step: "dual_step waitN user s s' \<Longrightarrow> dual_inv w12 w21 s \<Longrightarrow> dual_inv w12 w21 s'"
proof (induction rule: dual_step.induct)
  case (upstream s e c1 c2 t env)
  have o: "\<not> is_closed (du_c1 s)" using upstream.prems by (simp add: dual_inv_def)
  obtain bs k where r: "arriving (inq (du_c1 s)) = bs @ arriving (inq c1)" "outq c2 = outq (du_c2 s) @ take k bs"
      "e = None \<longrightarrow> take k bs = bs" "outq c1 = outq (du_c1 s)" "inq c2 = inq (du_c2 s)"
      "is_closed c1 = is_closed (du_c1 s)" "is_closed c2 = is_closed (du_c2 s)"
    using relay_round_spec [OF upstream.hyps(2) o] by blast
  with upstream show ?case using flow_inv_round [of w12 "outq (du_c2 s)" bs "arriving (inq c1)" e k]
    by (simp add: dual_inv_def)
next
  case (downstream s e c2 c1 t env)
  have o: "\<not> is_closed (du_c2 s)" using downstream.prems by (simp add: dual_inv_def)
  obtain bs k where r: "arriving (inq (du_c2 s)) = bs @ arriving (inq c2)" "outq c1 = outq (du_c1 s) @ take k bs"
      "e = None \<longrightarrow> take k bs = bs" "outq c2 = outq (du_c2 s)" "inq c1 = inq (du_c1 s)"
      "is_closed c2 = is_closed (du_c2 s)" "is_closed c1 = is_closed (du_c1 s)"
    using relay_round_spec [OF downstream.hyps(2) o] by blast
  with downstream show ?case using flow_inv_round [of w21 "outq (du_c1 s)" bs "arriving (inq c2)" e k]
    by (simp add: dual_inv_def)
qed (simp_all add: dual_inv_def)

lemma dual_inv_reach:
  assumes "(dual_step waitN user)\<^sup>*\<^sup>* (dual_start c1 c2 env) s" "\<not> is_closed c1" "\<not> is_closed c2"
  shows "dual_inv (outq c2 @ arriving (inq c1)) (outq c1 @ arriving (inq c2)) s"
  using assms(1)
proof (induction rule: rtranclp_induct)
  case base
  then show ?case using assms(2,3) by (simp add: dual_inv_def dual_start_def flow_inv_def)
qed (rule dual_inv_step)

text \<open>
  The quota: what was forwarded in both directions is at most what was charged, and charged
  traffic is only forwarded within the limit. \<open>A\<close> is what may still arrive at the start.
\<close>

definition quota_inv :: "string \<Rightarrow> int \<Rightarrow> int \<Rightarrow> int \<Rightarrow> 'l dual \<Rightarrow> bool" where
  "quota_inv user limit base A s \<longleftrightarrow> (\<exists>q used. re_quota (du_env s) = Some q \<and> GetStatus user q = (used, limit)
     \<and> int (length (outq (du_c1 s)) + length (outq (du_c2 s))) - base \<le> min used limit
     \<and> 0 \<le> used
     \<and> used + int (length (arriving (inq (du_c1 s))) + length (arriving (inq (du_c2 s)))) < 2 ^ 62 + A
     \<and> int (length (arriving (inq (du_c1 s))) + length (arriving (inq (du_c2 s)))) \<le> A)"

lemma charge_spec:
  assumes "re_quota env = Some q" "GetStatus user q = (used, limit)" "user \<noteq> []" "0 < limit"
    and "0 \<le> used" "used + int n < 2 ^ 63"
  shows "fst (charge user n env) = (limit < used + int n)
    \<and> (\<exists>q'. re_quota (snd (charge user n env)) = Some q' \<and> GetStatus user q' = (used + int n, limit))"
proof -
  have u: "get0 (qm_used q) user = used" "get0 (qm_limits q) user = limit" using assms(2) by (simp_all add: GetStatus_def)
  have "int64 (used + int n) = used + int n" using assms(5,6) by (intro int64_id) (simp add: in_int64_def)
  then show ?thesis using assms(1,3,4) u quota_status(1) [of user user "int n" q]
    by (auto simp: charge_def AddUsage_def Let_def split: prod.splits)
qed

lemma quota_round:
  assumes "user \<noteq> []" "0 < limit" "A < 2 ^ 62" "\<not> is_closed src"
    and "re_quota env = Some q" "GetStatus user q = (used, limit)" "0 \<le> used"
    and "relay_round waitN user up src dst t env = (e, src', dst', t', env')"
    and "used + int (length (arriving (inq src)) + r) < 2 ^ 62 + A" "int (length (arriving (inq src)) + r) \<le> A"
    and "int (length (outq dst)) + o1 - base \<le> min used limit"
  shows "\<exists>q' used'. re_quota env' = Some q' \<and> GetStatus user q' = (used', limit) \<and> 0 \<le> used'
    \<and> int (length (outq dst')) + o1 - base \<le> min used' limit
    \<and> used' + int (length (arriving (inq src')) + r) < 2 ^ 62 + A \<and> int (length (arriving (inq src')) + r) \<le> A"
proof -
  obtain bs k where s: "arriving (inq src) = bs @ arriving (inq src')" "outq dst' = outq dst @ take k bs"
      "re_quota env' = (if bs = [] then re_quota env else re_quota (snd (charge user (length bs) env)))"
      "take k bs \<noteq> [] \<longrightarrow> \<not> fst (charge user (length bs) env)"
    using relay_round_spec [OF assms(8,4)] by blast
  show ?thesis
  proof (cases "bs = []")
    case True
    with s assms show ?thesis by auto
  next
    case False
    have "used + int (length bs) < 2 ^ 63" using assms(3,9) s(1) by simp
    then obtain q' where c: "fst (charge user (length bs) env) = (limit < used + int (length bs))"
        "re_quota env' = Some q'" "GetStatus user q' = (used + int (length bs), limit)"
      using charge_spec [OF assms(5,6,1,2,7)] s(3) False by auto
    have "int (length (outq dst')) + o1 - base \<le> min (used + int (length bs)) limit"
    proof (cases "take k bs = []")
      case True
      then have "outq dst' = outq dst" using s(2) by (simp only: append_Nil2)
      then show ?thesis using assms(11) by simp
    next
      case False
      then have "used + int (length bs) \<le> limit" using s(4) c(1) by auto
      moreover have "length (take k bs) \<le> length bs" by simp
      ultimately show ?thesis using s(2) assms(11) by (auto simp: min_def)
    qed
    with c s(1) assms(7,9,10) show ?thesis by auto
  qed
qed

lemma quota_inv_step:
  assumes "dual_step waitN user s s'" "user \<noteq> []" "0 < limit" "A < 2 ^ 62" "dual_inv w12 w21 s" "quota_inv user limit base A s"
  shows "quota_inv user limit base A s'"
  using assms(1)
proof (cases rule: dual_step.cases)
  case (upstream e c1 c2 t env)
  obtain q used where q: "re_quota (du_env s) = Some q" "GetStatus user q = (used, limit)" "0 \<le> used"
      "int (length (outq (du_c2 s))) + int (length (outq (du_c1 s))) - base \<le> min used limit"
      "used + int (length (arriving (inq (du_c1 s))) + length (arriving (inq (du_c2 s)))) < 2 ^ 62 + A"
      "int (length (arriving (inq (du_c1 s))) + length (arriving (inq (du_c2 s)))) \<le> A"
    using assms(6) by (auto simp: quota_inv_def add.commute)
  have o: "\<not> is_closed (du_c1 s)" using assms(5) by (simp add: dual_inv_def)
  have "outq c1 = outq (du_c1 s)" "inq c2 = inq (du_c2 s)" using relay_round_spec [OF upstream(3) o] by auto
  with quota_round [OF assms(2,3,4) o q(1,2,3) upstream(3) q(5,6,4)] upstream(1) show ?thesis
    by (auto simp: quota_inv_def add.commute)
next
  case (downstream e c2 c1 t env)
  obtain q used where q: "re_quota (du_env s) = Some q" "GetStatus user q = (used, limit)" "0 \<le> used"
      "int (length (outq (du_c1 s))) + int (length (outq (du_c2 s))) - base \<le> min used limit"
      "used + int (length (arriving (inq (du_c2 s))) + length (arriving (inq (du_c1 s)))) < 2 ^ 62 + A"
      "int (length (arriving (inq (du_c2 s))) + length (arriving (inq (du_c1 s)))) \<le> A"
    using assms(6) by (auto simp: quota_inv_def add.commute)
  have o: "\<not> is_closed (du_c2 s)" using assms(5) by (simp add: dual_inv_def)
  have "outq c2 = outq (du_c2 s)" "inq c1 = inq (du_c1 s)" using relay_round_spec [OF downstream(3) o] by auto
  with quota_round [OF assms(2,3,4) o q(1,2,3) downstream(3) q(5,6,4)] downstream(1) show ?thesis
    by (auto simp: quota_inv_def add.commute)
next
  case (other_session q n)
  obtain used where q: "GetStatus user q = (used, limit)" "0 \<le> used" using assms(6) other_session(2) by (auto simp: quota_inv_def)
  then have u: "get0 (qm_used q) user = used" by (simp add: GetStatus_def)
  have "int64 (used + int n) = used + int n" using other_session(3) u q(2) by (intro int64_id) (simp add: in_int64_def)
  then have "GetStatus user (snd (AddUsage user (int n) q)) = (used + int n, limit)"
    using q u quota_status(1) [of user user "int n" q] by (simp add: GetStatus_def)
  with other_session assms(6) q u show ?thesis by (auto simp: quota_inv_def)
next
  case cancel
  with assms(6) show ?thesis by (simp add: quota_inv_def)
qed

lemma quota_inv_reach:
  assumes "(dual_step waitN user)\<^sup>*\<^sup>* (dual_start c1 c2 env) s" "\<not> is_closed c1" "\<not> is_closed c2"
    and "user \<noteq> []" "0 < limit" "re_quota env = Some q" "GetStatus user q = (0, limit)"
    and "A = int (length (arriving (inq c1)) + length (arriving (inq c2)))" "A < 2 ^ 62"
  shows "quota_inv user limit (int (length (outq c1) + length (outq c2))) A s"
  using assms(1)
proof (induction rule: rtranclp_induct)
  case base
  then show ?case using assms(5-8) by (simp add: quota_inv_def dual_start_def)
next
  case (step s s')
  then show ?case
    using quota_inv_step [OF step.hyps(2) assms(4,5,9) dual_inv_reach [OF step.hyps(1) assms(2,3)]] by blast
qed

section \<open>Properties\<close>

text \<open>
  A relay is transparent in both directions. Between two open connections, however the
  rounds of the two loops interleave, whatever the limiter does and whatever errors occur,
  each side has received, after what it had before, a prefix of what the other side
  sends; while a direction's loop has not ended, that prefix and what is still to arrive are all of it.
\<close>

theorem relay_transparent:
  assumes "(dual_step waitN user)\<^sup>*\<^sup>* (dual_start c1 c2 env) s" "\<not> is_closed c1" "\<not> is_closed c2"
  shows "(\<exists>xs. outq (du_c2 s) @ xs = outq c2 @ arriving (inq c1)) \<and> (\<exists>xs. outq (du_c1 s) @ xs = outq c1 @ arriving (inq c2))
    \<and> (du_up s = None \<longrightarrow> outq (du_c2 s) @ arriving (inq (du_c1 s)) = outq c2 @ arriving (inq c1))
    \<and> (du_down s = None \<longrightarrow> outq (du_c1 s) @ arriving (inq (du_c2 s)) = outq c1 @ arriving (inq c2))"
  using dual_inv_reach [OF assms] by (simp add: dual_inv_def flow_inv_def)

definition demo_env :: "QuotaManager option \<Rightarrow> unit relay_env" where
  "demo_env q = \<lparr>re_quota = q, re_limiter = None, re_cancelled = False,
     re_metrics = metrics0, re_errors = []\<rparr>"

definition demo_wait :: "unit waiter" where
  "demo_wait cancelled n l = (None, l)"

text \<open>A run of one upstream round.\<close>

definition demo_dual :: "QuotaManager option \<Rightarrow> unit dual" where
  "demo_dual q = (case relay_round demo_wait ''ann'' True (peer_sends [1, 2, 3]) (peer_sends [9]) 0 (demo_env q) of
     (e, c1, c2, t, env) \<Rightarrow> (dual_start (peer_sends [1, 2, 3]) (peer_sends [9]) (demo_env q))
       \<lparr>du_c1 := c1, du_c2 := c2, du_up := e, du_total_up := t, du_env := env\<rparr>)"

lemma demo_dual_reach:
  "(dual_step demo_wait ''ann'')\<^sup>*\<^sup>* (dual_start (peer_sends [1, 2, 3]) (peer_sends [9]) (demo_env q)) (demo_dual q)"
proof -
  let ?s = "dual_start (peer_sends [1, 2, 3]) (peer_sends [9]) (demo_env q)"
  obtain e c1 c2 t env where r:
    "relay_round demo_wait ''ann'' True (peer_sends [1, 2, 3]) (peer_sends [9]) 0 (demo_env q) = (e, c1, c2, t, env)"
    by (metis prod.exhaust)
  have "dual_step demo_wait ''ann'' ?s (demo_dual q)"
    using dual_step.upstream [of ?s demo_wait "''ann''" e c1 c2 t env] r by (simp add: demo_dual_def dual_start_def)
  then show ?thesis by (rule r_into_rtranclp)
qed

lemma demo_closed: "\<not> is_closed (peer_sends bs)" "arriving (inq (peer_sends bs)) = bs" "outq (peer_sends bs) = []" "wlimit (peer_sends bs) = None"
  by (simp_all add: peer_sends_def)

theorem relay_transparent_witness:
  "\<exists>xs. outq (du_c2 (demo_dual None)) @ xs = [1, 2, 3]"
  using relay_transparent [OF demo_dual_reach [of None] demo_closed(1) demo_closed(1)] by (simp add: demo_closed)

text \<open>
  A session cannot deliver more than the user's quota. With a positive limit and a fresh
  counter, in every interleaving of the two directions with the traffic of the user's other
  sessions, the bytes this session has delivered in both directions together are at most the
  limit (with totals below $2^{62}$).
\<close>

theorem relay_within_quota:
  assumes "(dual_step waitN user)\<^sup>*\<^sup>* (dual_start c1 c2 env) s" "\<not> is_closed c1" "\<not> is_closed c2"
    and "user \<noteq> []" "0 < limit" "re_quota env = Some q" "GetStatus user q = (0, limit)"
    and "int (length (arriving (inq c1)) + length (arriving (inq c2))) < 2 ^ 62"
  shows "int (length (outq (du_c1 s)) + length (outq (du_c2 s))) \<le> int (length (outq c1) + length (outq c2)) + limit"
  using quota_inv_reach [OF assms(1-7) refl assms(8)] by (auto simp: quota_inv_def)

theorem relay_within_quota_witness:
  "length (outq (du_c1 (demo_dual (Some (SetLimit ''ann'' 2 NewQuotaManager))))) +
   length (outq (du_c2 (demo_dual (Some (SetLimit ''ann'' 2 NewQuotaManager))))) \<le> 2"
  using relay_within_quota [OF demo_dual_reach [of "Some (SetLimit ''ann'' 2 NewQuotaManager)"] demo_closed(1) demo_closed(1),
      of 2 "SetLimit ''ann'' 2 NewQuotaManager"]
  by (simp add: demo_closed demo_env_def NewQuotaManager_def get0_def)

lemma Relay_all:
  assumes "conn_open src" "\<not> is_closed dst" "wlimit dst = None" "re_quota env = None" "re_limiter env = None"
  shows "\<exists>src' dst' t' env'. Relay waitN user up src dst t env = (conn_fin src, src', dst', t', env')
    \<and> outq dst' = outq dst @ conn_rem src"
  using assms
proof (induction "length (arriving (inq src))" arbitrary: src dst t env rule: less_induct)
  case less
  note op = less.prems(1) and dst = less.prems(2-5)
  have pos: "0 < BufferSize" by (simp add: BufferSize_def)
  show ?case
  proof (cases "conn_rem src = []")
    case True
    then obtain s' where "conn_read src BufferSize = (([], Some (conn_fin src)), s')"
      using cr.rd_end [OF op pos] by auto
    then have "\<exists>env'. relay_round waitN user up src dst t env = (Some (conn_fin src), s', dst, t, env')"
      using dst(4) by (auto simp: relay_round_def limited_read_def Let_def)
    with True show ?thesis by (auto simp: Relay.simps [of waitN user up src dst t env])
  next
    case False
    then obtain bs s' where r: "conn_read src BufferSize = ((bs, None), s')" "bs \<noteq> []" "conn_rem src = bs @ conn_rem s'"
        "conn_fin s' = conn_fin src" "conn_open s'"
      using cr.rd_data [OF op pos] by auto
    let ?d = "dst\<lparr>outq := outq dst @ bs\<rparr>" and ?env = "count_bytes up (length bs) env" and ?t = "int64 (t + int (length bs))"
    have round: "relay_round waitN user up src dst t env = (None, s', ?d, ?t, ?env)"
      using r(1,2) dst by (simp add: relay_round_def limited_read_def charge_def conn_write_def Let_def)
    have "\<exists>src' dst' t' env'. Relay waitN user up s' ?d ?t ?env = (conn_fin s', src', dst', t', env')
        \<and> outq dst' = outq ?d @ conn_rem s'"
      by (rule less.hyps [OF relay_round_shrinks [OF round]]) (use r(5) dst in \<open>simp_all add: count_bytes_def\<close>)
    then show ?thesis using r(3,4) by (auto simp: Relay.simps [of waitN user up src dst t env] round)
  qed
qed

text \<open>
  The relay loop of one direction delivers everything. Without quota and limiter, from
  an open connection to one that takes all writes, \<^verbatim>\<open>Relay\<close> returns the error that ends the
  source's data, and the destination has got all the data before it.
\<close>

theorem relay_delivers_all:
  assumes "conn_open src" "\<not> is_closed dst" "wlimit dst = None" "re_quota env = None" "re_limiter env = None"
  shows "\<exists>src' dst' t' env'. Relay waitN user up src dst 0 env = (conn_fin src, src', dst', t', env')
    \<and> outq dst' = outq dst @ conn_rem src"
  using Relay_all [OF assms] by blast

theorem relay_delivers_all_witness:
  "\<exists>src' dst' t' env'. Relay demo_wait [] True (peer_sends [1, 2, 3]) (peer_sends []) 0 (demo_env None) = (EOF, src', dst', t', env')
    \<and> outq dst' = [1, 2, 3]"
  using relay_delivers_all [of "peer_sends [1, 2, 3]" "peer_sends []" "demo_env None" demo_wait "[]" True]
  by (simp add: demo_closed demo_env_def)

text \<open>
  Kicking a session without a limiter has no effect. Cancelling the session's context only reaches the
  token bucket: when the session has no limiter, a round reads, writes and returns the same
  whether or not the context has been cancelled.
\<close>

theorem relay_ignores_cancel:
  assumes "re_limiter env = None" "relay_round waitN user up src dst t env = (e, src', dst', t', env')"
  shows "relay_round waitN user up src dst t (env\<lparr>re_cancelled := True\<rparr>) =
    (e, src', dst', t', env'\<lparr>re_cancelled := True\<rparr>)"
proof -
  let ?c = "\<lambda>env :: 'a relay_env. env\<lparr>re_cancelled := True\<rparr>"
  obtain bs e1 s1 where r: "conn_read src BufferSize = ((bs, e1), s1)" by (metis prod.exhaust)
  obtain ex env1 where c: "charge user (length bs) env = (ex, env1)" by (cases "charge user (length bs) env")
  obtain we d1 where w: "conn_write dst bs = (we, d1)" by (cases "conn_write dst bs")
  have "charge user (length bs) (?c env) = (ex, ?c env1)"
    using c by (auto simp: charge_def split: option.splits prod.splits if_splits)
  with assms r c w show ?thesis
    by (cases "bs = []"; cases ex; cases we)
      (auto simp: relay_round_def limited_read_def count_bytes_def log_error_def Let_def split: if_splits)
qed

theorem relay_ignores_cancel_witness:
  "fst (relay_round demo_wait [] True (peer_sends [1]) (peer_sends []) 0 ((demo_env None)\<lparr>re_cancelled := True\<rparr>)) =
   fst (relay_round demo_wait [] True (peer_sends [1]) (peer_sends []) 0 (demo_env None))"
proof -
  obtain e s d t env where r: "relay_round demo_wait [] True (peer_sends [1]) (peer_sends []) 0 (demo_env None) = (e, s, d, t, env)"
    by (metis prod.exhaust)
  have "re_limiter (demo_env None) = None" by (simp add: demo_env_def)
  from relay_ignores_cancel [OF this r] r show ?thesis by simp
qed

text \<open>
  Session records mask IPv4 addresses: what is stored for an IPv4 peer does not depend on
  the last byte of the address, and keeps the port.
\<close>

theorem mask_hides_last_byte:
  "MaskAddr (JoinHostPort (IP_String [a, b, c, d]) (nat_to_dec p)) = MaskAddr (JoinHostPort (IP_String [a, b, c, d']) (nat_to_dec p))"
proof -
  have nd: "CHR ''.'' \<notin> set (nat_to_dec n)" for n by (rule nat_to_dec_notin) (simp add: is_digit_def)
  have "MaskAddr (JoinHostPort (IP_String [a, b, c, x]) (nat_to_dec p)) =
      nat_to_dec (unat a) @ ''.'' @ nat_to_dec (unat b) @ ''.'' @ nat_to_dec (unat c) @ ''.*:'' @ nat_to_dec p" for x
  proof -
    have s: "SplitHostPort (JoinHostPort (IP_String [a, b, c, x]) (nat_to_dec p)) = Inr (IP_String [a, b, c, x], nat_to_dec p)"
      by (intro Split_Join_HostPort IP_String_plain) auto
    have ip: "IP_String [a, b, c, x] = Join (map (\<lambda>w. nat_to_dec (unat w)) [a, b, c, x]) ''.''"
      by (simp add: IP_String_def To4_def v4_string_def)
    have "Split (IP_String [a, b, c, x]) ''.'' = map (\<lambda>w. nat_to_dec (unat w)) [a, b, c, x]"
      unfolding ip by (rule Split_Join) (auto simp: nd)
    then show ?thesis by (simp add: MaskAddr_def s Let_def eval_nat_numeral)
  qed
  then show ?thesis by simp
qed

end
