(* ===== verification/Sniffer.thy ===== *)
theory Sniffer
  imports Go_IO Go_Net
begin

text \<open>
  Protocol sniffing (\<^verbatim>\<open>internal/common/sniffer.go\<close>): the first bytes of a connection are peeked
  through a \<^verbatim>\<open>bufio.Reader\<close> to find the server name of a TLS ClientHello or the Host header of
  an HTTP request. The parser indexes and slices what the peer sent; every access is written
  with Go's bounds check, so that the absence of panics is a property. An expired read
  deadline is an event of the connection.
\<close>

section \<open>Definitions\<close>

record SniffedResult =
  sr_Protocol :: string
  sr_Domain :: string

lemma res_bind_cong [fundef_cong]: "r = r' \<Longrightarrow> (\<And>x. r' = Inr x \<Longrightarrow> f x = g x) \<Longrightarrow> res_bind r f = res_bind r' g"
  by (cases r') auto

text \<open>The loop over the extensions, from \<open>pos\<close> to \<open>fin\<close>. \<open>None\<close> is the result \<^verbatim>\<open>"", false\<close>.\<close>

function sni_ext :: "bytes \<Rightarrow> nat \<Rightarrow> nat \<Rightarrow> string option res" where
  "sni_ext d fin pos =
     (if \<not> pos + 4 \<le> fin then Inr None
      else res_bind (go_slice d pos (pos + 2)) (\<lambda>eType.
        res_bind (go_slice d (pos + 2) (pos + 4)) (\<lambda>l.
          let eLen = unat (be_get16 l); p = pos + 4 in
          if be_get16 eType = 0 then
            if fin < p + eLen then Inr None
            else let snPos = p + 2 in
              if p + eLen < snPos + 3 then Inr None
              else res_bind (go_slice d (snPos + 1) (snPos + 3)) (\<lambda>n.
                let nameLen = unat (be_get16 n) in
                if p + eLen < snPos + 3 + nameLen then Inr None
                else res_bind (go_slice d (snPos + 3) (snPos + 3 + nameLen)) (\<lambda>s. Inr (Some (string_of_bytes s))))
          else sni_ext d fin (p + eLen))))"
  by pat_completeness auto
termination
  by (relation "measure (\<lambda>(d, fin, pos). fin - pos)") auto

declare sni_ext.simps [simp del]

text \<open>The handshake message: fixed part, session id, cipher suites, compression methods, extensions.\<close>

definition sni_of :: "bytes \<Rightarrow> string option res" where
  "sni_of d =
     (if length d < 4 then Inr None else
      res_bind (go_index d 0) (\<lambda>ty. if ty \<noteq> 1 then Inr None else
      let pos = 4 + 2 + 32 in
      if length d < pos + 1 then Inr None else
      res_bind (go_index d pos) (\<lambda>sessionIDLen.
      let pos = pos + 1 + unat sessionIDLen in
      if length d < pos + 2 then Inr None else
      res_bind (go_slice d pos (pos + 2)) (\<lambda>cl.
      let pos = pos + 2 + unat (be_get16 cl) in
      if length d < pos + 1 then Inr None else
      res_bind (go_index d pos) (\<lambda>compLen.
      let pos = pos + 1 + unat compLen in
      if length d < pos + 2 then Inr None else
      res_bind (go_slice d pos (pos + 2)) (\<lambda>el.
      let pos = pos + 2; fin = min (pos + unat (be_get16 el)) (length d) in
      sni_ext d fin pos))))))"

definition sniffTLS :: "conn bufio \<Rightarrow> string option res \<times> conn bufio" where
  "sniffTLS br = (case bufio_peek conn_read 5 br of
     ((_, Some e), br) \<Rightarrow> (Inr None, br)
   | ((header, None), br) \<Rightarrow>
       let len = min (unat (be_get16 (take 2 (drop 3 header)))) 4096 in
       (case bufio_peek conn_read (5 + len) br of
          ((dat, None), br) \<Rightarrow> (res_bind (go_slice dat 5 (length dat)) sni_of, br)
        | ((_, Some e), br) \<Rightarrow>
            (case bufio_peek conn_read (length (bbuf br)) br of
               ((dat, e2), br) \<Rightarrow>
                 if e2 \<noteq> None \<or> length dat < 5 then (Inr None, br)
                 else (res_bind (go_slice dat 5 (length dat)) sni_of, br))))"

text \<open>The search for the Host header in what has been peeked.\<close>

definition crlf :: string where "crlf = [char_of (13 :: nat), char_of (10 :: nat)]"

fun host_line :: "string list \<Rightarrow> string option" where
  "host_line [] = None"
| "host_line (line # lines) =
     (if HasPrefix (ToLower line) ''host:'' then
        (let host = TrimSpace (drop 5 line) in
         case SplitHostPort host of Inr (h, _) \<Rightarrow> Some h | Inl _ \<Rightarrow> Some host)
      else host_line lines)"

definition sniffHTTP :: "conn bufio \<Rightarrow> string option \<times> conn bufio" where
  "sniffHTTP br =
     (let n = length (bbuf br); n = (if n < 16 then 1024 else n); n = min n 4096 in
      case bufio_peek conn_read n br of
        ((peek, _), br) \<Rightarrow> (host_line (Split (string_of_bytes peek) crlf), br))"

definition http_methods :: "string list" where
  "http_methods = [''GET '', ''POST'', ''HEAD'', ''PUT '', ''DELE'', ''CONN'']"

text \<open>The wrapped connection is the reader with its source; a panic of the parser is passed on.\<close>

definition sniff_http_part :: "bytes \<Rightarrow> conn bufio \<Rightarrow> SniffedResult option \<times> conn bufio" where
  "sniff_http_part peek br =
     (if string_of_bytes (take 4 peek) \<in> set http_methods then
        (case sniffHTTP br of
           (Some d, br) \<Rightarrow> (Some \<lparr>sr_Protocol = ''http'', sr_Domain = d\<rparr>, br)
         | (None, br) \<Rightarrow> (None, br))
      else (None, br))"

definition SniffConn :: "conn \<Rightarrow> SniffedResult option res \<times> conn bufio" where
  "SniffConn c = (case bufio_peek conn_read 5 (bufio_new c) of
     ((_, Some e), br) \<Rightarrow> (Inr None, br)
   | ((peek, None), br) \<Rightarrow>
       if peek ! 0 = 0x16 \<and> peek ! 1 = 0x03 then
         (case sniffTLS br of
            (Inl e, br) \<Rightarrow> (Inl e, br)
          | (Inr (Some d), br) \<Rightarrow> (Inr (Some \<lparr>sr_Protocol = ''tls'', sr_Domain = d\<rparr>), br)
          | (Inr None, br) \<Rightarrow> (case sniff_http_part peek br of (r, br) \<Rightarrow> (Inr r, br)))
       else (case sniff_http_part peek br of (r, br) \<Rightarrow> (Inr r, br)))"

definition PeekedConn_Read :: "conn bufio \<Rightarrow> nat \<Rightarrow> (bytes \<times> error option) \<times> conn bufio" where
  "PeekedConn_Read br n = bufio_read conn_read br n"

section \<open>The parser never panics\<close>

lemma sni_ext_total: "fin \<le> length d \<Longrightarrow> is_ok (sni_ext d fin pos)"
proof (induction d fin pos rule: sni_ext.induct)
  case (1 d fin pos)
  then show ?case
    by (subst sni_ext.simps, unfold Let_def) (intro is_ok_intros; force simp: is_ok_def)
qed

lemma sni_of_total: "is_ok (sni_of d)"
  unfolding sni_of_def Let_def by (intro is_ok_intros sni_ext_total) auto

lemma bufio_peek_cases:
  "bufio_peek conn_read n br = ((dat, None), br') \<Longrightarrow> length dat = n"
  by (auto simp: bufio_peek_def Let_def split: if_splits option.splits)

lemma sniffTLS_total: "is_ok (fst (sniffTLS br))"
proof -
  have "is_ok (res_bind (go_slice dat 5 (length dat)) sni_of)" if "5 \<le> length dat" for dat
    using that by (simp add: sni_of_total)
  then show ?thesis
    by (auto simp: sniffTLS_def Let_def split: prod.splits option.splits dest!: bufio_peek_cases)
qed

section \<open>Sniffing keeps every byte\<close>

lemma sniffTLS_keeps: "sniffTLS b = (r, b') \<Longrightarrow> keeps b b'"
proof -
  assume s: "sniffTLS b = (r, b')"
  obtain h e1 b1 where p1: "bufio_peek conn_read 5 b = ((h, e1), b1)" by (metis prod.exhaust)
  show ?thesis
  proof (cases e1)
    case (Some e)
    with s p1 peek_keeps [OF p1] show ?thesis by (simp add: sniffTLS_def)
  next
    case None
    define len where "len = min (unat (be_get16 (take 2 (drop 3 h)))) 4096"
    obtain d e2 b2 where p2: "bufio_peek conn_read (5 + len) b1 = ((d, e2), b2)" by (metis prod.exhaust)
    obtain d3 e3 b3 where p3: "bufio_peek conn_read (length (bbuf b2)) b2 = ((d3, e3), b3)" by (metis prod.exhaust)
    have "b' = b2 \<or> b' = b3"
      using s p1 p2 p3 None by (auto simp: sniffTLS_def Let_def len_def split: option.splits if_splits)
    then show ?thesis
      using peek_keeps [OF p1] peek_keeps [OF p2] peek_keeps [OF p3] by (auto intro: keeps_trans)
  qed
qed

lemma sniff_http_keeps: "sniff_http_part peek b = (r, b') \<Longrightarrow> keeps b b'"
  by (auto simp: sniff_http_part_def sniffHTTP_def Let_def dest: peek_keeps split: prod.splits option.splits if_splits)

lemma SniffConn_keeps: "SniffConn c = (r, b') \<Longrightarrow> keeps (bufio_new c) b'"
proof -
  assume s: "SniffConn c = (r, b')"
  obtain h e1 b1 where p1: "bufio_peek conn_read 5 (bufio_new c) = ((h, e1), b1)" by (metis prod.exhaust)
  obtain t b2 where p2: "sniffTLS b1 = (t, b2)" by (cases "sniffTLS b1")
  obtain u b3 where p3: "sniff_http_part h b2 = (u, b3)" by (cases "sniff_http_part h b2")
  obtain v b4 where p4: "sniff_http_part h b1 = (v, b4)" by (cases "sniff_http_part h b1")
  have "b' = b1 \<or> b' = b2 \<or> b' = b3 \<or> b' = b4"
    using s p1 p2 p3 p4 by (auto simp: SniffConn_def split: option.splits if_splits sum.splits)
  then show ?thesis
    using peek_keeps [OF p1] sniffTLS_keeps [OF p2] sniff_http_keeps [OF p3] sniff_http_keeps [OF p4]
    by (auto intro: keeps_trans)
qed

lemma SniffConn_ok: "SniffConn c = (r, br) \<Longrightarrow> is_ok r"
proof -
  have "is_ok (fst (SniffConn c))"
    using sniffTLS_total by (auto simp: SniffConn_def is_ok_def split: prod.splits option.splits sum.splits) (metis fst_conv sum.distinct(1))
  then show "SniffConn c = (r, br) \<Longrightarrow> is_ok r" by simp
qed

lemma SniffConn_held:
  assumes "\<not> is_closed c" "SniffConn c = (r, br)"
  shows "bbuf br @ arriving (inq (bsrc br)) = arriving (inq c)"
  using SniffConn_keeps [OF assms(2)] assms(1) by (simp add: keeps_def held_def live_def bufio_new_def)

section \<open>A ClientHello and its parts\<close>

definition enc_ext :: "u16 \<times> bytes \<Rightarrow> bytes" where
  "enc_ext e = be_put16 (fst e) @ be_put16 (of_nat (length (snd e))) @ snd e"

definition sni_body :: "string \<Rightarrow> bytes" where
  "sni_body name = be_put16 (of_nat (length name + 3)) @ [0] @ be_put16 (of_nat (length name)) @ bytes_of_string name"

record client_hello =
  ch_len :: bytes
  ch_version :: bytes
  ch_random :: bytes
  ch_session :: bytes
  ch_ciphers :: bytes
  ch_comps :: bytes
  ch_before :: "(u16 \<times> bytes) list"
  ch_name :: string
  ch_after :: "(u16 \<times> bytes) list"

definition hello_exts :: "client_hello \<Rightarrow> bytes" where
  "hello_exts h = concat (map enc_ext (ch_before h)) @ enc_ext (0, sni_body (ch_name h)) @ concat (map enc_ext (ch_after h))"

definition hello_fixed :: "client_hello \<Rightarrow> bytes" where
  "hello_fixed h = [1] @ ch_len h @ ch_version h @ ch_random h @
     [of_nat (length (ch_session h))] @ ch_session h @ be_put16 (of_nat (length (ch_ciphers h))) @ ch_ciphers h @
     [of_nat (length (ch_comps h))] @ ch_comps h @ be_put16 (of_nat (length (hello_exts h)))"

definition hello_bytes :: "client_hello \<Rightarrow> bytes" where
  "hello_bytes h = hello_fixed h @ hello_exts h"

definition hello_record :: "byte \<Rightarrow> client_hello \<Rightarrow> bytes" where
  "hello_record minor h = [0x16, 0x03, minor] @ be_put16 (of_nat (length (hello_bytes h))) @ hello_bytes h"

text \<open>Well-formed: the field sizes of the standard, no server name before the one given, and room in the buffer.\<close>

definition hello_ok :: "client_hello \<Rightarrow> bool" where
  "hello_ok h \<longleftrightarrow> length (ch_len h) = 3 \<and> length (ch_version h) = 2 \<and> length (ch_random h) = 32
     \<and> length (ch_session h) \<le> 255 \<and> length (ch_comps h) \<le> 255
     \<and> (\<forall>e \<in> set (ch_before h). fst e \<noteq> 0) \<and> length (hello_bytes h) \<le> 4091"

lemma sni_ext_skip:
  assumes "d = p @ enc_ext e @ r" "fst e \<noteq> 0" "length (snd e) \<le> 65535" "length p + length (enc_ext e) \<le> fin"
  shows "sni_ext d fin (length p) = sni_ext d fin (length (p @ enc_ext e))"
proof -
  have l: "length (enc_ext e) = 4 + length (snd e)" by (simp add: enc_ext_def)
  have "go_slice d (length p) (length p + 2) = Inr (be_put16 (fst e))"
    by (rule go_slice_mid [of _ _ _ "be_put16 (of_nat (length (snd e))) @ snd e @ r"]) (simp_all add: assms(1) enc_ext_def)
  moreover have "go_slice d (length p + 2) (length p + 4) = Inr (be_put16 (of_nat (length (snd e))))"
    by (rule go_slice_mid [of _ "p @ be_put16 (fst e)" _ "snd e @ r"]) (simp_all add: assms(1) enc_ext_def)
  moreover have "unat (of_nat (length (snd e)) :: u16) = length (snd e)" using assms(3) by (simp add: unat_of_nat)
  ultimately show ?thesis
    using assms(2,4) l by (subst sni_ext.simps) (simp add: Let_def add.assoc)
qed

lemma sni_ext_name:
  assumes "d = p @ enc_ext (0, sni_body name) @ r" "length name \<le> 65530" "length p + length (enc_ext (0, sni_body name)) \<le> fin"
  shows "sni_ext d fin (length p) = Inr (Some name)"
proof -
  let ?b = "sni_body name"
  have b: "length ?b = 5 + length name" by (simp add: sni_body_def)
  have l: "length (enc_ext (0, ?b)) = 9 + length name" by (simp add: enc_ext_def b)
  have "go_slice d (length p) (length p + 2) = Inr (be_put16 0)"
    by (rule go_slice_mid [of _ _ _ "be_put16 (of_nat (length ?b)) @ ?b @ r"]) (simp_all add: assms(1) enc_ext_def)
  moreover have "go_slice d (length p + 2) (length p + 4) = Inr (be_put16 (of_nat (length ?b)))"
    by (rule go_slice_mid [of _ "p @ be_put16 0" _ "?b @ r"]) (simp_all add: assms(1) enc_ext_def)
  moreover have "go_slice d (7 + length p) (9 + length p) = Inr (be_put16 (of_nat (length name)))"
    by (rule go_slice_mid [of _ "p @ be_put16 0 @ be_put16 (of_nat (length ?b)) @ be_put16 (of_nat (length name + 3)) @ [0]" _
          "bytes_of_string name @ r"]) (simp_all add: assms(1) enc_ext_def sni_body_def)
  moreover have "go_slice d (6 + length p + 3) (6 + length p + 3 + length name) = Inr (bytes_of_string name)"
    by (rule go_slice_mid [of _ "p @ be_put16 0 @ be_put16 (of_nat (length ?b)) @ be_put16 (of_nat (length name + 3)) @ [0]
          @ be_put16 (of_nat (length name))" _ r]) (simp_all add: assms(1) enc_ext_def sni_body_def)
  moreover have "unat (of_nat (length ?b) :: u16) = 5 + length name" "unat (of_nat (length name) :: u16) = length name"
    using assms(2) b unat_of_nat_u16 [of "length ?b"] unat_of_nat_u16 [of "length name"] by simp_all
  ultimately show ?thesis
    using assms(3) l b by (subst sni_ext.simps) (simp add: Let_def add.assoc)
qed

lemma sni_ext_list:
  assumes "d = p @ concat (map enc_ext es) @ enc_ext (0, sni_body name) @ r" "\<forall>e \<in> set es. fst e \<noteq> 0"
    and "\<forall>e \<in> set es. length (snd e) \<le> 65535" "length name \<le> 65530"
    and "length p + length (concat (map enc_ext es)) + length (enc_ext (0, sni_body name)) \<le> fin"
  shows "sni_ext d fin (length p) = Inr (Some name)"
  using assms
proof (induction es arbitrary: p)
  case Nil
  then show ?case using sni_ext_name [of d p name r fin] by simp
next
  case (Cons e es)
  have "sni_ext d fin (length p) = sni_ext d fin (length (p @ enc_ext e))"
    using Cons.prems by (intro sni_ext_skip) auto
  also have "\<dots> = Inr (Some name)" using Cons.prems by (intro Cons.IH) auto
  finally show ?case .
qed

lemma length_enc_ext: "e \<in> set es \<Longrightarrow> length (snd e) \<le> length (concat (map enc_ext es))"
proof (induction es)
  case (Cons x es)
  then show ?case by (auto simp: enc_ext_def)
qed simp

lemma sni_of_hello:
  assumes "hello_ok h"
  shows "sni_of (hello_bytes h) = Inr (Some (ch_name h))"
proof -
  let ?d = "hello_bytes h" and ?x = "hello_exts h"
  let ?s = "ch_session h" and ?c = "ch_ciphers h" and ?m = "ch_comps h"
  let ?p0 = "[1] @ ch_len h @ ch_version h @ ch_random h"
  let ?p1 = "?p0 @ [of_nat (length ?s)] @ ?s"
  let ?p2 = "?p1 @ be_put16 (of_nat (length ?c)) @ ?c"
  let ?p3 = "?p2 @ [of_nat (length ?m)] @ ?m"
  have d: "?d = ?p3 @ be_put16 (of_nat (length ?x)) @ ?x" by (simp add: hello_bytes_def hello_fixed_def)
  have len: "length ?p0 = 38" "length ?s \<le> 255" "length ?m \<le> 255" "length ?d \<le> 4091"
    using assms by (simp_all add: hello_ok_def)
  then have lens: "length ?c \<le> 4091" "length ?x \<le> 4091" by (simp_all add: d)
  have u: "unat (of_nat (length ?s) :: byte) = length ?s" "unat (of_nat (length ?m) :: byte) = length ?m"
      "unat (of_nat (length ?c) :: u16) = length ?c" "unat (of_nat (length ?x) :: u16) = length ?x"
    using len lens by (simp_all add: unat_of_nat_byte unat_of_nat_u16)
  have l: "length ?p1 = 39 + length ?s" "length ?p2 = 41 + length ?s + length ?c"
      "length ?p3 = 42 + length ?s + length ?c + length ?m"
      "length ?d = 44 + length ?s + length ?c + length ?m + length ?x"
    using len(1) by (simp_all add: d)
  have g: "go_index ?d 0 = Inr 1" "go_index ?d 38 = Inr (of_nat (length ?s))"
      "go_slice ?d (39 + length ?s) (41 + length ?s) = Inr (be_put16 (of_nat (length ?c)))"
      "go_index ?d (41 + length ?s + length ?c) = Inr (of_nat (length ?m))"
      "go_slice ?d (42 + length ?s + length ?c + length ?m) (44 + length ?s + length ?c + length ?m) = Inr (be_put16 (of_nat (length ?x)))"
  proof -
    show "go_index ?d 0 = Inr 1" by (simp add: d)
    show "go_index ?d 38 = Inr (of_nat (length ?s))" by (rule go_index_mid [of _ ?p0]) (use len(1) in \<open>simp_all add: d\<close>)
    show "go_slice ?d (39 + length ?s) (41 + length ?s) = Inr (be_put16 (of_nat (length ?c)))"
      by (rule go_slice_mid [of _ ?p1]) (use len(1) in \<open>simp_all add: d\<close>)
    show "go_index ?d (41 + length ?s + length ?c) = Inr (of_nat (length ?m))"
      by (rule go_index_mid [of _ ?p2]) (use len(1) in \<open>simp_all add: d\<close>)
    show "go_slice ?d (42 + length ?s + length ?c + length ?m) (44 + length ?s + length ?c + length ?m) = Inr (be_put16 (of_nat (length ?x)))"
      by (rule go_slice_mid [of _ ?p3]) (use len(1) in \<open>simp_all add: d\<close>)
  qed
  have "sni_ext ?d (length ?d) (length (?p3 @ be_put16 (of_nat (length ?x)))) = Inr (Some (ch_name h))"
  proof (rule sni_ext_list [of _ _ "ch_before h" _ "concat (map enc_ext (ch_after h))"])
    show "\<forall>e \<in> set (ch_before h). length (snd e) \<le> 65535"
      using length_enc_ext [of _ "ch_before h"] lens(2) by (fastforce simp: hello_exts_def)
    show "length (ch_name h) \<le> 65530" using lens(2) by (simp add: hello_exts_def enc_ext_def sni_body_def)
  qed (use assms in \<open>simp_all add: d hello_exts_def hello_ok_def\<close>)
  moreover have "length (?p3 @ be_put16 (of_nat (length ?x))) = 44 + length ?s + length ?c + length ?m"
    unfolding length_append [of ?p3] l(3) by simp
  ultimately have "sni_ext ?d (length ?d) (44 + length ?s + length ?c + length ?m) = Inr (Some (ch_name h))"
    by metis
  then show ?thesis using g u l(4) by (simp add: sni_of_def Let_def add.assoc)
qed

section \<open>Properties\<close>

text \<open>
  C27: Sniffing loses no byte. Whatever a peer sends, in whatever segments, and wherever the read
  deadline expires, the wrapped connection holds in its buffer and in the underlying
  connection exactly the bytes that were to arrive, in order; and the parser never panics.
\<close>

theorem sniff_keeps_stream:
  assumes "\<not> is_closed c" "SniffConn c = (r, br)"
  shows "is_ok r \<and> bbuf br @ arriving (inq (bsrc br)) = arriving (inq c)"
  using SniffConn_ok [OF assms(2)] SniffConn_held [OF assms] by simp

theorem sniff_keeps_stream_witness:
  "let c = (peer_sends [0x16, 0x03])\<lparr>inq := [Data [0x16, 0x03], Fail ErrTimeout, Data [1, 2]]\<rparr>; br = snd (SniffConn c) in
    bbuf br @ arriving (inq (bsrc br)) = [0x16, 0x03, 1, 2]"
  using sniff_keeps_stream [of "(peer_sends [0x16, 0x03])\<lparr>inq := [Data [0x16, 0x03], Fail ErrTimeout, Data [1, 2]]\<rparr>"]
  by (simp add: Let_def peer_sends_def) (metis prod.collapse)

text \<open>
  The server name of a ClientHello is found. On any open connection whose pending bytes start
  with a well-formed ClientHello record of at most 4096 bytes with a server-name extension, in
  whatever segments they arrive, sniffing returns protocol "tls" and that name, and the wrapped
  connection still has all pending bytes.
\<close>

theorem sniff_finds_sni:
  assumes "hello_ok h" "conn_open c" "conn_rem c = hello_record minor h @ rest"
  shows "\<exists>br. SniffConn c = (Inr (Some \<lparr>sr_Protocol = ''tls'', sr_Domain = ch_name h\<rparr>), br)
    \<and> cr.buf_rem br = conn_rem c"
proof -
  let ?rec = "hello_record minor h" and ?b0 = "bufio_new c"
  have len: "length ?rec = 5 + length (hello_bytes h)" "length (hello_bytes h) \<le> 4091"
    using assms(1) by (simp_all add: hello_record_def hello_ok_def)
  have b0: "cr.buf_inv ?b0" "cr.buf_rem ?b0 = conn_rem c" using assms(2) by (simp_all add: cr.buf_defs bufio_new_def)
  have t5: "take 5 (conn_rem c) = [0x16, 0x03, minor] @ be_put16 (of_nat (length (hello_bytes h)))"
    by (simp add: assms(3) hello_record_def)
  obtain b1 where p1: "bufio_peek conn_read 5 ?b0 = ((take 5 (conn_rem c), None), b1)" "cr.buf_rem b1 = conn_rem c" "cr.buf_inv b1"
    using cr.bufio_peek_data [OF b0(1), of 5] b0(2) assms(3) len by (auto simp: bufio_size_def)
  obtain b2 where p2: "bufio_peek conn_read 5 b1 = ((take 5 (conn_rem c), None), b2)" "cr.buf_rem b2 = conn_rem c" "cr.buf_inv b2"
    using cr.bufio_peek_data [OF p1(3), of 5] p1(2) assms(3) len by (auto simp: bufio_size_def)
  have "unat (of_nat (length (hello_bytes h)) :: u16) = length (hello_bytes h)" using len(2) by (simp add: unat_of_nat_u16)
  then have n: "min (unat (be_get16 (take 2 (drop 3 (take 5 (conn_rem c)))))) 4096 = length (hello_bytes h)"
    using len(2) by (simp add: t5)
  obtain b3 where p3: "bufio_peek conn_read (5 + length (hello_bytes h)) b2 = ((?rec, None), b3)" "cr.buf_rem b3 = conn_rem c"
    using cr.bufio_peek_data [OF p2(3), of "5 + length (hello_bytes h)"] p2(2) assms(3) len by (auto simp: bufio_size_def)
  have "go_slice ?rec 5 (length ?rec) = Inr (hello_bytes h)" using len(1) by (simp add: hello_record_def)
  then have "sniffTLS b1 = (Inr (Some (ch_name h)), b3)"
    using p2(1) p3(1) n sni_of_hello [OF assms(1)] by (simp add: sniffTLS_def Let_def)
  then show ?thesis using p1(1) p3(2) by (simp add: SniffConn_def t5)
qed

definition demo_hello :: client_hello where
  "demo_hello = \<lparr>ch_len = [0, 0, 60], ch_version = [3, 3], ch_random = replicate 32 5, ch_session = [9],
     ch_ciphers = [0x13, 1], ch_comps = [0], ch_before = [(10, [0, 29])], ch_name = ''a.example'', ch_after = [(16, [])]\<rparr>"

theorem sniff_finds_sni_witness:
  "\<exists>br. SniffConn (peer_sends (hello_record 1 demo_hello @ [7])) =
    (Inr (Some \<lparr>sr_Protocol = ''tls'', sr_Domain = ''a.example''\<rparr>), br) \<and> cr.buf_rem br = hello_record 1 demo_hello @ [7]"
proof -
  have "hello_ok demo_hello" by (simp add: hello_ok_def demo_hello_def hello_bytes_def hello_fixed_def hello_exts_def enc_ext_def sni_body_def)
  then show ?thesis
    using sniff_finds_sni [of demo_hello "peer_sends (hello_record 1 demo_hello @ [7])" 1 "[7]"] by (simp add: demo_hello_def)
qed

end
