(* ===== verification/ProxyProto.thy ===== *)
theory ProxyProto
  imports Go_IO Go_Net
begin

text \<open>
  The PROXY protocol (\<^verbatim>\<open>internal/common/proxyproto.go\<close>): the header in front of a connection, in
  its text form (version 1) or binary form (version 2), replaces the peer address. A
  \<^verbatim>\<open>net.TCPAddr\<close> is its IP bytes (empty for a nil IP) and its port.
\<close>

section \<open>Definitions\<close>

definition v2Signature :: bytes where
  "v2Signature = [0x0D, 0x0A, 0x0D, 0x0A, 0x00, 0x0D, 0x0A, 0x51, 0x55, 0x49, 0x54, 0x0A]"

record TCPAddr =
  ta_IP :: bytes
  ta_Port :: int

definition TCPAddr_String :: "TCPAddr \<Rightarrow> string" where
  "TCPAddr_String a = JoinHostPort (if ta_IP a = [] then [] else IP_String (ta_IP a)) (Itoa (ta_Port a))"

record ProxyProtoConn =
  pp_reader :: "conn bufio"
  pp_remoteAddr :: "TCPAddr option"

definition pp_RemoteAddr :: "ProxyProtoConn \<Rightarrow> string" where
  "pp_RemoteAddr p = (case pp_remoteAddr p of Some a \<Rightarrow> TCPAddr_String a | None \<Rightarrow> raddr (bsrc (pp_reader p)))"

definition pp_Read :: "ProxyProtoConn \<Rightarrow> nat \<Rightarrow> (bytes \<times> error option) \<times> ProxyProtoConn" where
  "pp_Read p n = (case bufio_read conn_read (pp_reader p) n of (r, b) \<Rightarrow> (r, p\<lparr>pp_reader := b\<rparr>))"

lemma bufio_read_shrinks:
  "bufio_read conn_read b n = ((bs, e), b') \<Longrightarrow> length (held b') + length bs \<le> length (held b)"
  by (auto simp: bufio_read_def held_def dest!: conn_read_arriving split: if_splits option.splits prod.splits)

text \<open>
  \<^verbatim>\<open>(*Reader).ReadString\<close>, byte by byte. Every round takes a byte off the buffer or off what is
  left to arrive.
\<close>

function read_string :: "byte \<Rightarrow> bytes \<Rightarrow> conn bufio \<Rightarrow> (bytes \<times> error option) \<times> conn bufio" where
  "read_string delim acc b = (case bufio_read conn_read b 1 of
     ((bs, Some e), b') \<Rightarrow> ((acc @ bs, Some e), b')
   | ((bs, None), b') \<Rightarrow>
       if bs = [] then ((acc, Some ErrNoProgress), b')
       else if hd bs = delim then ((acc @ bs, None), b')
       else read_string delim (acc @ bs) b')"
  by pat_completeness auto
termination
proof (relation "measure (\<lambda>(d, acc, b). length (held b))", goal_cases)
  case (2 delim acc b x y xa xb)
  then show ?case
    using bufio_read_shrinks [of b 1 xa None y] by (cases xa) auto
qed simp

declare read_string.simps [simp del]

definition parseV1 :: "conn bufio \<Rightarrow> TCPAddr option res \<times> conn bufio" where
  "parseV1 br = (case read_string 0x0A [] br of
     ((_, Some e), br) \<Rightarrow> (Inl e, br)
   | ((line, None), br) \<Rightarrow>
       let parts = Split (TrimSpace (string_of_bytes line)) '' '' in
       if length parts < 6 then (Inl (New ''invalid v1 header format''), br)
       else (Inr (Some \<lparr>ta_IP = (case ParseIP (parts ! 2) of Some ip \<Rightarrow> ip | None \<Rightarrow> []),
                       ta_Port = fst (Atoi (parts ! 4))\<rparr>), br))"

text \<open>The address block of version 2; a family that is not handled leaves the address alone.\<close>

definition v2_addr :: "byte \<Rightarrow> byte \<Rightarrow> bytes \<Rightarrow> TCPAddr option res" where
  "v2_addr vc af dat =
     (if vc AND 0x0F = 0 then Inr None
      else if af = 0x11 then
        (if length dat < 12 then Inl (New ''insufficient data for ipv4'')
         else res_bind (go_slice dat 0 4) (\<lambda>ip. res_bind (go_slice dat 8 10) (\<lambda>p.
           Inr (Some \<lparr>ta_IP = ip, ta_Port = int (unat (be_get16 p))\<rparr>))))
      else if af = 0x21 then
        (if length dat < 36 then Inl (New ''insufficient data for ipv6'')
         else res_bind (go_slice dat 0 16) (\<lambda>ip. res_bind (go_slice dat 32 34) (\<lambda>p.
           Inr (Some \<lparr>ta_IP = ip, ta_Port = int (unat (be_get16 p))\<rparr>))))
      else Inr None)"

definition parseV2 :: "conn bufio \<Rightarrow> TCPAddr option res \<times> conn bufio" where
  "parseV2 br =
     (let rd = bufio_read conn_read in
      case CopyN_Discard rd 12 br of (Some e, br) \<Rightarrow> (Inl e, br) | (None, br) \<Rightarrow>
      case read_field rd 1 br of (Inl e, br) \<Rightarrow> (Inl e, br) | (Inr vc, br) \<Rightarrow>
      if drop_bit 4 (hd vc) \<noteq> 2 then (Inl (New ''unsupported version''), br) else
      case read_field rd 1 br of (Inl e, br) \<Rightarrow> (Inl e, br) | (Inr af, br) \<Rightarrow>
      case read_field rd 2 br of (Inl e, br) \<Rightarrow> (Inl e, br) | (Inr len, br) \<Rightarrow>
      case read_field rd (unat (be_get16 len)) br of (Inl e, br) \<Rightarrow> (Inl e, br) | (Inr dat, br) \<Rightarrow>
      (v2_addr (hd vc) (hd af) dat, br))"

definition WrapProxyProto :: "conn \<Rightarrow> ProxyProtoConn res" where
  "WrapProxyProto c = (case bufio_peek conn_read 12 (bufio_new c) of
     ((_, Some e), br) \<Rightarrow> Inl e
   | ((peek, None), br) \<Rightarrow>
       if take 12 peek = v2Signature then
         (case parseV2 br of
            (Inl e, br) \<Rightarrow> Inl (Wrap ''failed to parse proxy proto v2'' e)
          | (Inr a, br) \<Rightarrow> Inr \<lparr>pp_reader = br, pp_remoteAddr = a\<rparr>)
       else if HasPrefix peek (bytes_of_string ''PROXY '') then
         (case parseV1 br of
            (Inl e, br) \<Rightarrow> Inl (Wrap ''failed to parse proxy proto v1'' e)
          | (Inr a, br) \<Rightarrow> Inr \<lparr>pp_reader = br, pp_remoteAddr = a\<rparr>)
       else Inr \<lparr>pp_reader = br, pp_remoteAddr = None\<rparr>)"

section \<open>Lemmas\<close>

lemma read_string_line:
  assumes "cr.buf_inv b" "cr.buf_rem b = xs @ delim # rest" "delim \<notin> set xs"
  shows "\<exists>b'. read_string delim acc b = ((acc @ xs @ [delim], None), b') \<and> cr.buf_rem b' = rest
    \<and> cr.buf_fin b' = cr.buf_fin b \<and> cr.buf_inv b'"
  using assms
proof (induction xs arbitrary: acc b)
  case Nil
  then obtain bs b1 where r: "bufio_read conn_read b 1 = ((bs, None), b1)" "bs \<noteq> []" "length bs \<le> 1"
      "delim # rest = bs @ cr.buf_rem b1" "cr.buf_fin b1 = cr.buf_fin b" "cr.buf_inv b1"
    using br.rd_data [of b 1] by auto
  then have "bs = [delim]" "cr.buf_rem b1 = rest" by (cases bs; auto)+
  then show ?case using r by (simp add: read_string.simps [of delim acc b] del: One_nat_def)
next
  case (Cons x xs)
  then obtain bs b1 where r: "bufio_read conn_read b 1 = ((bs, None), b1)" "bs \<noteq> []" "length bs \<le> 1"
      "x # xs @ delim # rest = bs @ cr.buf_rem b1" "cr.buf_fin b1 = cr.buf_fin b" "cr.buf_inv b1"
    using br.rd_data [of b 1] by auto
  then have "bs = [x]" "cr.buf_rem b1 = xs @ delim # rest" by (cases bs; auto)+
  moreover have "read_string delim acc b = read_string delim (acc @ [x]) b1"
    using r(1) calculation(1) Cons.prems(3) by (auto simp: read_string.simps [of delim acc b] simp del: One_nat_def)
  ultimately show ?case using Cons.IH [of b1 "acc @ [x]"] Cons.prems(3) r(5,6) by simp
qed

text \<open>A version 2 header: signature, version and command, family, length, address block.\<close>

definition v2_header :: "byte \<Rightarrow> byte \<Rightarrow> bytes \<Rightarrow> bytes" where
  "v2_header vc af dat = v2Signature @ [vc, af] @ be_put16 (of_nat (length dat)) @ dat"

lemma parseV2_header:
  assumes "cr.buf_inv b" "cr.buf_rem b = v2_header vc af dat @ rest" "drop_bit 4 vc = 2" "length dat < 65536"
  shows "\<exists>b'. parseV2 b = (v2_addr vc af dat, b') \<and> cr.buf_rem b' = rest \<and> cr.buf_inv b'"
proof -
  let ?rd = "bufio_read conn_read"
  have rem: "cr.buf_rem b = v2Signature @ [vc] @ [af] @ be_put16 (of_nat (length dat)) @ dat @ rest"
    using assms(2) by (simp add: v2_header_def)
  have sig: "length v2Signature = 12" by (simp add: v2Signature_def)
  obtain b1 where b1: "CopyN_Discard ?rd 12 b = (None, b1)" "cr.buf_inv b1"
      "cr.buf_rem b1 = [vc] @ [af] @ be_put16 (of_nat (length dat)) @ dat @ rest"
    using br.CopyN_data [OF assms(1), of 12] rem sig by auto
  obtain b2 where b2: "read_field ?rd 1 b1 = (Inr [vc], b2)" "cr.buf_inv b2"
      "cr.buf_rem b2 = [af] @ be_put16 (of_nat (length dat)) @ dat @ rest"
    using br.read_field_data [OF b1(2,3), of 1] by auto
  obtain b3 where b3: "read_field ?rd 1 b2 = (Inr [af], b3)" "cr.buf_inv b3"
      "cr.buf_rem b3 = be_put16 (of_nat (length dat)) @ dat @ rest"
    using br.read_field_data [OF b2(2,3), of 1] by auto
  obtain b4 where b4: "read_field ?rd 2 b3 = (Inr (be_put16 (of_nat (length dat))), b4)" "cr.buf_inv b4"
      "cr.buf_rem b4 = dat @ rest"
    using br.read_field_data [OF b3(2,3), of 2] by auto
  obtain b5 where b5: "read_field ?rd (length dat) b4 = (Inr dat, b5)" "cr.buf_inv b5" "cr.buf_rem b5 = rest"
    using br.read_field_data [OF b4(2,3) refl] by auto
  have "unat (of_nat (length dat) :: u16) = length dat" using assms(4) by (simp add: unat_of_nat_u16)
  then show ?thesis
    using b1(1) b2(1) b3(1) b4(1) b5 assms(3) by (simp add: parseV2_def Let_def del: One_nat_def)
qed

lemma wrap_peek:
  assumes "conn_open c" "12 \<le> length (conn_rem c)"
  shows "\<exists>br. bufio_peek conn_read 12 (bufio_new c) = ((take 12 (conn_rem c), None), br)
    \<and> cr.buf_rem br = conn_rem c \<and> cr.buf_inv br"
  using cr.bufio_peek_data [of "bufio_new c" 12] assms by (auto simp: cr.buf_defs bufio_new_def bufio_size_def)

section \<open>Properties\<close>

text \<open>
  A version 2 header for TCP over IPv4 sets the peer address. On any open connection that
  starts with such a header, in any segments, with at least the 12 bytes of the address block
  (source, destination, ports) and any extension bytes after them, the wrapped connection
  reports the source address and port, and reads on with exactly the bytes after the header.
\<close>

theorem proxy_v2_ipv4:
  assumes "conn_open c" "conn_rem c = v2_header 0x21 0x11 (src @ dst @ be_put16 sport @ be_put16 dport @ tlv) @ rest"
    and "length src = 4" "length dst = 4" "length tlv < 65000"
  shows "\<exists>p. WrapProxyProto c = Inr p \<and> cr.buf_rem (pp_reader p) = rest
    \<and> pp_RemoteAddr p = JoinHostPort (IP_String src) (nat_to_dec (unat sport))"
proof -
  let ?dat = "src @ dst @ be_put16 sport @ be_put16 dport @ tlv"
  have t: "take 12 (conn_rem c) = v2Signature" "12 \<le> length (conn_rem c)"
    by (simp_all add: assms(2) v2_header_def v2Signature_def)
  obtain b where b: "bufio_peek conn_read 12 (bufio_new c) = ((v2Signature, None), b)" "cr.buf_rem b = conn_rem c" "cr.buf_inv b"
    using wrap_peek [OF assms(1) t(2)] t(1) by auto
  have "drop_bit 4 (0x21 :: byte) = 2" by (simp add: drop_bit_eq_div)
  then obtain b' where b': "parseV2 b = (v2_addr 0x21 0x11 ?dat, b')" "cr.buf_rem b' = rest"
    using parseV2_header [OF b(3) b(2) [unfolded assms(2)]] assms(3-5) by auto
  have s: "go_slice ?dat 0 4 = Inr src" "go_slice ?dat 8 10 = Inr (be_put16 sport)"
    using assms(3,4) go_slice_mid [of ?dat "[]" src] go_slice_mid [of ?dat "src @ dst" "be_put16 sport"] by simp_all
  have "(0x21 :: byte) AND 0x0F \<noteq> 0" by simp
  then have "v2_addr 0x21 0x11 ?dat = Inr (Some \<lparr>ta_IP = src, ta_Port = int (unat sport)\<rparr>)"
    using assms(3,4) unfolding v2_addr_def s res_bind_simps by simp
  moreover have "src \<noteq> []" using assms(3) by auto
  moreover have "take 12 v2Signature = v2Signature" by (simp add: v2Signature_def)
  ultimately show ?thesis
    using b b' by (simp add: WrapProxyProto_def pp_RemoteAddr_def TCPAddr_String_def Itoa_def)
qed

theorem proxy_v2_ipv4_witness:
  "\<exists>p. WrapProxyProto (peer_sends (v2_header 0x21 0x11 ([192, 0, 2, 7] @ [10, 0, 0, 1] @ be_put16 5000 @ be_put16 443) @ [1, 2])) = Inr p
    \<and> cr.buf_rem (pp_reader p) = [1, 2] \<and> pp_RemoteAddr p = JoinHostPort (IP_String [192, 0, 2, 7]) (nat_to_dec 5000)"
  using proxy_v2_ipv4 [of "peer_sends (v2_header 0x21 0x11 ([192, 0, 2, 7] @ [10, 0, 0, 1] @ be_put16 5000 @ be_put16 443 @ []) @ [1, 2])"
      "[192, 0, 2, 7]" "[10, 0, 0, 1]" 5000 443 "[]" "[1, 2]"]
  by simp

text \<open>A version 1 header for TCP over IPv4, as proxies write it.\<close>

definition v1_line :: "bytes \<Rightarrow> bytes \<Rightarrow> nat \<Rightarrow> nat \<Rightarrow> string" where
  "v1_line src dst sport dport =
     Join [''PROXY'', ''TCP4'', IP_String src, IP_String dst, nat_to_dec sport, nat_to_dec dport] '' ''"

definition line_end :: string where "line_end = [char_of (13 :: nat), char_of (10 :: nat)]"

lemma IP_String_v4: "length a = 4 \<Longrightarrow> IP_String a = v4_string a"
  by (cases a) (auto simp: IP_String_def To4_def)

lemma v1_parts:
  assumes "length src = 4" "length dst = 4"
  shows "Split (v1_line src dst sport dport) '' '' =
    [''PROXY'', ''TCP4'', IP_String src, IP_String dst, nat_to_dec sport, nat_to_dec dport]"
proof -
  have ip: "CHR '' '' \<notin> set (IP_String a)" if "length a = 4" for a
    using v4_string_chars [of "CHR '' ''" a] that by (auto simp: IP_String_v4 is_digit_def)
  have "CHR '' '' \<notin> set (nat_to_dec n)" for n by (rule nat_to_dec_notin) (simp add: is_digit_def)
  with ip assms show ?thesis unfolding v1_line_def by (intro Split_Join) auto
qed

lemma is_digit_graphic: "is_digit c \<Longrightarrow> graphic c"
  by (simp add: is_digit_def graphic_def)

lemma v1_trim: "TrimSpace (v1_line src dst sport dport @ line_end) = v1_line src dst sport dport"
proof -
  let ?l = "v1_line src dst sport dport"
  have l: "?l = CHR ''P'' # tl ?l" by (simp add: v1_line_def)
  have "last ?l = last (nat_to_dec dport)" by (simp add: v1_line_def)
  then have "graphic (last ?l)"
    using nat_to_dec_digits [of "last (nat_to_dec dport)" dport] is_digit_graphic by simp
  moreover have "graphic (hd ?l)" by (subst l) (simp add: graphic_def)
  moreover have "list_all blank line_end" by (simp add: line_end_def blank_def)
  moreover have "?l \<noteq> []" by (subst l) simp
  ultimately show ?thesis using TrimSpace_graphic [of "[]" line_end ?l] by simp
qed

lemma v1_no_newline:
  assumes "length src = 4" "length dst = 4"
  shows "0x0A \<notin> set (bytes_of_string (v1_line src dst sport dport @ [char_of (13 :: nat)]))"
proof -
  have d: "of_char c \<noteq> (10 :: nat)" if "is_digit c \<or> c = CHR ''.'' \<or> c \<in> set ''PROXY TCP4''" for c
    using that by (auto simp: is_digit_def)
  have ip: "is_digit c \<or> c = CHR ''.''" if "length a = 4" "c \<in> set (IP_String a)" for a c
    using v4_string_chars [of c a] that by (auto simp: IP_String_v4)
  have "is_digit c \<or> c = CHR ''.'' \<or> c \<in> set ''PROXY TCP4''" if "c \<in> set (v1_line src dst sport dport)" for c
    using that ip [OF assms(1)] ip [OF assms(2)] nat_to_dec_digits by (auto simp: v1_line_def)
  with d have "of_char c \<noteq> (10 :: nat)" if "c \<in> set (v1_line src dst sport dport)" for c using that by blast
  then show ?thesis
    by (auto simp: bytes_of_string_def of_char_unat word_unat_eq_iff unat_of_nat of_char_less)
qed

text \<open>
  A version 1 header for TCP over IPv4 sets the peer address: the connection that starts with
  such a line reports the source address and port of the line and reads on after it.
\<close>

theorem proxy_v1_ipv4:
  assumes "conn_open c" "length src = 4" "length dst = 4" "sport < 65536" "dport < 65536"
    and "conn_rem c = bytes_of_string (v1_line src dst sport dport @ line_end) @ rest"
  shows "\<exists>p. WrapProxyProto c = Inr p \<and> cr.buf_rem (pp_reader p) = rest
    \<and> pp_RemoteAddr p = JoinHostPort (IP_String src) (nat_to_dec sport)"
proof -
  let ?l = "v1_line src dst sport dport" and ?cr = "[char_of (13 :: nat)]"
  obtain l2 where l2: "?l = ''PROXY TCP4 '' @ l2" by (simp add: v1_line_def)
  have pre: "conn_rem c = bytes_of_string ''PROXY TCP4 '' @ bytes_of_string (l2 @ line_end) @ rest"
    by (simp add: assms(6) l2 bytes_of_string_def)
  have len: "12 \<le> length (conn_rem c)" by (simp add: pre line_end_def)
  obtain b where b: "bufio_peek conn_read 12 (bufio_new c) = ((take 12 (conn_rem c), None), b)"
      "cr.buf_rem b = conn_rem c" "cr.buf_inv b"
    using wrap_peek [OF assms(1) len] by auto
  have "conn_rem c = bytes_of_string (?l @ ?cr) @ 0x0A # rest"
    by (simp add: assms(6) line_end_def bytes_of_string_def of_char_unat)
  then obtain b' where b': "read_string 0x0A [] b = ((bytes_of_string (?l @ line_end), None), b')" "cr.buf_rem b' = rest"
    using read_string_line [where b = b and xs = "bytes_of_string (?l @ ?cr)" and delim = "0x0A" and rest = rest and acc = "[]"]
      b(2,3) v1_no_newline [OF assms(2,3)]
    by (auto simp: line_end_def bytes_of_string_def of_char_unat)
  have "parseV1 b = (Inr (Some \<lparr>ta_IP = v4InV6Prefix @ src, ta_Port = int sport\<rparr>), b')"
    using b'(1) assms(2-4) by (simp add: parseV1_def v1_trim v1_parts ParseIP_String_v4 Atoi_Itoa_nat)
  moreover have "take 12 (conn_rem c) \<noteq> v2Signature" "HasPrefix (take 12 (conn_rem c)) (bytes_of_string ''PROXY '')"
    by (simp_all add: pre v2Signature_def bytes_of_string_def HasPrefix_def of_char_unat)
  moreover have "IP_String (v4InV6Prefix @ src) = IP_String src"
    using assms(2) by (auto simp: IP_String_def To4_def v4InV6Prefix_def)
  moreover have "src \<noteq> []" using assms(2) by auto
  ultimately show ?thesis
    using b b'(2) by (simp add: WrapProxyProto_def pp_RemoteAddr_def TCPAddr_String_def Itoa_def)
qed

theorem proxy_v1_ipv4_witness:
  "\<exists>p. WrapProxyProto (peer_sends (bytes_of_string (v1_line [192, 0, 2, 7] [10, 0, 0, 1] 5000 443 @ line_end) @ [1, 2])) = Inr p
    \<and> cr.buf_rem (pp_reader p) = [1, 2] \<and> pp_RemoteAddr p = JoinHostPort (IP_String [192, 0, 2, 7]) (nat_to_dec 5000)"
  using proxy_v1_ipv4 [of "peer_sends (bytes_of_string (v1_line [192, 0, 2, 7] [10, 0, 0, 1] 5000 443 @ line_end) @ [1, 2])"
      "[192, 0, 2, 7]" "[10, 0, 0, 1]" 5000 443 "[1, 2]"]
  by simp

text \<open>
  A connection without a PROXY header passes unchanged: if at least 12 bytes arrive and they
  start neither with the signature nor with "PROXY ", the wrapped connection reports the real
  peer address and reads all the bytes from the first.
\<close>

theorem proxy_absent_passes:
  assumes "conn_open c" "12 \<le> length (conn_rem c)" "take 12 (conn_rem c) \<noteq> v2Signature"
    and "\<not> HasPrefix (conn_rem c) (bytes_of_string ''PROXY '')"
  shows "\<exists>p. WrapProxyProto c = Inr p \<and> cr.buf_rem (pp_reader p) = conn_rem c \<and> pp_remoteAddr p = None"
proof -
  obtain b where b: "bufio_peek conn_read 12 (bufio_new c) = ((take 12 (conn_rem c), None), b)"
      "cr.buf_rem b = conn_rem c"
    using wrap_peek [OF assms(1,2)] by auto
  have "\<not> HasPrefix (take 12 (conn_rem c)) (bytes_of_string ''PROXY '')"
    using assms(2,4) by (simp add: HasPrefix_def min_def)
  with b assms(3) show ?thesis by (simp add: WrapProxyProto_def)
qed

theorem proxy_absent_passes_witness:
  "\<exists>p. WrapProxyProto (peer_sends (replicate 20 65)) = Inr p \<and> cr.buf_rem (pp_reader p) = replicate 20 65 \<and> pp_remoteAddr p = None"
proof -
  have "take 12 (replicate 20 (65 :: byte)) \<noteq> v2Signature" "\<not> HasPrefix (replicate 20 (65 :: byte)) (bytes_of_string ''PROXY '')"
    by code_simp+
  then show ?thesis using proxy_absent_passes [of "peer_sends (replicate 20 65)"] by simp
qed

end
