(* ===== verification/Outbound.thy ===== *)
theory Outbound
  imports Obfs "HOL-Library.Multiset"
begin

text \<open>
  Outbound handlers (\<^verbatim>\<open>internal/outbound/direct.go\<close>, \<^verbatim>\<open>internal/outbound/npchain.go\<close>). The network
  is a parameter: \<open>netDial network addr\<close> is \<^verbatim>\<open>net.Dialer.DialContext\<close> and \<open>quicDial addr\<close> is
  \<^verbatim>\<open>QUICDialer.Dial\<close>, each with the connection it returns.

  \<^verbatim>\<open>HealthCheck\<close> returns a floating-point score; the model keeps it in units of 1/4000, in which all
  its values are integers and compare as the scores do. For 1800 milliseconds the double-precision
  result of \<^verbatim>\<open>1.0 - 1800/2000.0\<close> is just below the constant \<^verbatim>\<open>0.1\<close>; that score is one unit less. It is
  the only one that rounding moves past another.
\<close>

section \<open>Streams\<close>

text \<open>A \<^verbatim>\<open>net.Conn\<close> of the program: a plain connection or an obfuscating one.\<close>

type_synonym netconn = "conn + ObfsConn"

text \<open>What the random generator and the UUID package give to one dial.\<close>

record entropy =
  en_uparse :: "string \<Rightarrow> bytes option"
  en_unew :: bytes
  en_pad :: byte
  en_junk :: "nat \<Rightarrow> byte"
  en_fpad :: byte
  en_fjunk :: "nat \<Rightarrow> byte"

fun net_write :: "entropy \<Rightarrow> bytes \<Rightarrow> netconn \<Rightarrow> error option \<times> netconn" where
  "net_write en bs (Inl c) = (case conn_write c bs of (e, c') \<Rightarrow> (e, Inl c'))"
| "net_write en bs (Inr ob) = (case obfs_Write (en_fpad en) (en_fjunk en) bs ob of ((n, e), ob') \<Rightarrow> (e, Inr ob'))"

fun net_close :: "netconn \<Rightarrow> netconn" where
  "net_close (Inl c) = Inl (conn_close c)"
| "net_close (Inr ob) = Inr (obfs_Close ob)"

fun base_conn :: "netconn \<Rightarrow> conn" where
  "base_conn (Inl c) = c"
| "base_conn (Inr ob) = o_conn ob"

text \<open>
  The result of a dial: the error, and the connection the dial opened in its last state. Go
  returns the connection only when there is no error.
\<close>

record dialed =
  dr_conn :: "netconn option"
  dr_err :: "error option"

definition dial_ok :: "netconn \<Rightarrow> dialed" where
  "dial_ok c = \<lparr>dr_conn = Some c, dr_err = None\<rparr>"

definition dial_fail :: "netconn option \<Rightarrow> error \<Rightarrow> dialed" where
  "dial_fail c e = \<lparr>dr_conn = c, dr_err = Some e\<rparr>"

section \<open>Direct\<close>

record DirectHandler =
  d_name :: string
  d_group :: string

definition NewDirectHandler :: "string \<Rightarrow> string \<Rightarrow> DirectHandler" where
  "NewDirectHandler name grp = \<lparr>d_name = name, d_group = grp\<rparr>"

definition direct_Dial :: "(string \<Rightarrow> string \<Rightarrow> conn res) \<Rightarrow> session_meta \<Rightarrow> DirectHandler \<Rightarrow> dialed" where
  "direct_Dial netDial meta d =
     (let network = (if m_Network meta = [] then ''tcp'' else m_Network meta) in
      if network \<in> {''tcp'', ''tcp4'', ''tcp6'', ''udp'', ''udp4'', ''udp6''} then
        (case netDial network (m_Target meta) of Inl e \<Rightarrow> dial_fail None e | Inr c \<Rightarrow> dial_ok (Inl c))
      else dial_fail None (New (''unsupported network type: '' @ network)))"

definition direct_HealthCheck :: "DirectHandler \<Rightarrow> int" where
  "direct_HealthCheck d = 4000"

section \<open>NP-Chain\<close>

record NPChainHandler =
  n_name :: string
  n_group :: string
  n_address :: string
  n_transport :: string
  n_obfs :: ObfsConfig
  n_multipath :: bool
  n_conns :: "conn list"
  n_latencyMs :: int

definition NewNPChainHandler ::
  "string \<Rightarrow> string \<Rightarrow> string \<Rightarrow> string \<Rightarrow> ObfsConfig \<Rightarrow> bool \<Rightarrow> NPChainHandler" where
  "NewNPChainHandler name grp address transportType obfs multipath =
     \<lparr>n_name = name, n_group = grp, n_address = address, n_transport = transportType, n_obfs = obfs,
      n_multipath = multipath, n_conns = [], n_latencyMs = 0\<rparr>"

text \<open>
  One tick of \<^verbatim>\<open>probeLoop\<close>: the dial takes \<open>elapsed\<close> milliseconds or fails. One tick of
  \<^verbatim>\<open>poolLoop\<close>, which runs only for multipath QUIC handlers.
\<close>

definition probe_tick :: "(string \<Rightarrow> conn res) \<Rightarrow> int \<Rightarrow> NPChainHandler \<Rightarrow> NPChainHandler" where
  "probe_tick quicDial elapsed n = (case quicDial (n_address n) of
     Inr c \<Rightarrow> n\<lparr>n_latencyMs := elapsed\<rparr> | Inl e \<Rightarrow> n\<lparr>n_latencyMs := 9999\<rparr>)"

definition poolSize :: nat where "poolSize = 4"

definition pool_tick :: "(string \<Rightarrow> conn res) \<Rightarrow> NPChainHandler \<Rightarrow> NPChainHandler" where
  "pool_tick quicDial n =
     (if n_multipath n \<and> n_transport n = ''quic'' \<and> length (n_conns n) < poolSize then
        (case quicDial (n_address n) of Inr c \<Rightarrow> n\<lparr>n_conns := n_conns n @ [c]\<rparr> | Inl e \<Rightarrow> n)
      else n)"

definition getStreamConn :: "(string \<Rightarrow> conn res) \<Rightarrow> NPChainHandler \<Rightarrow> conn res \<times> NPChainHandler" where
  "getStreamConn quicDial n =
     (quicDial (n_address n),
      if n_multipath n \<and> n_conns n \<noteq> [] then n\<lparr>n_conns := tl (n_conns n) @ [hd (n_conns n)]\<rparr> else n)"

definition send_header :: "entropy \<Rightarrow> session_meta \<Rightarrow> netconn \<Rightarrow> dialed" where
  "send_header en meta c =
     (case EncodeHeader (en_uparse en) (en_unew en) (en_pad en) (en_junk en) meta of
        Inl e \<Rightarrow> dial_fail (Some (net_close c)) e
      | Inr header \<Rightarrow> (case net_write en header c of
          (Some e, c') \<Rightarrow> dial_fail (Some (net_close c')) e
        | (None, c') \<Rightarrow> dial_ok c'))"

definition np_Dial ::
  "(string \<Rightarrow> conn res) \<Rightarrow> entropy \<Rightarrow> session_meta \<Rightarrow> NPChainHandler \<Rightarrow> dialed \<times> NPChainHandler" where
  "np_Dial quicDial en meta n =
     (if n_transport n \<noteq> ''quic'' then (dial_fail None (New (''unsupported transport: '' @ n_transport n)), n)
      else (case getStreamConn quicDial n of
          (Inl e, n') \<Rightarrow> (dial_fail None (Wrap ''dial failed'' e), n')
        | (Inr c, n') \<Rightarrow>
            (send_header en meta
               (if oc_Type (n_obfs n) = ''padding'' \<or> 0 < oc_Interval (n_obfs n) then NewObfsConn c (n_obfs n) else Inl c), n')))"

definition np_HealthCheck :: "NPChainHandler \<Rightarrow> int" where
  "np_HealthCheck n = (let lat = n_latencyMs n in
     if lat \<le> 0 then 2000 else if 2000 \<le> lat then 400 else 4000 - 2 * lat - (if lat = 1800 then 1 else 0))"

section \<open>The common interface\<close>

datatype OutboundHandler = Direct DirectHandler | NPChain NPChainHandler

fun out_Name :: "OutboundHandler \<Rightarrow> string" where
  "out_Name (Direct d) = d_name d"
| "out_Name (NPChain n) = n_name n"

fun out_Group :: "OutboundHandler \<Rightarrow> string" where
  "out_Group (Direct d) = d_group d"
| "out_Group (NPChain n) = n_group n"

fun out_HealthCheck :: "OutboundHandler \<Rightarrow> int" where
  "out_HealthCheck (Direct d) = direct_HealthCheck d"
| "out_HealthCheck (NPChain n) = np_HealthCheck n"

fun out_Dial ::
  "(string \<Rightarrow> string \<Rightarrow> conn res) \<Rightarrow> (string \<Rightarrow> conn res) \<Rightarrow> entropy \<Rightarrow> session_meta \<Rightarrow> OutboundHandler \<Rightarrow> dialed" where
  "out_Dial netDial quicDial en meta (Direct d) = direct_Dial netDial meta d"
| "out_Dial netDial quicDial en meta (NPChain n) = fst (np_Dial quicDial en meta n)"

section \<open>Lemmas\<close>

lemma out_HealthCheck_range: "0 < out_HealthCheck h \<and> out_HealthCheck h \<le> 4000"
  by (cases h) (auto simp: direct_HealthCheck_def np_HealthCheck_def Let_def)

lemma getStreamConn_keeps:
  "getStreamConn quicDial n = (r, n') \<Longrightarrow> n_address n' = n_address n \<and> mset (n_conns n') = mset (n_conns n)"
  by (cases "n_conns n") (auto simp: getStreamConn_def split: if_splits)

lemma pool_tick_bound: "length (n_conns n) \<le> poolSize \<Longrightarrow> length (n_conns (pool_tick quicDial n)) \<le> poolSize"
  by (auto simp: pool_tick_def split: sum.splits)

lemma net_close_closed [simp]: "is_closed (base_conn (net_close c))"
  by (cases c) (simp_all add: conn_close_def obfs_Close_def)

text \<open>A failed dial leaves no open connection behind.\<close>

lemma send_header_no_leak: "dr_err (send_header en meta c) \<noteq> None \<Longrightarrow> \<exists>c'. dr_conn (send_header en meta c) = Some c' \<and> is_closed (base_conn c')"
  by (auto simp: send_header_def dial_ok_def dial_fail_def split: sum.splits prod.splits option.splits)

lemma np_Dial_no_leak:
  assumes "fst (np_Dial quicDial en meta n) = r" "dr_err r \<noteq> None" "dr_conn r = Some c"
  shows "is_closed (base_conn c)"
proof -
  have "r = dial_fail None e" if "n_transport n \<noteq> ''quic''" "e = New (''unsupported transport: '' @ n_transport n)" for e
    using assms(1) that by (simp add: np_Dial_def)
  moreover have "\<exists>e. r = dial_fail None e \<or> (\<exists>c0. r = send_header en meta c0)" if "n_transport n = ''quic''"
    using assms(1) that by (auto simp: np_Dial_def split: prod.splits sum.splits)
  ultimately consider e where "r = dial_fail None e" | c0 where "r = send_header en meta c0" by metis
  then show ?thesis
  proof cases
    case 1
    with assms(3) show ?thesis by (simp add: dial_fail_def)
  next
    case 2
    with send_header_no_leak [of en meta c0] assms(2,3) show ?thesis by simp
  qed
qed

section \<open>Properties\<close>

text \<open>
  A failed dial leaks nothing. Whatever the handler, the network and the session, when
  \<^verbatim>\<open>Dial\<close> returns an error, every connection it opened is closed.
\<close>

theorem outbound_no_leak:
  assumes "dr_err (out_Dial netDial quicDial en meta h) \<noteq> None" "dr_conn (out_Dial netDial quicDial en meta h) = Some c"
  shows "is_closed (base_conn c)"
proof (cases h)
  case (Direct d)
  with assms show ?thesis by (auto simp: direct_Dial_def Let_def dial_ok_def dial_fail_def split: if_splits sum.splits)
next
  case (NPChain n)
  with assms np_Dial_no_leak [OF refl] show ?thesis by simp
qed

text \<open>A dialer for the examples: the peer sends nothing, and writes fail after \<open>k\<close> bytes.\<close>

definition demo_dial :: "nat option \<Rightarrow> string \<Rightarrow> conn res" where
  "demo_dial k addr = Inr ((peer_sends [])\<lparr>wlimit := k\<rparr>)"

definition demo_obfs :: ObfsConfig where
  "demo_obfs = \<lparr>oc_Type = [], oc_MaxPad = 0, oc_Interval = 0, oc_DummySize = 0\<rparr>"

definition demo_entropy :: entropy where
  "demo_entropy = \<lparr>en_uparse = demo_uparse, en_unew = replicate 16 0, en_pad = 5, en_junk = (\<lambda>i. 9), en_fpad = 0, en_fjunk = (\<lambda>i. 9)\<rparr>"

theorem outbound_no_leak_witness:
  "\<exists>c. dr_conn (out_Dial (\<lambda>n. demo_dial None) (demo_dial (Some 3)) demo_entropy (demo_meta [''nowhere''])
      (NPChain (NewNPChainHandler ''p'' ''g'' ''192.0.2.9:443'' ''quic'' demo_obfs False))) = Some c \<and> is_closed (base_conn c)"
proof -
  let ?d = "out_Dial (\<lambda>n. demo_dial None) (demo_dial (Some 3)) demo_entropy (demo_meta [''nowhere''])
      (NPChain (NewNPChainHandler ''p'' ''g'' ''192.0.2.9:443'' ''quic'' demo_obfs False))"
  have "hop_entry ''nowhere'' = Inl (Wrap ''invalid hop address'' (New ''missing port in address''))"
    by (simp add: hop_entry_def SplitHostPort_def LastIndexByte_def addr_error_def)
  then have d: "\<exists>c e. ?d = dial_fail (Some c) e"
    by (simp add: np_Dial_def NewNPChainHandler_def getStreamConn_def demo_dial_def demo_obfs_def send_header_def
        EncodeHeader_def Let_def res_bind_def) blast
  then obtain c e where "?d = dial_fail (Some c) e" by blast
  with outbound_no_leak [of "\<lambda>n. demo_dial None" "demo_dial (Some 3)" demo_entropy "demo_meta [''nowhere'']"
      "NPChain (NewNPChainHandler ''p'' ''g'' ''192.0.2.9:443'' ''quic'' demo_obfs False)" c]
  show ?thesis by (simp add: dial_fail_def)
qed

end
