(* ===== verification/Router.thy ===== *)
theory Router
  imports Outbound "HOL-Library.AList"
begin

text \<open>
  The router (\<^verbatim>\<open>internal/routing/router.go\<close>), the default rules (\<^verbatim>\<open>internal/routing/generator.go\<close>)
  and the GeoIP matcher (\<^verbatim>\<open>internal/routing/geoip.go\<close>).

  The resolver is an interface: the router keeps a reference of type \<open>'r\<close> and \<^verbatim>\<open>Route\<close> calls its
  \<^verbatim>\<open>ResolveFakeIP\<close>, a parameter. Go iterates over a map in an unspecified order, which may differ
  from one call to the next: the parameter \<open>ord\<close> permutes the entries.
\<close>

section \<open>GeoIP\<close>

text \<open>The MaxMind readers are parameters: the ISO code and the AS number of an address.\<close>

record GeoIPMatcher =
  gm_db :: "(bytes \<Rightarrow> string res) option"
  gm_asnDB :: "(bytes \<Rightarrow> nat res) option"

definition geo_Match :: "bytes \<Rightarrow> string \<Rightarrow> GeoIPMatcher \<Rightarrow> bool" where
  "geo_Match ip countryCode m = (case gm_db m of
     None \<Rightarrow> False | Some db \<Rightarrow> (case db ip of Inl e \<Rightarrow> False | Inr c \<Rightarrow> c = countryCode))"

definition geo_MatchASN :: "bytes \<Rightarrow> nat \<Rightarrow> GeoIPMatcher \<Rightarrow> bool" where
  "geo_MatchASN ip asn m = (case gm_asnDB m of
     None \<Rightarrow> False | Some db \<Rightarrow> (case db ip of Inl e \<Rightarrow> False | Inr n \<Rightarrow> n = asn))"

text \<open>
  \<^verbatim>\<open>http.Get\<close> is a parameter: an error, or the body that arrives and the error that ends it. The
  status code is not looked at. The parsers of the database files are parameters too.
\<close>

definition downloadFile ::
  "(string \<Rightarrow> (bytes \<times> error option) res) \<Rightarrow> (string \<Rightarrow> string) \<Rightarrow> string \<Rightarrow> string \<Rightarrow> fsys \<Rightarrow> error option \<times> fsys" where
  "downloadFile httpGet dirOf path url fs = (case httpGet url of
     Inl e \<Rightarrow> (Some e, fs)
   | Inr (body, ce) \<Rightarrow> (case WriteFile dirOf path body fs of
       (Some e, fs1) \<Rightarrow> (Some e, fs1) | (None, fs1) \<Rightarrow> (ce, fs1)))"

definition open_db :: "(bytes \<Rightarrow> 'd res) \<Rightarrow> string \<Rightarrow> fsys \<Rightarrow> 'd res" where
  "open_db parse path fs = (case map_of (fs_files fs) path of None \<Rightarrow> Inl ErrNotExist | Some d \<Rightarrow> parse d)"

definition download_missing ::
  "(string \<Rightarrow> (bytes \<times> error option) res) \<Rightarrow> (string \<Rightarrow> string) \<Rightarrow> string \<Rightarrow> string \<Rightarrow> fsys \<Rightarrow> error option \<times> fsys" where
  "download_missing httpGet dirOf path url fs =
     (if map_of (fs_files fs) path = None then downloadFile httpGet dirOf path url fs else (None, fs))"

definition NewGeoIPMatcher ::
  "(string \<Rightarrow> (bytes \<times> error option) res) \<Rightarrow> (string \<Rightarrow> string) \<Rightarrow> (bytes \<Rightarrow> (bytes \<Rightarrow> string res) res)
     \<Rightarrow> (bytes \<Rightarrow> (bytes \<Rightarrow> nat res) res) \<Rightarrow> string \<Rightarrow> string \<Rightarrow> fsys \<Rightarrow> GeoIPMatcher res \<times> fsys" where
  "NewGeoIPMatcher httpGet dirOf parseDB parseASN dbPath asnDBPath fs =
     (case download_missing httpGet dirOf dbPath
        ''https://github.com/P3TERX/GeoLite2-City-v2ray/raw/gh-pages/GeoLite2-City.mmdb'' fs of
        (Some e, fs) \<Rightarrow> (Inl e, fs)
      | (None, fs) \<Rightarrow> (case open_db parseDB dbPath fs of
          Inl e \<Rightarrow> (Inl e, fs)
        | Inr db \<Rightarrow>
            if asnDBPath = [] then (Inr \<lparr>gm_db = Some db, gm_asnDB = None\<rparr>, fs)
            else (case download_missing httpGet dirOf asnDBPath
                ''https://github.com/P3TERX/GeoLite2-City-v2ray/raw/gh-pages/GeoLite2-ASN.mmdb'' fs of
                (_, fs) \<Rightarrow> (Inr \<lparr>gm_db = Some db,
                   gm_asnDB = (case open_db parseASN asnDBPath fs of Inl e \<Rightarrow> None | Inr a \<Rightarrow> Some a)\<rparr>, fs))))"

section \<open>The router\<close>

record 'r BaseRouter =
  br_rules :: "routing_rule list"
  br_outbounds :: "(string \<times> OutboundHandler) list"
  br_geoip :: "GeoIPMatcher option"
  br_resolver :: "'r option"

definition NewRouter :: "'r BaseRouter" where
  "NewRouter = \<lparr>br_rules = [], br_outbounds = [], br_geoip = None, br_resolver = None\<rparr>"

definition SetResolver :: "'r \<Rightarrow> 'r BaseRouter \<Rightarrow> 'r BaseRouter" where
  "SetResolver res r = r\<lparr>br_resolver := Some res\<rparr>"

definition AddOutbound :: "OutboundHandler \<Rightarrow> 'r BaseRouter \<Rightarrow> 'r BaseRouter" where
  "AddOutbound out r = r\<lparr>br_outbounds := AList.update (out_Name out) out (br_outbounds r)\<rparr>"

definition RemoveOutbound :: "string \<Rightarrow> 'r BaseRouter \<Rightarrow> 'r BaseRouter" where
  "RemoveOutbound name r = r\<lparr>br_outbounds := AList.delete name (br_outbounds r)\<rparr>"

definition UpdateRules :: "routing_rule list \<Rightarrow> 'r BaseRouter \<Rightarrow> 'r BaseRouter" where
  "UpdateRules rules r = r\<lparr>br_rules := rules\<rparr>"

definition router_Reset :: "'r BaseRouter \<Rightarrow> 'r BaseRouter" where
  "router_Reset r = r\<lparr>br_rules := [], br_outbounds := []\<rparr>"

text \<open>\<^verbatim>\<open>match\<close>; a nil IP is the empty slice.\<close>

definition rule_match :: "GeoIPMatcher option \<Rightarrow> routing_rule \<Rightarrow> session_meta \<Rightarrow> bool" where
  "rule_match geoip rule meta =
     (let host = split_host (m_Target meta); ip = ParseIP host in
      if r_Type rule = ''default'' then True
      else if r_Type rule = ''domain'' then HasSuffix host (TrimPrefix (r_Pattern rule) ''*'')
      else if r_Type rule = ''ip'' then
        (case ParseCIDR (r_Pattern rule) of
           None \<Rightarrow> False | Some n \<Rightarrow> IPNet_Contains n (case ip of None \<Rightarrow> [] | Some a \<Rightarrow> a))
      else if r_Type rule = ''geoip'' then
        (case (ip, geoip) of (Some a, Some g) \<Rightarrow> geo_Match a (r_Pattern rule) g | _ \<Rightarrow> False)
      else if r_Type rule = ''asn'' then
        (case (ip, geoip) of (Some a, Some g) \<Rightarrow> geo_MatchASN a (sscanf_uint (r_Pattern rule)) g | _ \<Rightarrow> False)
      else False)"

text \<open>The loop of \<^verbatim>\<open>selectByStrategy\<close>: \<open>-4000\<close> is the initial score \<open>-1.0\<close>.\<close>

fun best_loop :: "OutboundHandler option \<Rightarrow> int \<Rightarrow> OutboundHandler list \<Rightarrow> OutboundHandler option" where
  "best_loop best maxScore [] = best"
| "best_loop best maxScore (c # cs) =
     (if maxScore < out_HealthCheck c then best_loop (Some c) (out_HealthCheck c) cs else best_loop best maxScore cs)"

definition selectByStrategy :: "OutboundHandler list \<Rightarrow> string \<Rightarrow> OutboundHandler res" where
  "selectByStrategy candidates strategy =
     (case (if strategy = ''lowest-latency'' then best_loop None (- 4000) candidates else None) of
        Some b \<Rightarrow> Inr b | None \<Rightarrow> go_index candidates 0)"

text \<open>Step 0 of \<^verbatim>\<open>Route\<close>: the target a fake address stands for.\<close>

definition restore_target :: "('r \<Rightarrow> bytes \<Rightarrow> string option res) \<Rightarrow> 'r BaseRouter \<Rightarrow> string \<Rightarrow> string res" where
  "restore_target ResolveFakeIP r target =
     (case (ParseIP (split_host target), br_resolver r) of
        (Some ip, Some res) \<Rightarrow> res_bind (ResolveFakeIP res ip) (\<lambda>d.
           Inr (case d of Some domain \<Rightarrow> JoinHostPort domain (split_port target) | None \<Rightarrow> target))
      | _ \<Rightarrow> Inr target)"

definition no_outbound :: "OutboundHandler option \<Rightarrow> OutboundHandler res" where
  "no_outbound x = (case x of Some h \<Rightarrow> Inr h | None \<Rightarrow> Inl ErrNoAvailableOutbound)"

definition route_rules ::
  "((string \<times> OutboundHandler) list \<Rightarrow> (string \<times> OutboundHandler) list) \<Rightarrow> 'r BaseRouter \<Rightarrow> session_meta \<Rightarrow> OutboundHandler res" where
  "route_rules ord r meta =
     (case find (\<lambda>rule. rule_match (br_geoip r) rule meta) (br_rules r) of
        None \<Rightarrow> no_outbound (map_of (br_outbounds r) ''default'')
      | Some rule \<Rightarrow>
          if r_Outbound rule \<noteq> [] then no_outbound (map_of (br_outbounds r) (r_Outbound rule))
          else
            let candidates = filter (\<lambda>h. out_Group h = r_OutboundGroup rule) (map snd (ord (br_outbounds r))) in
            if candidates = [] then Inl ErrNoAvailableOutbound
            else selectByStrategy candidates (r_Strategy rule))"

definition Route ::
  "((string \<times> OutboundHandler) list \<Rightarrow> (string \<times> OutboundHandler) list) \<Rightarrow> ('r \<Rightarrow> bytes \<Rightarrow> string option res)
     \<Rightarrow> 'r BaseRouter \<Rightarrow> session_meta \<Rightarrow> OutboundHandler res" where
  "Route ord ResolveFakeIP r meta =
     res_bind (restore_target ResolveFakeIP r (m_Target meta)) (\<lambda>target. route_rules ord r (meta\<lparr>m_Target := target\<rparr>))"

section \<open>Default rules\<close>

definition split_rule :: "string \<Rightarrow> string \<Rightarrow> string \<Rightarrow> routing_rule" where
  "split_rule t p ob = \<lparr>r_Type = t, r_Pattern = p, r_Outbound = ob, r_OutboundGroup = [], r_Strategy = []\<rparr>"

definition GenerateDefaultSplitConfig :: "string \<Rightarrow> routing_rule list" where
  "GenerateDefaultSplitConfig proxyOutbound =
     [split_rule ''ip'' ''127.0.0.0/8'' ''direct'', split_rule ''ip'' ''192.168.0.0/16'' ''direct'',
      split_rule ''ip'' ''10.0.0.0/8'' ''direct'', split_rule ''geoip'' ''CN'' ''direct'', split_rule ''default'' [] proxyOutbound]"

section \<open>Selecting a handler\<close>

lemma best_loop_spec:
  assumes "best_loop best m cs = b"
  shows "(b = best \<and> (\<forall>c \<in> set cs. out_HealthCheck c \<le> m))
    \<or> (\<exists>h \<in> set cs. b = Some h \<and> m < out_HealthCheck h \<and> (\<forall>c \<in> set cs. out_HealthCheck c \<le> out_HealthCheck h))"
  using assms
proof (induction cs arbitrary: best m)
  case (Cons c cs)
  show ?case
  proof (cases "m < out_HealthCheck c")
    case True
    then have "best_loop (Some c) (out_HealthCheck c) cs = b" using Cons.prems by simp
    from Cons.IH [OF this] True show ?thesis by fastforce
  next
    case False
    then have "best_loop best m cs = b" using Cons.prems by simp
    from Cons.IH [OF this] False show ?thesis by fastforce
  qed
qed simp

text \<open>The chosen candidate is one of the group, and under \<open>lowest-latency\<close> one of the best scores.\<close>

lemma selectByStrategy_spec:
  assumes "cs \<noteq> []"
  shows "\<exists>h \<in> set cs. selectByStrategy cs strategy = Inr h
    \<and> (strategy = ''lowest-latency'' \<longrightarrow> (\<forall>c \<in> set cs. out_HealthCheck c \<le> out_HealthCheck h))"
proof (cases "strategy = ''lowest-latency''")
  case True
  obtain c where c: "c \<in> set cs" using assms by fastforce
  then have "- 4000 < out_HealthCheck c" using out_HealthCheck_range [of c] by linarith
  then show ?thesis
    using best_loop_spec [OF refl, of None "- 4000" cs] c True by (fastforce simp: selectByStrategy_def)
next
  case False
  with assms show ?thesis by (intro bexI [of _ "hd cs"]) (simp_all add: selectByStrategy_def go_index_def hd_conv_nth)
qed

section \<open>GeoIP lemmas\<close>

text \<open>
  A download is kept whatever it was: when the file exists, a start does not fetch it again, so a
  body that does not parse makes every later start fail.
\<close>

lemma geo_bad_download_sticks:
  assumes "map_of (fs_files fs) dbPath = Some d" "parseDB d = Inl e"
  shows "NewGeoIPMatcher httpGet dirOf parseDB parseASN dbPath asnDBPath fs = (Inl e, fs)"
  using assms by (simp add: NewGeoIPMatcher_def download_missing_def open_db_def)

lemma geo_first_start:
  assumes "map_of (fs_files fs) dbPath = None" "dirOf dbPath \<in> set (fs_dirs fs)" "parseDB body = Inr db"
    and "httpGet ''https://github.com/P3TERX/GeoLite2-City-v2ray/raw/gh-pages/GeoLite2-City.mmdb'' = Inr (body, None)"
  shows "fst (NewGeoIPMatcher httpGet dirOf parseDB parseASN dbPath [] fs) = Inr \<lparr>gm_db = Some db, gm_asnDB = None\<rparr>"
  using assms by (simp add: NewGeoIPMatcher_def download_missing_def downloadFile_def WriteFile_def open_db_def)

section \<open>Properties\<close>

text \<open>What a route is, without regard to the order in which the map is walked.\<close>

definition route_spec :: "'r BaseRouter \<Rightarrow> session_meta \<Rightarrow> OutboundHandler \<Rightarrow> bool" where
  "route_spec r meta h =
     (case find (\<lambda>rule. rule_match (br_geoip r) rule meta) (br_rules r) of
        None \<Rightarrow> map_of (br_outbounds r) ''default'' = Some h
      | Some rule \<Rightarrow>
          if r_Outbound rule \<noteq> [] then map_of (br_outbounds r) (r_Outbound rule) = Some h
          else h \<in> snd ` set (br_outbounds r) \<and> out_Group h = r_OutboundGroup rule
            \<and> (r_Strategy rule = ''lowest-latency'' \<longrightarrow> (\<forall>g \<in> snd ` set (br_outbounds r).
                 out_Group g = r_OutboundGroup rule \<longrightarrow> out_HealthCheck g \<le> out_HealthCheck h)))"

text \<open>
  C8: Routing is correct and complete for every iteration order of the outbound map. The first
  matching rule decides: its named outbound, or a member of its group, under \<^verbatim>\<open>lowest-latency\<close>
  one with the best score of the group; without a match the outbound \<^verbatim>\<open>default\<close>. An error is
  returned exactly when no outbound fits, and it is \<^verbatim>\<open>ErrNoAvailableOutbound\<close>.
\<close>

theorem route_correct:
  assumes "\<And>xs. set (ord xs) = set xs"
  shows "case route_rules ord r meta of
      Inr h \<Rightarrow> route_spec r meta h
    | Inl e \<Rightarrow> e = ErrNoAvailableOutbound \<and> (\<forall>h. \<not> route_spec r meta h)"
proof (cases "find (\<lambda>rule. rule_match (br_geoip r) rule meta) (br_rules r)")
  case None
  then show ?thesis by (simp add: route_rules_def route_spec_def no_outbound_def split: option.splits)
next
  case (Some rule)
  let ?cs = "filter (\<lambda>h. out_Group h = r_OutboundGroup rule) (map snd (ord (br_outbounds r)))"
  have cs: "set ?cs = {h \<in> snd ` set (br_outbounds r). out_Group h = r_OutboundGroup rule}" using assms by auto
  consider "r_Outbound rule \<noteq> []" | "r_Outbound rule = []" "?cs = []" | "r_Outbound rule = []" "?cs \<noteq> []" by blast
  then show ?thesis
  proof cases
    case 1
    with Some show ?thesis by (simp add: route_rules_def route_spec_def no_outbound_def split: option.splits)
  next
    case 2
    then have "route_rules ord r meta = Inl ErrNoAvailableOutbound" using Some by (simp add: route_rules_def Let_def)
    moreover have "set ?cs = {}" using 2 by simp
    ultimately show ?thesis using Some 2(1) cs by (auto simp: route_spec_def)
  next
    case 3
    obtain h where h: "h \<in> set ?cs" "selectByStrategy ?cs (r_Strategy rule) = Inr h"
        "r_Strategy rule = ''lowest-latency'' \<longrightarrow> (\<forall>c \<in> set ?cs. out_HealthCheck c \<le> out_HealthCheck h)"
      using selectByStrategy_spec [OF 3(2)] by blast
    have "route_rules ord r meta = Inr h" using Some 3 h(2) by (simp add: route_rules_def Let_def)
    with Some 3(1) h(1,3) show ?thesis unfolding cs by (simp add: route_spec_def)
  qed
qed

definition demo_router :: "unit BaseRouter" where
  "demo_router = AddOutbound (Direct (NewDirectHandler ''direct'' ''g''))
     (AddOutbound (NPChain ((NewNPChainHandler ''px'' ''g'' ''192.0.2.9:443'' ''quic'' demo_obfs False)\<lparr>n_latencyMs := 40\<rparr>))
       (UpdateRules [(split_rule ''default'' [] [])\<lparr>r_OutboundGroup := ''g'', r_Strategy := ''lowest-latency''\<rparr>] NewRouter))"

lemmas demo_router_defs = demo_router_def AddOutbound_def UpdateRules_def NewRouter_def split_rule_def
  NewDirectHandler_def NewNPChainHandler_def direct_HealthCheck_def np_HealthCheck_def

theorem route_correct_witness:
  "\<exists>h. route_rules rev demo_router meta0 = Inr h \<and> route_spec demo_router meta0 h \<and> out_Name h = ''direct''"
  using route_correct [of rev demo_router meta0]
  by (simp add: route_rules_def rule_match_def selectByStrategy_def demo_router_defs)

lemma split_blocks:
  "ParseCIDR ''127.0.0.0/8'' = Some \<lparr>net_ip = [127, 0, 0, 0], net_mask = [255, 0, 0, 0]\<rparr>"
  "ParseCIDR ''192.168.0.0/16'' = Some \<lparr>net_ip = [192, 168, 0, 0], net_mask = [255, 255, 0, 0]\<rparr>"
  "ParseCIDR ''10.0.0.0/8'' = Some \<lparr>net_ip = [10, 0, 0, 0], net_mask = [255, 0, 0, 0]\<rparr>"
proof -
  have m: "cidr_mask 8 4 = [255, 0, 0, 0]" "cidr_mask 16 4 = [255, 255, 0, 0]" by code_simp+
  show "ParseCIDR ''127.0.0.0/8'' = Some \<lparr>net_ip = [127, 0, 0, 0], net_mask = [255, 0, 0, 0]\<rparr>"
    "ParseCIDR ''192.168.0.0/16'' = Some \<lparr>net_ip = [192, 168, 0, 0], net_mask = [255, 255, 0, 0]\<rparr>"
    "ParseCIDR ''10.0.0.0/8'' = Some \<lparr>net_ip = [10, 0, 0, 0], net_mask = [255, 0, 0, 0]\<rparr>"
    by (simp_all add: ParseCIDR_def ParseAddr_def is_digit_def digit_val_def Let_def mask_bytes_def m)
qed

lemma mask_255 [simp]: "(x :: byte) AND 255 = x"
proof -
  have "(255 :: byte) = - 1" by simp
  then show ?thesis by (metis and.right_neutral)
qed

lemma split_contains:
  "IPNet_Contains \<lparr>net_ip = [n, 0, 0, 0], net_mask = [255, 0, 0, 0]\<rparr> (v4InV6Prefix @ [a, b, c, d]) \<longleftrightarrow> a = n"
  "IPNet_Contains \<lparr>net_ip = [n, k, 0, 0], net_mask = [255, 255, 0, 0]\<rparr> (v4InV6Prefix @ [a, b, c, d]) \<longleftrightarrow> a = n \<and> b = k"
  by (auto simp: IPNet_Contains_def network_number_and_mask_def To4_def v4InV6Prefix_def mask_bytes_def Let_def)

lemma private_v4_match:
  assumes "split_host (m_Target meta) = IP_String [a, b, c, d]"
  shows "rule_match g (split_rule ''ip'' ''127.0.0.0/8'' ob) meta \<longleftrightarrow> a = 127"
    "rule_match g (split_rule ''ip'' ''192.168.0.0/16'' ob) meta \<longleftrightarrow> a = 192 \<and> b = 168"
    "rule_match g (split_rule ''ip'' ''10.0.0.0/8'' ob) meta \<longleftrightarrow> a = 10"
    "\<not> rule_match None (split_rule ''geoip'' cc ob) meta"
    "rule_match g (split_rule ''default'' pat ob) meta"
  using assms ParseIP_String_v4 [of "[a, b, c, d]"] split_contains
  by (simp_all add: rule_match_def split_rule_def split_blocks Let_def del: of_nat_numeral)

text \<open>
  The default split rules, as the router applies them. Without a GeoIP database, which is how
  the program runs since nothing sets one, exactly the three private blocks named in the rules go
  direct and every other IPv4 target, Chinese ones included, goes to the proxy.
\<close>

theorem default_split_routes:
  assumes "br_rules r = GenerateDefaultSplitConfig px" "br_geoip r = None" "px \<noteq> []"
    and "map_of (br_outbounds r) ''direct'' = Some dir" "map_of (br_outbounds r) px = Some pro"
    and "m_Target meta = JoinHostPort (IP_String [a, b, c, d]) (nat_to_dec port)"
  shows "route_rules ord r meta = Inr (if a = 127 \<or> a = 10 \<or> (a = 192 \<and> b = 168) then dir else pro)"
proof -
  have "split_host (m_Target meta) = IP_String [a, b, c, d]" using assms(6) IP_String_plain by (simp add: split_host_Join)
  note match = private_v4_match [OF this]
  show ?thesis
    using assms(1-5) by (simp add: route_rules_def GenerateDefaultSplitConfig_def match no_outbound_def)
      (simp add: split_rule_def)
qed

definition split_router :: "unit BaseRouter" where
  "split_router = AddOutbound (Direct (NewDirectHandler ''direct'' ''default''))
     (AddOutbound (NPChain (NewNPChainHandler ''px'' ''g'' ''192.0.2.9:443'' ''quic'' demo_obfs False))
       (UpdateRules (GenerateDefaultSplitConfig ''px'') NewRouter))"

theorem default_split_routes_witness:
  "route_rules rev split_router (meta0\<lparr>m_Target := JoinHostPort (IP_String [10, 0, 0, 7]) (nat_to_dec 443)\<rparr>)
     = Inr (Direct (NewDirectHandler ''direct'' ''default''))
   \<and> route_rules rev split_router (meta0\<lparr>m_Target := JoinHostPort (IP_String [114, 114, 114, 114]) (nat_to_dec 53)\<rparr>)
     = Inr (NPChain (NewNPChainHandler ''px'' ''g'' ''192.0.2.9:443'' ''quic'' demo_obfs False))"
proof -
  let ?px = "NPChain (NewNPChainHandler ''px'' ''g'' ''192.0.2.9:443'' ''quic'' demo_obfs False)"
  have r: "br_rules split_router = GenerateDefaultSplitConfig ''px''" "br_geoip split_router = None"
    "map_of (br_outbounds split_router) ''direct'' = Some (Direct (NewDirectHandler ''direct'' ''default''))"
    "map_of (br_outbounds split_router) ''px'' = Some ?px"
    by (simp_all add: split_router_def AddOutbound_def UpdateRules_def NewRouter_def NewDirectHandler_def NewNPChainHandler_def)
  show ?thesis
    using default_split_routes [OF r(1,2) _ r(3,4), of "meta0\<lparr>m_Target := JoinHostPort (IP_String [10, 0, 0, 7]) (nat_to_dec 443)\<rparr>"
        10 0 0 7 443 rev]
      default_split_routes [OF r(1,2) _ r(3,4), of "meta0\<lparr>m_Target := JoinHostPort (IP_String [114, 114, 114, 114]) (nat_to_dec 53)\<rparr>"
        114 114 114 114 53 rev]
    by simp
qed

text \<open>
  \<^verbatim>\<open>lowest-latency\<close> may choose an unreachable node over a working one. A probe that fails stores
  the latency 9999, which scores 0.1; a node that answers within 1800 to 1999 milliseconds scores
  less, so with such a node in the group the dead one is chosen in every iteration order.
\<close>

theorem dead_node_preferred:
  assumes "quicDial (n_address n1) = Inl e" "quicDial (n_address n2) = Inr c" "1800 \<le> ms" "ms < 2000"
    and "set cs = {NPChain (probe_tick quicDial t n1), NPChain (probe_tick quicDial ms n2)}"
  shows "selectByStrategy cs ''lowest-latency'' = Inr (NPChain (probe_tick quicDial t n1))"
proof -
  let ?a = "NPChain (probe_tick quicDial t n1)" and ?b = "NPChain (probe_tick quicDial ms n2)"
  have s: "out_HealthCheck ?a = 400" "out_HealthCheck ?b < 400"
    using assms(1-4) by (simp_all add: probe_tick_def np_HealthCheck_def Let_def)
  have "cs \<noteq> []" using assms(5) by (metis insert_not_empty list.set(1))
  then obtain h where h: "h \<in> set cs" "selectByStrategy cs ''lowest-latency'' = Inr h"
      "\<forall>c \<in> set cs. out_HealthCheck c \<le> out_HealthCheck h"
    using selectByStrategy_spec by blast
  have "?a \<in> set cs" unfolding assms(5) by simp
  with h(3) s(1) have "400 \<le> out_HealthCheck h" by (metis)
  with s(2) have "h \<noteq> ?b" by (metis not_le)
  with h(1) have "h = ?a" unfolding assms(5) by blast
  with h(2) show ?thesis by simp
qed

definition demo_node :: "string \<Rightarrow> NPChainHandler" where
  "demo_node addr = NewNPChainHandler addr ''g'' addr ''quic'' demo_obfs False"

definition demo_half_down :: "string \<Rightarrow> conn res" where
  "demo_half_down addr = (if addr = ''a'' then Inl ErrTimeout else Inr (peer_sends []))"

theorem dead_node_preferred_witness:
  "selectByStrategy [NPChain (probe_tick demo_half_down 1900 (demo_node ''b'')), NPChain (probe_tick demo_half_down 3000 (demo_node ''a''))]
     ''lowest-latency'' = Inr (NPChain (probe_tick demo_half_down 3000 (demo_node ''a'')))"
proof -
  have d: "demo_half_down (n_address (demo_node ''a'')) = Inl ErrTimeout" "demo_half_down (n_address (demo_node ''b'')) = Inr (peer_sends [])"
    by (simp_all add: demo_half_down_def demo_node_def NewNPChainHandler_def)
  show ?thesis by (rule dead_node_preferred [OF d, of 1900]) auto
qed

end
