(* ===== verification/Inbounds.thy ===== *)
theory Inbounds
  imports Relaying Sniffer ProxyProto Router
begin

text \<open>
  What the inbound handlers share, and the stream handlers that do not authenticate:
  \<^verbatim>\<open>internal/inbound/tcp_forward.go\<close>, \<^verbatim>\<open>redirect.go\<close>, \<^verbatim>\<open>original_dst_linux.go\<close>, \<^verbatim>\<open>tproxy_linux.go\<close>,
  \<^verbatim>\<open>tcp_balance.go\<close> and \<^verbatim>\<open>npchain.go\<close>. A handler is modelled up to its call of \<^verbatim>\<open>DualRelay\<close>: the
  outcome is the connection it dropped, or the arguments of that call, which theory \<open>Relaying\<close>
  takes over. An unrecovered panic ends the process and is an outcome of its own.

  \<open>services\<close> is what a handler reaches through its arguments: the router, the dialing of an
  outbound, the next UUID and the time.
\<close>

section \<open>Accepting\<close>

text \<open>
  The accept loop of the \<^verbatim>\<open>Start\<close> methods: for every call of \<^verbatim>\<open>Accept\<close>, whether the context is done
  and what it returns. The result is the connections handed to goroutines, and whether \<^verbatim>\<open>Start\<close>
  has returned.
\<close>

fun accept_loop :: "(bool \<times> 'c res) list \<Rightarrow> 'c list \<times> bool" where
  "accept_loop [] = ([], False)"
| "accept_loop ((ctxDone, Inr c) # evs) = (case accept_loop evs of (cs, r) \<Rightarrow> (c # cs, r))"
| "accept_loop ((ctxDone, Inl e) # evs) = (if ctxDone then ([], True) else accept_loop evs)"

text \<open>\<^verbatim>\<open>Accept\<close> of a listener made by \<^verbatim>\<open>common.Listen\<close>, plain or with the PROXY protocol.\<close>

definition listener_Accept :: "bool \<Rightarrow> conn res \<Rightarrow> (conn + ProxyProtoConn) res" where
  "listener_Accept useProxyProto r = res_bind r (\<lambda>c.
     if useProxyProto then res_bind (WrapProxyProto c) (\<lambda>p. Inr (Inr p)) else Inr (Inl c))"

text \<open>A \<^verbatim>\<open>Start\<close> method: the error of listening, or the run of the accept loop.\<close>

definition start_accepting :: "bool \<Rightarrow> error option \<Rightarrow> (bool \<times> conn res) list \<Rightarrow> error + (conn + ProxyProtoConn) list \<times> bool" where
  "start_accepting useProxyProto listenErr evs = (case listenErr of
     Some e \<Rightarrow> Inl e
   | None \<Rightarrow> Inr (accept_loop (map (\<lambda>(ctxDone, r). (ctxDone, listener_Accept useProxyProto r)) evs)))"

section \<open>Services and outcomes\<close>

record services =
  sv_route :: "session_meta \<Rightarrow> OutboundHandler res"
  sv_dial :: "OutboundHandler \<Rightarrow> session_meta \<Rightarrow> dialed"
  sv_uuid :: string
  sv_now :: int

record 'c relay_start =
  rs_client :: 'c
  rs_target :: netconn
  rs_meta :: session_meta
  rs_user :: string
  rs_limiter :: "BandwidthLimiter option"
  rs_quota :: bool

datatype 'c outcome = Dropped 'c | Relayed "'c relay_start" | Crashed string

datatype conn_fail = NoRoute error | NoDial error | Crash string

definition dial_with :: "services \<Rightarrow> OutboundHandler \<Rightarrow> session_meta \<Rightarrow> conn_fail + netconn" where
  "dial_with sv h meta = (let d = sv_dial sv h meta in
     case dr_err d of
       Some (GoPanic s) \<Rightarrow> Inl (Crash s)
     | Some e \<Rightarrow> Inl (NoDial e)
     | None \<Rightarrow> (case dr_conn d of Some c \<Rightarrow> Inr c | None \<Rightarrow> Inl (Crash ''nil pointer dereference'')))"

text \<open>\<^verbatim>\<open>router.Route(meta)\<close> followed by \<^verbatim>\<open>outbound.Dial(ctx, meta)\<close>.\<close>

definition connect :: "services \<Rightarrow> session_meta \<Rightarrow> conn_fail + netconn" where
  "connect sv meta = (case sv_route sv meta of
     Inl (GoPanic s) \<Rightarrow> Inl (Crash s)
   | Inl e \<Rightarrow> Inl (NoRoute e)
   | Inr h \<Rightarrow> dial_with sv h meta)"

definition relay_or_drop :: "conn_fail + netconn \<Rightarrow> session_meta \<Rightarrow> string \<Rightarrow> 'c \<Rightarrow> 'c \<Rightarrow> 'c outcome" where
  "relay_or_drop r meta user client closed = (case r of
     Inl (Crash s) \<Rightarrow> Crashed s
   | Inl f \<Rightarrow> Dropped closed
   | Inr t \<Rightarrow> Relayed \<lparr>rs_client = client, rs_target = t, rs_meta = meta, rs_user = user, rs_limiter = None, rs_quota = False\<rparr>)"

definition buf_close :: "conn bufio \<Rightarrow> conn bufio" where
  "buf_close b = b\<lparr>bsrc := conn_close (bsrc b)\<rparr>"

text \<open>The sniffed domain replaces the host of the target and keeps its port.\<close>

definition sniff_target :: "string \<Rightarrow> SniffedResult option \<Rightarrow> string" where
  "sniff_target target result = (case result of
     None \<Rightarrow> target
   | Some r \<Rightarrow> if sr_Domain r \<noteq> [] then JoinHostPort (sr_Domain r) (split_port target) else target)"

fun panic_text :: "error \<Rightarrow> string" where
  "panic_text (GoPanic s) = s"
| "panic_text e = []"

section \<open>TCP forward\<close>

record TCPForwardHandler =
  tf_listenAddr :: string
  tf_useProxyProto :: bool
  tf_targetAddr :: string

definition NewTCPForwardHandler :: "string \<Rightarrow> bool \<Rightarrow> string \<Rightarrow> TCPForwardHandler" where
  "NewTCPForwardHandler listen useProxyProto target =
     \<lparr>tf_listenAddr = listen, tf_useProxyProto = useProxyProto, tf_targetAddr = target\<rparr>"

definition tf_Start :: "TCPForwardHandler \<Rightarrow> error option \<Rightarrow> (bool \<times> conn res) list \<Rightarrow> error + (conn + ProxyProtoConn) list \<times> bool" where
  "tf_Start h listenErr evs = start_accepting (tf_useProxyProto h) listenErr evs"

definition tf_handle :: "services \<Rightarrow> TCPForwardHandler \<Rightarrow> conn \<Rightarrow> conn bufio outcome" where
  "tf_handle sv h c = (case SniffConn c of
     (Inl e, b) \<Rightarrow> Crashed (panic_text e)
   | (Inr result, b) \<Rightarrow>
       let target = sniff_target (tf_targetAddr h) result;
           meta = meta0\<lparr>m_ID := sv_uuid sv, m_Source := raddr c, m_Target := target, m_Network := ''tcp'',
             m_HopChain := [target], m_CreatedAt := sv_now sv\<rparr> in
       relay_or_drop (connect sv meta) meta ''anonymous'' b (buf_close b))"

section \<open>Transparent proxies\<close>

text \<open>
  The original destination of a redirected connection. The system calls are parameters; the one
  for IPv6 returns the address and the port in network byte order as a little-endian host reads it.
\<close>

definition swap_port :: "u16 \<Rightarrow> u16" where
  "swap_port p = drop_bit 8 p OR push_bit 8 p"

definition getOriginalDstIPv6 :: "(bytes \<times> u16) res \<Rightarrow> string res" where
  "getOriginalDstIPv6 getsockopt = res_bind getsockopt (\<lambda>(ip, p).
     Inr (JoinHostPort (IP_String ip) (nat_to_dec (unat (swap_port p)))))"

text \<open>A connection wrapped for the PROXY protocol is no \<^verbatim>\<open>*net.TCPConn\<close>.\<close>

definition getOriginalDst :: "bool \<Rightarrow> string res \<Rightarrow> (bytes \<times> u16) res \<Rightarrow> string res" where
  "getOriginalDst isTCP ipv4 getsockopt6 =
     (if \<not> isTCP then Inl (New ''not a TCP connection'')
      else (case ipv4 of Inr a \<Rightarrow> Inr a | Inl e \<Rightarrow> getOriginalDstIPv6 getsockopt6))"

record RedirectHandler =
  rd_listenAddr :: string
  rd_useProxyProto :: bool

definition NewRedirectHandler :: "string \<Rightarrow> bool \<Rightarrow> RedirectHandler" where
  "NewRedirectHandler listen useProxyProto = \<lparr>rd_listenAddr = listen, rd_useProxyProto = useProxyProto\<rparr>"

definition rd_Start :: "RedirectHandler \<Rightarrow> error option \<Rightarrow> (bool \<times> conn res) list \<Rightarrow> error + (conn + ProxyProtoConn) list \<times> bool" where
  "rd_Start h listenErr evs = start_accepting (rd_useProxyProto h) listenErr evs"

text \<open>The session of a transparent proxy: no hop chain is set.\<close>

definition transparent_meta :: "services \<Rightarrow> conn \<Rightarrow> string \<Rightarrow> session_meta" where
  "transparent_meta sv c target = meta0\<lparr>m_ID := sv_uuid sv, m_Source := raddr c, m_Target := target,
     m_Network := ''tcp'', m_CreatedAt := sv_now sv\<rparr>"

definition rd_handle :: "services \<Rightarrow> string res \<Rightarrow> conn \<Rightarrow> conn bufio outcome" where
  "rd_handle sv dst c = (case dst of
     Inl e \<Rightarrow> Dropped (buf_close (bufio_new c))
   | Inr target \<Rightarrow> (case SniffConn c of
       (Inl e, b) \<Rightarrow> Crashed (panic_text e)
     | (Inr result, b) \<Rightarrow>
         let meta = transparent_meta sv c (sniff_target target result) in
         relay_or_drop (connect sv meta) meta ''transparent'' b (buf_close b)))"

record TProxyHandler =
  tp_listenAddr :: string
  tp_useProxyProto :: bool

definition NewTProxyHandler :: "string \<Rightarrow> bool \<Rightarrow> TProxyHandler" where
  "NewTProxyHandler listen useProxyProto = \<lparr>tp_listenAddr = listen, tp_useProxyProto = useProxyProto\<rparr>"

definition tp_Start :: "TProxyHandler \<Rightarrow> error option \<Rightarrow> (bool \<times> conn res) list \<Rightarrow> error + (conn + ProxyProtoConn) list \<times> bool" where
  "tp_Start h listenErr evs = start_accepting (tp_useProxyProto h) (map_option (Wrap ''failed to listen tproxy'') listenErr) evs"

definition tp_handle :: "services \<Rightarrow> conn \<Rightarrow> conn bufio outcome" where
  "tp_handle sv c = (case SniffConn c of
     (Inl e, b) \<Rightarrow> Crashed (panic_text e)
   | (Inr result, b) \<Rightarrow>
       let meta = transparent_meta sv c (sniff_target (laddr c) result) in
       relay_or_drop (connect sv meta) meta ''tproxy'' b (buf_close b))"

section \<open>Load balancing\<close>

record targetStatus =
  ts_outbound :: OutboundHandler
  ts_score :: int
  ts_updated :: int

record TCPBalanceHandler =
  tb_listenAddr :: string
  tb_useProxyProto :: bool
  tb_targets :: "string list"
  tb_counter :: "64 word"
  tb_targetStatuses :: "(string \<times> targetStatus) list"

definition NewTCPBalanceHandler :: "string \<Rightarrow> bool \<Rightarrow> string list \<Rightarrow> TCPBalanceHandler" where
  "NewTCPBalanceHandler listen useProxyProto targets =
     \<lparr>tb_listenAddr = listen, tb_useProxyProto = useProxyProto, tb_targets = targets, tb_counter = 0, tb_targetStatuses = []\<rparr>"

text \<open>Health checking runs in a goroutine of its own beside the accept loop.\<close>

definition tb_Start :: "TCPBalanceHandler \<Rightarrow> error option \<Rightarrow> (bool \<times> conn res) list \<Rightarrow> error + (conn + ProxyProtoConn) list \<times> bool" where
  "tb_Start h listenErr evs = start_accepting (tb_useProxyProto h) listenErr evs"

text \<open>
  One run of \<^verbatim>\<open>check\<close> in \<^verbatim>\<open>healthCheckLoop\<close>; the score is \<^verbatim>\<open>HealthCheck\<close> at that time. A target
  without a route is skipped and keeps its old entry.
\<close>

fun check_targets :: "services \<Rightarrow> string list \<Rightarrow> (string \<times> targetStatus) list \<Rightarrow> (string \<times> targetStatus) list res" where
  "check_targets sv [] st = Inr st"
| "check_targets sv (t # ts) st = (case sv_route sv (meta0\<lparr>m_Target := t\<rparr>) of
     Inl (GoPanic s) \<Rightarrow> Inl (GoPanic s)
   | Inl e \<Rightarrow> check_targets sv ts st
   | Inr out \<Rightarrow> check_targets sv ts
       (AList.update t \<lparr>ts_outbound = out, ts_score = out_HealthCheck out, ts_updated = sv_now sv\<rparr> st))"

fun best_status :: "(string \<times> OutboundHandler) option \<Rightarrow> int \<Rightarrow> (string \<times> targetStatus) list \<Rightarrow> (string \<times> OutboundHandler) option \<times> int" where
  "best_status best maxScore [] = (best, maxScore)"
| "best_status best maxScore ((t, s) # sts) =
     (if maxScore < ts_score s then best_status (Some (t, ts_outbound s)) (ts_score s) sts else best_status best maxScore sts)"

text \<open>
  The choice of a target: the best status, or, when it scores below 0.1 (400 in the model's unit)
  or there is none, the next target in turn, whose route may fail.
\<close>

definition pick_target ::
  "services \<Rightarrow> ((string \<times> targetStatus) list \<Rightarrow> (string \<times> targetStatus) list) \<Rightarrow> TCPBalanceHandler
     \<Rightarrow> (string \<times> OutboundHandler) option res \<times> TCPBalanceHandler" where
  "pick_target sv ord h = (case best_status None (- 4000) (ord (tb_targetStatuses h)) of
     (best, maxScore) \<Rightarrow>
       if maxScore < 400 then
         let n = tb_counter h + 1; h' = h\<lparr>tb_counter := n\<rparr> in
         if tb_targets h = [] then (Inl (GoPanic ''integer divide by zero''), h')
         else
           let t = tb_targets h ! (unat n mod length (tb_targets h)) in
           (case sv_route sv (meta0\<lparr>m_Target := t\<rparr>) of
              Inl (GoPanic s) \<Rightarrow> (Inl (GoPanic s), h')
            | Inl e \<Rightarrow> (Inr None, h')
            | Inr out \<Rightarrow> (Inr (Some (t, out)), h'))
       else (Inr best, h))"

definition tb_handle ::
  "services \<Rightarrow> ((string \<times> targetStatus) list \<Rightarrow> (string \<times> targetStatus) list) \<Rightarrow> conn \<Rightarrow> TCPBalanceHandler
     \<Rightarrow> conn bufio outcome \<times> TCPBalanceHandler" where
  "tb_handle sv ord c h = (case SniffConn c of
     (Inl e, b) \<Rightarrow> (Crashed (panic_text e), h)
   | (Inr result, b) \<Rightarrow> (case pick_target sv ord h of
       (Inl e, h') \<Rightarrow> (Crashed (panic_text e), h')
     | (Inr None, h') \<Rightarrow> (Dropped (buf_close b), h')
     | (Inr (Some (t, out)), h') \<Rightarrow>
         let meta = meta0\<lparr>m_ID := sv_uuid sv, m_Source := raddr c, m_Target := sniff_target t result, m_Network := ''tcp''\<rparr> in
         (relay_or_drop (dial_with sv out meta) meta ''anonymous'' b (buf_close b), h')))"

section \<open>The tunnel's relay and egress\<close>

fun net_read :: "netconn \<Rightarrow> nat \<Rightarrow> (bytes \<times> error option) \<times> netconn" where
  "net_read (Inl c) n = (case conn_read c n of (r, c') \<Rightarrow> (r, Inl c'))"
| "net_read (Inr ob) n = (case obfs_Read ob n of (r, ob') \<Rightarrow> (r, Inr ob'))"

text \<open>
  \<^verbatim>\<open>defer conn.Close()\<close> is evaluated before the connection is wrapped, so it closes the connection
  below and does not cancel the heartbeat of the wrapper.
\<close>

fun close_base :: "netconn \<Rightarrow> netconn" where
  "close_base (Inl c) = Inl (conn_close c)"
| "close_base (Inr ob) = Inr (ob\<lparr>o_conn := conn_close (o_conn ob)\<rparr>)"

record NPChainInboundHandler =
  ni_obfs :: ObfsConfig

definition NewNPChainInboundHandler :: "ObfsConfig \<Rightarrow> NPChainInboundHandler" where
  "NewNPChainInboundHandler obfs = \<lparr>ni_obfs = obfs\<rparr>"

definition relay_system :: "session_meta \<Rightarrow> netconn \<Rightarrow> netconn \<Rightarrow> netconn outcome" where
  "relay_system meta client target = Relayed \<lparr>rs_client = client, rs_target = target, rs_meta = meta,
     rs_user = ''relay-system'', rs_limiter = None, rs_quota = False\<rparr>"

definition act_as_egress :: "(string \<Rightarrow> string \<Rightarrow> conn res) \<Rightarrow> decoded \<Rightarrow> netconn \<Rightarrow> netconn outcome" where
  "act_as_egress netDial d nc =
     (let network = (if d_network d = [] then ''tcp'' else d_network d) in
      case netDial network (d_nextHop d) of
        Inl e \<Rightarrow> Dropped (close_base nc)
      | Inr t \<Rightarrow> relay_system (meta0\<lparr>m_ID := d_sessionID d, m_Target := d_nextHop d, m_Network := network\<rparr>) nc (Inl t))"

definition act_as_relay :: "services \<Rightarrow> entropy \<Rightarrow> decoded \<Rightarrow> netconn \<Rightarrow> netconn outcome" where
  "act_as_relay sv en d nc =
     (let meta = meta0\<lparr>m_ID := d_sessionID d, m_Target := d_nextHop d, m_Network := d_network d\<rparr> in
      case connect sv meta of
        Inl (Crash s) \<Rightarrow> Crashed s
      | Inl f \<Rightarrow> Dropped (close_base nc)
      | Inr t \<Rightarrow> (case net_write en (d_remaining d) t of
          (Some e, t') \<Rightarrow> Dropped (close_base nc)
        | (None, t') \<Rightarrow> relay_system meta nc t'))"

definition HandleRelay ::
  "(string \<Rightarrow> string \<Rightarrow> conn res) \<Rightarrow> (bytes \<Rightarrow> string) \<Rightarrow> services \<Rightarrow> entropy \<Rightarrow> NPChainInboundHandler \<Rightarrow> conn \<Rightarrow> netconn outcome" where
  "HandleRelay netDial ustr sv en h c =
     (let nc = (if oc_Type (ni_obfs h) = ''padding'' \<or> 0 < oc_Interval (ni_obfs h) then NewObfsConn c (ni_obfs h) else Inl c) in
      case DecodeNextHop net_read ustr nc of (d, nc1) \<Rightarrow>
        if d_err d \<noteq> None then Dropped (close_base nc1)
        else (case go_index (d_remaining d) 5 of
            Inl e \<Rightarrow> Crashed (panic_text e)
          | Inr nHopsLeft \<Rightarrow> if nHopsLeft = 0 then act_as_egress netDial d nc1 else act_as_relay sv en d nc1))"

section \<open>Lemmas\<close>

text \<open>After \<^verbatim>\<open>Stop\<close> the listener fails forever; as long as the context lives, the loop does not end.\<close>

lemma accept_loop_spins: "accept_loop (replicate k (False, Inl e)) = ([], False)"
  by (induction k) auto

lemma accept_loop_returns: "(\<exists>e. (True, Inl e) \<in> set evs) \<longleftrightarrow> snd (accept_loop evs)"
  by (induction evs rule: accept_loop.induct) (auto split: prod.splits)

lemma swap_port_be: "swap_port (be_get16 [a, b]) = be_get16 [b, a]"
  by (rule bit_word_eqI)
    (auto simp: swap_port_def be_get16_def bit_or_iff bit_push_bit_iff bit_drop_bit_eq bit_ucast_iff dest: bit_imp_le_length)

text \<open>The plain stream satisfies the reader contract.\<close>

definition nrem :: "netconn \<Rightarrow> bytes" where "nrem nc = conn_rem (base_conn nc)"
definition nfin :: "netconn \<Rightarrow> error" where "nfin nc = conn_fin (base_conn nc)"
definition nopen :: "netconn \<Rightarrow> bool" where "nopen nc \<longleftrightarrow> isl nc \<and> conn_open (base_conn nc)"

interpretation nr: byte_reader net_read nrem nfin nopen
proof
  fix s :: netconn and n :: nat
  assume o: "nopen s" and n: "0 < n"
  then obtain c where s: "s = Inl c" and c: "conn_open c" by (cases s) (auto simp: nopen_def)
  show "\<exists>bs s'. net_read s n = ((bs, None), s') \<and> bs \<noteq> [] \<and> length bs \<le> n \<and> nrem s = bs @ nrem s' \<and> nfin s' = nfin s \<and> nopen s'"
    if "nrem s \<noteq> []"
    using cr.rd_data [OF c n] that by (auto simp: s nrem_def nfin_def nopen_def)
  show "\<exists>s'. net_read s n = (([], Some (nfin s)), s') \<and> nopen s'" if "nrem s = []"
    using cr.rd_end [OF c n] that by (auto simp: s nrem_def nfin_def nopen_def)
qed

text \<open>An obfuscation setting that leaves connections alone.\<close>

definition no_obfs :: "ObfsConfig \<Rightarrow> bool" where
  "no_obfs cfg \<longleftrightarrow> oc_Type cfg \<noteq> ''padding'' \<and> oc_Interval cfg \<le> 0"

lemma put_header_nhops: "go_index (put_header h @ r) 5 = Inr (h_NHops h)"
  by (simp add: put_header_def be_put32_def go_index_def)

text \<open>What a node does with the first hop of an encoded header.\<close>

lemma HandleRelay_encoded:
  assumes "uuid_wf uparse unew" "no_obfs (ni_obfs h)" "conn_open c" "hop_entry hop = Inr e" "hop_host e = Some host" "n < 255"
    and "conn_rem c = put_header (enc_header uparse unew r0 meta (Suc n)) @ put_hop e @ r"
    and "enc_padLen meta r0 + n * HopEntrySize \<le> length r"
  shows "\<exists>d nc. d_err d = None \<and> d_nextHop d = JoinHostPort host (nat_to_dec (unat (he_Port e)))
    \<and> d_network d = (if m_Network meta = ''udp'' then ''udp'' else ''tcp'') \<and> d_sessionID d = ustr (enc_id uparse unew meta)
    \<and> d_remaining d = put_header (enc_header uparse unew r0 meta n) @ take (n * HopEntrySize) (drop (enc_padLen meta r0) r)
    \<and> nrem nc = drop (enc_padLen meta r0 + n * HopEntrySize) r \<and> nopen nc
    \<and> HandleRelay netDial ustr sv en h c = (if n = 0 then act_as_egress netDial d nc else act_as_relay sv en d nc)"
proof -
  have inv: "nopen (Inl c)" and rem: "nrem (Inl c) = put_header (enc_header uparse unew r0 meta (Suc n)) @ put_hop e @ r"
    using assms(3,7) by (simp_all add: nopen_def nrem_def)
  obtain nc where d: "DecodeNextHop net_read ustr (Inl c) =
      (\<lparr>d_nextHop = JoinHostPort host (nat_to_dec (unat (he_Port e))),
        d_sessionID = ustr (enc_id uparse unew meta),
        d_network = (if m_Network meta = ''udp'' then ''udp'' else ''tcp''),
        d_remaining = put_header (enc_header uparse unew r0 meta n) @
          take (n * HopEntrySize) (drop (enc_padLen meta r0) r),
        d_err = None\<rparr>, nc)" (is "_ = (?d, nc)")
      "nrem nc = drop (enc_padLen meta r0 + n * HopEntrySize) r" "nopen nc"
    using nr.decode_encoded [OF assms(1) inv assms(4,5,6) rem assms(8), of ustr] by blast
  have "h_NHops (enc_header uparse unew r0 meta n) = 0 \<longleftrightarrow> n = 0"
    using nhops_enc [of n] assms(6) by (auto simp: enc_header_def)
  then have "HandleRelay netDial ustr sv en h c = (if n = 0 then act_as_egress netDial ?d nc else act_as_relay sv en ?d nc)"
    using assms(2) by (simp add: HandleRelay_def no_obfs_def d(1) put_header_nhops)
  with d(2,3) show ?thesis by (intro exI [of _ ?d] exI [of _ nc]) simp
qed

lemma HandleRelay_no_hops:
  assumes "uuid_wf uparse unew" "no_obfs (ni_obfs h)" "conn_open c" "m_HopChain meta = []"
    and "EncodeHeader uparse unew r0 junk meta = Inr hdr" "conn_rem c = hdr @ r"
  shows "\<exists>c'. HandleRelay netDial ustr sv en h c = Dropped c'"
proof -
  have "nopen (Inl c)" "nrem (Inl c) = hdr @ r" using assms(3,6) by (simp_all add: nopen_def nrem_def)
  from nr.decode_no_hops [OF assms(1) this(1) assms(4,5) this(2), of ustr] show ?thesis
    using assms(2) by (cases "DecodeNextHop net_read ustr (Inl c)") (simp add: HandleRelay_def no_obfs_def)
qed

text \<open>Connecting through an NP-Chain outbound writes exactly the header of the session.\<close>

definition chain_services :: "services \<Rightarrow> entropy \<Rightarrow> NPChainHandler \<Rightarrow> conn \<Rightarrow> bool" where
  "chain_services sv en n c0 \<longleftrightarrow> (\<forall>meta. sv_route sv meta = Inr (NPChain n))
     \<and> (\<exists>netDial quicDial. sv_dial sv = (\<lambda>h meta. out_Dial netDial quicDial en meta h) \<and> quicDial (n_address n) = Inr c0)
     \<and> n_transport n = ''quic'' \<and> no_obfs (n_obfs n) \<and> conn_open c0 \<and> wlimit c0 = None \<and> outq c0 = []"

lemma connect_chain:
  assumes "chain_services sv en n c0"
  shows "connect sv meta = (case EncodeHeader (en_uparse en) (en_unew en) (en_pad en) (en_junk en) meta of
      Inl (GoPanic s) \<Rightarrow> Inl (Crash s) | Inl e \<Rightarrow> Inl (NoDial e) | Inr hdr \<Rightarrow> Inr (Inl (c0\<lparr>outq := hdr\<rparr>)))"
  using assms
  by (auto simp: chain_services_def connect_def dial_with_def np_Dial_def getStreamConn_def send_header_def no_obfs_def
      dial_ok_def dial_fail_def conn_write_def conn_open_def split: sum.splits error.splits)

lemma hop_encodes:
  assumes "hop_ok host" "p < 65536"
  obtains e where "hop_entry (JoinHostPort host (nat_to_dec p)) = Inr e" "hop_host e = Some host" "unat (he_Port e) = p"
    "put_hops [JoinHostPort host (nat_to_dec p)] = Inr (put_hop e)"
proof -
  obtain e where "hop_entry (JoinHostPort host (nat_to_dec p)) = Inr e" "hop_host e = Some host" "unat (he_Port e) = p"
    using hop_entry_ok [OF assms] by blast
  then show thesis using that [of e] by simp
qed

text \<open>
  What the egress does with the bytes an ingress wrote: on every connection that carries them and
  then a payload, in any segmentation, it dials \<open>target\<close> and is left with the payload.
\<close>

definition egress_dials :: "bytes \<Rightarrow> string \<Rightarrow> bool" where
  "egress_dials wrote target \<longleftrightarrow> (\<forall>c2 payload netDial tc h2 sv2 en2 ustr.
     no_obfs (ni_obfs h2) \<and> conn_open c2 \<and> conn_rem c2 = wrote @ payload \<and> netDial ''tcp'' target = Inr tc \<longrightarrow>
       (\<exists>rs. HandleRelay netDial ustr sv2 en2 h2 c2 = Relayed rs \<and> rs_target rs = Inl tc \<and> nrem (rs_client rs) = payload))"

lemma egress_dials_encoded:
  assumes "uuid_wf uparse unew" "hop_entry hop = Inr e" "hop_host e = Some host" "m_Network meta = ''tcp''"
  shows "egress_dials (put_header (enc_header uparse unew r0 meta (Suc 0)) @ put_hop e @ map junk [0..<enc_padLen meta r0])
    (JoinHostPort host (nat_to_dec (unat (he_Port e))))"
  unfolding egress_dials_def
proof (intro allI impI, elim conjE)
  fix c2 tc :: conn and payload ustr and netDial :: "string \<Rightarrow> string \<Rightarrow> conn res" and h2 :: NPChainInboundHandler and sv2 :: services and en2 :: entropy
  let ?pad = "map junk [0..<enc_padLen meta r0]"
  assume no: "no_obfs (ni_obfs h2)" and op: "conn_open c2"
    and rem: "conn_rem c2 = (put_header (enc_header uparse unew r0 meta (Suc 0)) @ put_hop e @ ?pad) @ payload"
    and dial: "netDial ''tcp'' (JoinHostPort host (nat_to_dec (unat (he_Port e)))) = Inr tc"
  obtain d nc where "d_nextHop d = JoinHostPort host (nat_to_dec (unat (he_Port e)))" "d_network d = ''tcp''" "nrem nc = payload"
      "HandleRelay netDial ustr sv2 en2 h2 c2 = act_as_egress netDial d nc"
    using HandleRelay_encoded [OF assms(1) no op assms(2,3), of 0 r0 meta "?pad @ payload" ustr netDial sv2 en2] rem assms(4) by auto
  with dial show "\<exists>rs. HandleRelay netDial ustr sv2 en2 h2 c2 = Relayed rs \<and> rs_target rs = Inl tc \<and> nrem (rs_client rs) = payload"
    by (simp add: act_as_egress_def relay_system_def)
qed

text \<open>
  One hop through the tunnel. The ingress connects for a session whose chain is the target alone;
  the egress, on a connection that carries what the ingress wrote followed by a payload, dials
  exactly that target and is left with exactly the payload.
\<close>

lemma chain_one_hop:
  assumes "chain_services sv en n c0" "uuid_wf (en_uparse en) (en_unew en)" "hop_ok host" "p < 65536"
    and "m_HopChain meta = [JoinHostPort host (nat_to_dec p)]" "m_Network meta = ''tcp''"
  shows "\<exists>hdr. connect sv meta = Inr (Inl (c0\<lparr>outq := hdr\<rparr>)) \<and> egress_dials hdr (JoinHostPort host (nat_to_dec p))"
proof -
  obtain e where e: "hop_entry (JoinHostPort host (nat_to_dec p)) = Inr e" "hop_host e = Some host" "unat (he_Port e) = p"
    "put_hops [JoinHostPort host (nat_to_dec p)] = Inr (put_hop e)" using hop_encodes [OF assms(3,4)] by metis
  let ?hdr = "put_header (enc_header (en_uparse en) (en_unew en) (en_pad en) meta (Suc 0)) @ put_hop e
    @ map (en_junk en) [0..<enc_padLen meta (en_pad en)]"
  have "EncodeHeader (en_uparse en) (en_unew en) (en_pad en) (en_junk en) meta = Inr ?hdr"
    using e(4) assms(5) by (simp add: EncodeHeader_Inr)
  with connect_chain [OF assms(1), of meta] egress_dials_encoded [OF assms(2) e(1,2) assms(6), of "en_pad en" "en_junk en"] e(3)
  show ?thesis by (intro exI [of _ ?hdr]) simp
qed

section \<open>Properties\<close>


definition demo_services :: services where
  "demo_services = \<lparr>sv_route = (\<lambda>m. Inr (NPChain (demo_node ''192.0.2.9:443''))),
     sv_dial = (\<lambda>h meta. out_Dial (\<lambda>n. demo_dial None) (demo_dial None) demo_entropy meta h),
     sv_uuid = ''0123456789abcdef'', sv_now = 0\<rparr>"

lemma demo_dial_peer: "demo_dial None addr = Inr (peer_sends [])"
  by (simp add: demo_dial_def peer_sends_def)

lemma demo_chain_services: "chain_services demo_services demo_entropy (demo_node ''192.0.2.9:443'') (peer_sends [])"
proof -
  have "sv_dial demo_services = (\<lambda>h meta. out_Dial (\<lambda>n. demo_dial None) (demo_dial None) demo_entropy meta h)"
    by (simp add: demo_services_def)
  moreover have "\<forall>meta. sv_route demo_services meta = Inr (NPChain (demo_node ''192.0.2.9:443''))" by (simp add: demo_services_def)
  moreover have "n_transport (demo_node ''192.0.2.9:443'') = ''quic''" "no_obfs (n_obfs (demo_node ''192.0.2.9:443''))"
    by (simp_all add: demo_node_def NewNPChainHandler_def no_obfs_def demo_obfs_def)
  moreover have "conn_open (peer_sends [])" "wlimit (peer_sends []) = None" "outq (peer_sends []) = []"
    by (simp_all add: conn_open_def peer_sends_def)
  ultimately show ?thesis unfolding chain_services_def using demo_dial_peer by blast
qed

lemma demo_sniff: "\<exists>b. SniffConn (peer_sends []) = (Inr None, b)"
proof -
  have "fst (SniffConn (peer_sends [])) = Inr None" by code_simp
  then show ?thesis by (metis prod.collapse)
qed

lemma demo_entropy_wf: "uuid_wf (en_uparse demo_entropy) (en_unew demo_entropy)"
  by (simp add: demo_entropy_def demo_uuid_wf)


text \<open>
  Transparent proxies cannot use the tunnel. The session a redirected or TPROXY connection
  creates has no hop chain, so an NP-Chain outbound sends a header without hops; the next node,
  whatever follows on the stream, drops the connection.
\<close>

theorem transparent_chain_refused:
  assumes "chain_services sv en n c0" "uuid_wf (en_uparse en) (en_unew en)"
    and "tp_handle sv c = Relayed rs \<or> rd_handle sv dst c = Relayed rs"
    and "no_obfs (ni_obfs h2)" "conn_open c2" "conn_rem c2 = outq (base_conn (rs_target rs)) @ payload"
  shows "\<exists>c'. HandleRelay netDial ustr sv2 en2 h2 c2 = Dropped c'"
proof -
  have "connect sv (rs_meta rs) = Inr (rs_target rs) \<and> m_HopChain (rs_meta rs) = []"
    using assms(3)
    by (auto simp: tp_handle_def rd_handle_def relay_or_drop_def transparent_meta_def meta0_def Let_def
        split: prod.splits sum.splits conn_fail.splits)
  moreover from this obtain hdr where "EncodeHeader (en_uparse en) (en_unew en) (en_pad en) (en_junk en) (rs_meta rs) = Inr hdr"
      "rs_target rs = Inl (c0\<lparr>outq := hdr\<rparr>)"
    using connect_chain [OF assms(1), of "rs_meta rs"] by (auto split: sum.splits error.splits)
  ultimately show ?thesis using HandleRelay_no_hops [OF assms(2,4,5), of "rs_meta rs"] assms(6) by auto
qed

theorem transparent_chain_refused_witness:
  "\<exists>rs c'. tp_handle demo_services (peer_sends []) = Relayed rs
    \<and> HandleRelay (\<lambda>n. demo_dial None) string_of_bytes demo_services demo_entropy (NewNPChainInboundHandler demo_obfs)
        (peer_sends (outq (base_conn (rs_target rs)) @ [1, 2, 3])) = Dropped c'"
proof -
  obtain b where b: "SniffConn (peer_sends []) = (Inr None, b)" using demo_sniff by blast
  let ?m = "transparent_meta demo_services (peer_sends []) (laddr (peer_sends []))"
  have "m_HopChain ?m = []" by (simp add: transparent_meta_def meta0_def)
  then obtain hdr where "connect demo_services ?m = Inr (Inl ((peer_sends [])\<lparr>outq := hdr\<rparr>))"
    using connect_chain [OF demo_chain_services, of ?m] by (auto simp: EncodeHeader_def Let_def)
  then obtain rs where rs: "tp_handle demo_services (peer_sends []) = Relayed rs"
    by (simp add: tp_handle_def b sniff_target_def relay_or_drop_def)
  then show ?thesis
    using transparent_chain_refused [OF demo_chain_services demo_entropy_wf disjI1 [OF rs],
        of "NewNPChainInboundHandler demo_obfs" "peer_sends (outq (base_conn (rs_target rs)) @ [1, 2, 3])" "[1, 2, 3]"
          "\<lambda>n. demo_dial None" string_of_bytes demo_services demo_entropy]
    by (auto simp: NewNPChainInboundHandler_def no_obfs_def demo_obfs_def)
qed

text \<open>
  A relay node cannot forward through an NP-Chain outbound either. It opens the next tunnel
  with a session that has no hop chain, so the header without hops that the outbound writes comes
  before the forwarded header, and the next node drops the connection.
\<close>

theorem relay_through_chain_refused:
  assumes "chain_services sv en n c0" "uuid_wf (en_uparse en) (en_unew en)"
    and "act_as_relay sv en1 d nc = Relayed rs"
    and "no_obfs (ni_obfs h2)" "conn_open c2" "conn_rem c2 = outq (base_conn (rs_target rs)) @ payload"
  shows "\<exists>c'. HandleRelay netDial ustr sv2 en2 h2 c2 = Dropped c'"
proof -
  let ?meta = "meta0\<lparr>m_ID := d_sessionID d, m_Target := d_nextHop d, m_Network := d_network d\<rparr>"
  obtain hdr where h: "EncodeHeader (en_uparse en) (en_unew en) (en_pad en) (en_junk en) ?meta = Inr hdr"
      "connect sv ?meta = Inr (Inl (c0\<lparr>outq := hdr\<rparr>))"
    using assms(3) connect_chain [OF assms(1), of ?meta]
    by (auto simp: act_as_relay_def split: sum.splits conn_fail.splits error.splits)
  then have "outq (base_conn (rs_target rs)) = hdr @ d_remaining d"
    using assms(1,3) by (auto simp: act_as_relay_def relay_system_def conn_write_def chain_services_def conn_open_def split: if_splits)
  with HandleRelay_no_hops [OF assms(2,4,5) _ h(1), of "d_remaining d @ payload"] assms(6) show ?thesis by (simp add: meta0_def)
qed

definition demo_decoded :: decoded where
  "demo_decoded = \<lparr>d_nextHop = ''a.example:443'', d_sessionID = ''0123456789abcdef'', d_network = ''tcp'', d_remaining = [1], d_err = None\<rparr>"

theorem relay_through_chain_refused_witness:
  "\<exists>rs c'. act_as_relay demo_services demo_entropy demo_decoded (Inl (peer_sends [])) = Relayed rs
    \<and> HandleRelay (\<lambda>n. demo_dial None) string_of_bytes demo_services demo_entropy (NewNPChainInboundHandler demo_obfs)
        (peer_sends (outq (base_conn (rs_target rs)) @ [1, 2, 3])) = Dropped c'"
proof -
  let ?m = "meta0\<lparr>m_ID := d_sessionID demo_decoded, m_Target := d_nextHop demo_decoded, m_Network := d_network demo_decoded\<rparr>"
  have "m_HopChain ?m = []" by (simp add: meta0_def)
  then obtain hdr where "connect demo_services ?m = Inr (Inl ((peer_sends [])\<lparr>outq := hdr\<rparr>))"
    using connect_chain [OF demo_chain_services, of ?m] by (auto simp: EncodeHeader_def Let_def)
  then obtain rs where rs: "act_as_relay demo_services demo_entropy demo_decoded (Inl (peer_sends [])) = Relayed rs"
    by (simp add: act_as_relay_def relay_system_def conn_write_def peer_sends_def)
  then show ?thesis
    using relay_through_chain_refused [OF demo_chain_services demo_entropy_wf rs,
        of "NewNPChainInboundHandler demo_obfs" "peer_sends (outq (base_conn (rs_target rs)) @ [1, 2, 3])" "[1, 2, 3]"
          "\<lambda>n. demo_dial None" string_of_bytes demo_services demo_entropy]
    by (auto simp: NewNPChainInboundHandler_def no_obfs_def demo_obfs_def)
qed


definition direct_services :: services where
  "direct_services = demo_services\<lparr>sv_route := (\<lambda>m. Inr (Direct (NewDirectHandler ''direct'' ''g'')))\<rparr>"


lemma best_status_spec:
  assumes "best_status best m sts = (b, k)"
  shows "(b = best \<and> k = m \<and> (\<forall>x \<in> set sts. ts_score (snd x) \<le> m))
    \<or> (\<exists>x \<in> set sts. b = Some (fst x, ts_outbound (snd x)) \<and> k = ts_score (snd x) \<and> m < k \<and> (\<forall>y \<in> set sts. ts_score (snd y) \<le> k))"
  using assms
proof (induction sts arbitrary: best m)
  case (Cons x sts)
  obtain t s where x: "x = (t, s)" by (cases x)
  show ?case
  proof (cases "m < ts_score s")
    case True
    then have "best_status (Some (t, ts_outbound s)) (ts_score s) sts = (b, k)" using Cons.prems x by simp
    from Cons.IH [OF this] show ?thesis
    proof
      assume "b = Some (t, ts_outbound s) \<and> k = ts_score s \<and> (\<forall>x \<in> set sts. ts_score (snd x) \<le> ts_score s)"
      with True x show ?thesis by (intro disjI2 bexI [of _ x]) auto
    next
      assume "\<exists>x \<in> set sts. b = Some (fst x, ts_outbound (snd x)) \<and> k = ts_score (snd x) \<and> ts_score s < k \<and> (\<forall>y \<in> set sts. ts_score (snd y) \<le> k)"
      then obtain z where "z \<in> set sts" "b = Some (fst z, ts_outbound (snd z))" "k = ts_score (snd z)" "ts_score s < k" "\<forall>y \<in> set sts. ts_score (snd y) \<le> k" by blast
      with True x show ?thesis by (intro disjI2 bexI [of _ z]) auto
    qed
  next
    case False
    then have "best_status best m sts = (b, k)" using Cons.prems x by simp
    from Cons.IH [OF this] False x show ?thesis by auto
  qed
qed simp

text \<open>
  The balancer takes a target with the best score, in every iteration order of its map; when
  no score reaches 0.1 it takes the targets in turn, and with no target at all it divides by zero.
\<close>

theorem balance_choice:
  assumes "\<And>xs. set (ord xs) = set xs"
  shows "if \<exists>x \<in> set (tb_targetStatuses h). 400 \<le> ts_score (snd x)
    then \<exists>x \<in> set (tb_targetStatuses h). pick_target sv ord h = (Inr (Some (fst x, ts_outbound (snd x))), h)
      \<and> (\<forall>y \<in> set (tb_targetStatuses h). ts_score (snd y) \<le> ts_score (snd x))
    else if tb_targets h = [] then fst (pick_target sv ord h) = Inl (GoPanic ''integer divide by zero'')
    else (\<forall>t out. fst (pick_target sv ord h) = Inr (Some (t, out)) \<longrightarrow>
      t = tb_targets h ! (unat (tb_counter h + 1) mod length (tb_targets h)) \<and> sv_route sv (meta0\<lparr>m_Target := t\<rparr>) = Inr out)"
proof -
  obtain b k where b: "best_status None (- 4000) (ord (tb_targetStatuses h)) = (b, k)" by fastforce
  note spec = best_status_spec [OF b, unfolded assms]
  show ?thesis
  proof (cases "k < 400")
    case True
    have "\<not> (\<exists>x \<in> set (tb_targetStatuses h). 400 \<le> ts_score (snd x))"
    proof
      assume "\<exists>x \<in> set (tb_targetStatuses h). 400 \<le> ts_score (snd x)"
      then obtain x where "x \<in> set (tb_targetStatuses h)" "400 \<le> ts_score (snd x)" by blast
      with spec True show False by (elim disjE) force+
    qed
    with True b show ?thesis by (auto simp: pick_target_def Let_def split: sum.splits error.splits)
  next
    case False
    with spec obtain x where x: "x \<in> set (tb_targetStatuses h)" "b = Some (fst x, ts_outbound (snd x))" "k = ts_score (snd x)"
        "\<forall>y \<in> set (tb_targetStatuses h). ts_score (snd y) \<le> k" by (elim disjE) auto
    then have "\<exists>x \<in> set (tb_targetStatuses h). 400 \<le> ts_score (snd x)" using False by (intro bexI [of _ x]) auto
    moreover have "pick_target sv ord h = (Inr (Some (fst x, ts_outbound (snd x))), h)" using False b x(2,3) by (simp add: pick_target_def)
    ultimately show ?thesis using x by auto
  qed
qed

theorem balance_choice_witness:
  "fst (pick_target demo_services rev (NewTCPBalanceHandler ''0.0.0.0:80'' False [])) = Inl (GoPanic ''integer divide by zero'')"
  using balance_choice [of rev "NewTCPBalanceHandler ''0.0.0.0:80'' False []" demo_services]
  by (simp add: NewTCPBalanceHandler_def)

text \<open>
  A stopped listener keeps its goroutine busy forever. After the connections accepted so far, the
  closed listener fails at once on every call; as long as the agent's context lives, \<^verbatim>\<open>Start\<close> of a
  forwarder does not return after any number of failures, and returns at the first failure once
  the context is done.
\<close>

theorem stopped_inbound_spins:
  assumes "\<not> tf_useProxyProto h"
  shows "tf_Start h None (map (\<lambda>c. (False, Inr c)) cs @ replicate k (False, Inl e)) = Inr (map Inl cs, False)
    \<and> tf_Start h None (map (\<lambda>c. (False, Inr c)) cs @ (True, Inl e) # rest) = Inr (map Inl cs, True)"
proof -
  let ?f = "\<lambda>(ctxDone, r). (ctxDone, listener_Accept False r)"
  have a: "accept_loop (map ?f (map (\<lambda>c. (False, Inr c)) cs @ evs)) = (map Inl cs @ fst (accept_loop (map ?f evs)), snd (accept_loop (map ?f evs)))" for evs
    by (induction cs) (simp_all add: listener_Accept_def split: prod.splits)
  have b: "accept_loop (map ?f (replicate k (False, Inl e))) = ([], False)"
    using accept_loop_spins [of k e] by (simp add: listener_Accept_def)
  have c: "accept_loop (map ?f ((True, Inl e) # rest)) = ([], True)" by (simp add: listener_Accept_def)
  show ?thesis using assms by (simp only: tf_Start_def start_accepting_def option.case a b c fst_conv snd_conv append_Nil2)
qed

theorem stopped_inbound_spins_witness:
  "tf_Start (NewTCPForwardHandler ''0.0.0.0:80'' False ''a.example:443'') None (replicate 1000 (False, Inl ErrClosed)) = Inr ([], False)"
  using stopped_inbound_spins [of "NewTCPForwardHandler ''0.0.0.0:80'' False ''a.example:443''" "[]" 1000 ErrClosed "[]"]
  by (simp add: NewTCPForwardHandler_def)

end
