(* ===== verification/Socks5_Inbound.thy ===== *)
theory Socks5_Inbound
  imports Inbounds
begin

text \<open>
  The SOCKS5 server (\<^verbatim>\<open>internal/inbound/socks5.go\<close>). The handler reads into one buffer of 256 bytes
  and ignores most read errors, so that what an incomplete read leaves in the buffer matters:
  \<open>read_into\<close> overwrites the bytes that arrived and keeps the rest. \<^verbatim>\<open>bcrypt\<close> is the parameter
  \<open>bcryptOK hash password\<close>.
\<close>

section \<open>Definitions\<close>

record Socks5Handler =
  s5_listenAddr :: string
  s5_useProxyProto :: bool
  s5_auth :: AuthConfig

definition NewSocks5Handler :: "string \<Rightarrow> bool \<Rightarrow> AuthConfig \<Rightarrow> Socks5Handler" where
  "NewSocks5Handler listenAddr useProxyProto auth =
     \<lparr>s5_listenAddr = listenAddr, s5_useProxyProto = useProxyProto, s5_auth = auth\<rparr>"

definition s5_Start :: "Socks5Handler \<Rightarrow> error option \<Rightarrow> (bool \<times> conn res) list \<Rightarrow> error + (conn + ProxyProtoConn) list \<times> bool" where
  "s5_Start s listenErr evs = start_accepting (s5_useProxyProto s) (map_option (Wrap ''socks5 listen failed'') listenErr) evs"

text \<open>\<^verbatim>\<open>io.ReadFull(conn, buf[:n])\<close> and \<^verbatim>\<open>conn.Write\<close> with its error ignored.\<close>

definition read_into :: "nat \<Rightarrow> bytes \<Rightarrow> conn \<Rightarrow> (error option \<times> bytes) \<times> conn" where
  "read_into n buf c = (case ReadFull conn_read n c of ((bs, e), c') \<Rightarrow> ((e, bs @ drop (length bs) buf), c'))"

definition send :: "bytes \<Rightarrow> conn \<Rightarrow> conn" where
  "send bs c = snd (conn_write c bs)"

definition authenticated :: "(string \<Rightarrow> string \<Rightarrow> bool) \<Rightarrow> UserAuth list \<Rightarrow> string \<Rightarrow> string \<Rightarrow> bool" where
  "authenticated bcryptOK users username password =
     list_ex (\<lambda>u. ua_Username u = username \<and> bcryptOK (ua_Password u) password) users"

text \<open>The user of the connection, or \<open>None\<close> when the handler returns.\<close>

definition socks_auth :: "(string \<Rightarrow> string \<Rightarrow> bool) \<Rightarrow> AuthConfig \<Rightarrow> bytes \<Rightarrow> conn \<Rightarrow> (string option \<times> bytes) \<times> conn" where
  "socks_auth bcryptOK auth buf c =
     (if au_Enabled auth then
        (case read_into 2 buf (send [0x05, 0x02] c) of ((e, buf), c) \<Rightarrow>
         if e \<noteq> None \<or> buf ! 0 \<noteq> 0x01 then ((None, buf), c) else
         let uLen = unat (buf ! 1) in
         case read_into uLen buf c of ((_, buf), c) \<Rightarrow>
         let username = string_of_bytes (take uLen buf) in
         case read_into 1 buf c of ((_, buf), c) \<Rightarrow>
         let pLen = unat (buf ! 0) in
         case read_into pLen buf c of ((_, buf), c) \<Rightarrow>
         let password = string_of_bytes (take pLen buf) in
         if authenticated bcryptOK (au_Users auth) username password
         then ((Some username, buf), send [0x01, 0x00] c)
         else ((None, buf), send [0x01, 0x01] c))
      else ((Some ''anonymous'', buf), send [0x05, 0x00] c))"

text \<open>The client side of a relay: the connection itself, or the one that replays sniffed bytes.\<close>

type_synonym client = "conn + conn bufio"

datatype socks_outcome =
  Stream "client outcome"
| Associate string "BandwidthLimiter option" conn nat

definition socks_reply :: "byte \<Rightarrow> bytes" where
  "socks_reply code = [0x05, code, 0x00, 0x01, 0, 0, 0, 0, 0, 0]"

definition read_host :: "byte \<Rightarrow> bytes \<Rightarrow> conn \<Rightarrow> (string \<times> bytes) \<times> conn" where
  "read_host addrType buf c =
     (if addrType = 0x01 then
        (case read_into 4 buf c of ((_, buf), c) \<Rightarrow> ((IP_String (take 4 buf), buf), c))
      else if addrType = 0x03 then
        (case read_into 1 buf c of ((_, buf), c) \<Rightarrow>
         let l = unat (buf ! 0) in
         case read_into l buf c of ((_, buf), c) \<Rightarrow> ((string_of_bytes (take l buf), buf), c))
      else if addrType = 0x04 then
        (case read_into 16 buf c of ((_, buf), c) \<Rightarrow> ((IP_String (take 16 buf), buf), c))
      else (([], buf), c))"

definition s5_handleConnect ::
  "services \<Rightarrow> byte \<Rightarrow> string \<Rightarrow> BandwidthLimiter option \<Rightarrow> conn \<Rightarrow> client outcome" where
  "s5_handleConnect sv addrType userID limiter c =
     (case read_host addrType (replicate 256 0) c of ((targetHost, buf), c) \<Rightarrow>
      case read_into 2 buf c of ((_, buf), c) \<Rightarrow>
      let target = JoinHostPort targetHost (nat_to_dec (unat (be_get16 (take 2 buf))));
          meta = meta0\<lparr>m_ID := sv_uuid sv, m_Source := raddr c, m_Target := target, m_HopChain := [target],
            m_UserID := userID, m_Network := ''tcp'', m_CreatedAt := sv_now sv\<rparr>;
          start = (\<lambda>cl t. Relayed \<lparr>rs_client = cl, rs_target = t, rs_meta = meta, rs_user = userID, rs_limiter = limiter, rs_quota = True\<rparr>) in
      case connect sv meta of
        Inl (Crash s) \<Rightarrow> Crashed s
      | Inl (NoRoute e) \<Rightarrow> Dropped (Inl (conn_close (send (socks_reply 0x04) c)))
      | Inl (NoDial e) \<Rightarrow> Dropped (Inl (conn_close (send (socks_reply 0x05) c)))
      | Inr t \<Rightarrow>
          let c = send (socks_reply 0x00) c in
          if addrType \<noteq> 0x03 then
            (case SniffConn c of (Inl e, b) \<Rightarrow> Crashed (panic_text e) | (Inr _, b) \<Rightarrow> start (Inr b) t)
          else start (Inl c) t)"

text \<open>
  \<^verbatim>\<open>handleUDPAssociate\<close> up to its loops: \<open>listenUDP\<close> is the port of the socket it opens. The loop
  over its packets is in theory \<open>UDP_Inbounds\<close>.
\<close>

definition handleUDPAssociate :: "nat res \<Rightarrow> string \<Rightarrow> BandwidthLimiter option \<Rightarrow> conn \<Rightarrow> socks_outcome" where
  "handleUDPAssociate listenUDP userID limiter c = (case listenUDP of
     Inl e \<Rightarrow> Stream (Dropped (Inl (conn_close c)))
   | Inr port \<Rightarrow> Associate userID limiter
       (send ([0x05, 0x00, 0x00, 0x01, 0, 0, 0, 0] @ be_put16 (of_nat port)) c) port)"

definition handleConnection ::
  "(string \<Rightarrow> string \<Rightarrow> bool) \<Rightarrow> services \<Rightarrow> nat res \<Rightarrow> Socks5Handler \<Rightarrow> conn \<Rightarrow> LimiterManager
     \<Rightarrow> socks_outcome \<times> LimiterManager" where
  "handleConnection bcryptOK sv listenUDP s c lm =
     (let drop_it = (\<lambda>c. (Stream (Dropped (Inl (conn_close c))), lm)) in
      case read_into 2 (replicate 256 0) c of ((e, buf), c) \<Rightarrow>
      if e \<noteq> None \<or> buf ! 0 \<noteq> 0x05 then drop_it c else
      case ReadFull conn_read (unat (buf ! 1)) c of
        ((_, Some e), c) \<Rightarrow> drop_it c
      | ((methods, None), c) \<Rightarrow>
      (case socks_auth bcryptOK (s5_auth s) buf c of
        ((None, buf), c) \<Rightarrow> drop_it c
      | ((Some userID, buf), c) \<Rightarrow>
      (case read_into 4 buf c of ((e, buf), c) \<Rightarrow>
      if e \<noteq> None then drop_it c else
      (case GetOrCreate userID lm of (limiter, lm) \<Rightarrow>
      if buf ! 1 = 0x01 then (Stream (s5_handleConnect sv (buf ! 3) userID limiter c), lm)
      else if buf ! 1 = 0x03 then (handleUDPAssociate listenUDP userID limiter c, lm)
      else (Stream (Dropped (Inl (conn_close (send (socks_reply 0x07) c)))), lm)))))"

section \<open>Reading and writing on an open connection\<close>

text \<open>An open connection that takes all writes: what is left to read and what was written.\<close>

definition at :: "conn \<Rightarrow> bytes \<Rightarrow> bytes \<Rightarrow> bool" where
  "at c left out \<longleftrightarrow> conn_open c \<and> wlimit c = None \<and> conn_rem c = left \<and> outq c = out"

lemma read_loop_frame:
  "read_loop conn_read k want acc c = (r, c') \<Longrightarrow> outq c' = outq c \<and> wlimit c' = wlimit c \<and> is_closed c' = is_closed c"
proof (induction conn_read k want acc c arbitrary: r c' rule: read_loop.induct)
  case (2 k want acc s)
  obtain bs e s1 where rd: "conn_read s (want - length acc) = ((bs, e), s1)" by (metis prod.exhaust)
  from 2(2) rd 2(1) [of "(bs, e)" s1 bs] conn_read_frame [OF rd] show ?case by (auto split: if_splits option.splits)
qed simp

lemma ReadFull_frame: "ReadFull conn_read n c = (r, c') \<Longrightarrow> outq c' = outq c \<and> wlimit c' = wlimit c \<and> is_closed c' = is_closed c"
  using read_loop_frame [of n n "[]" c] by (auto simp: ReadFull_def split: prod.splits)

lemma ReadFull_at:
  assumes "at c (bs @ r) out" "length bs = n"
  shows "\<exists>c'. ReadFull conn_read n c = ((bs, None), c') \<and> at c' r out"
proof -
  have "conn_open c" "n \<le> length (conn_rem c)" using assms by (auto simp: at_def)
  from cr.ReadFull_data [OF this] obtain c' where c': "ReadFull conn_read n c = ((take n (conn_rem c), None), c')"
      "conn_rem c' = drop n (conn_rem c)" "conn_open c'" by blast
  with assms ReadFull_frame [OF c'(1)] show ?thesis by (auto simp: at_def)
qed

lemma read_into_at:
  assumes "at c (bs @ r) out" "length bs = n" "n \<le> length buf"
  shows "\<exists>buf' c'. read_into n buf c = ((None, buf'), c') \<and> take n buf' = bs \<and> length buf' = length buf \<and> at c' r out"
  using ReadFull_at [OF assms(1,2)] assms(2,3) by (auto simp: read_into_def)

lemma take_nth: "take n b = bs \<Longrightarrow> i < n \<Longrightarrow> b ! i = bs ! i"
  by (metis nth_take)

lemma send_at: "at c r out \<Longrightarrow> at (send bs c) r (out @ bs)"
  by (auto simp: at_def send_def conn_write_def conn_open_def conn_rem_def)

section \<open>Authentication\<close>

text \<open>What the client sent on the connection: a complete login that the configuration accepts.\<close>

definition sent_login :: "(string \<Rightarrow> string \<Rightarrow> bool) \<Rightarrow> AuthConfig \<Rightarrow> conn \<Rightarrow> string \<Rightarrow> bool" where
  "sent_login bcryptOK auth c u \<longleftrightarrow> (\<exists>ms ub pb r.
     conn_rem c = [5, of_nat (length ms)] @ ms @ [1, of_nat (length ub)] @ ub @ [of_nat (length pb)] @ pb @ r
     \<and> u = string_of_bytes ub \<and> authenticated bcryptOK (au_Users auth) u (string_of_bytes pb))"

lemma read_into_final:
  assumes "errors_final c" "read_into n buf c = ((e, buf'), c')" "n \<le> length buf"
  shows "\<exists>bs. errors_final c' \<and> conn_rem c = bs @ conn_rem c' \<and> length buf' = length buf
    \<and> (e = None \<longrightarrow> length bs = n \<and> take n buf' = bs) \<and> (e \<noteq> None \<longrightarrow> conn_rem c' = [])"
proof -
  obtain bs where r: "ReadFull conn_read n c = ((bs, e), c')" "buf' = bs @ drop (length bs) buf"
    using assms(2) by (auto simp: read_into_def split: prod.splits)
  show ?thesis using ReadFull_final [OF assms(1) r(1)] r(2) assms(3) by auto
qed

lemma read_into_some:
  assumes "errors_final c" "read_into n buf c = ((e, buf'), c')" "n \<le> length buf" "conn_rem c' \<noteq> []"
  shows "errors_final c' \<and> conn_rem c = take n buf' @ conn_rem c' \<and> length buf' = length buf"
  using read_into_final [OF assms(1-3)] assms(4) by auto

lemma send_final [simp]: "errors_final (send bs c) = errors_final c" "conn_rem (send bs c) = conn_rem c"
  by (simp_all add: errors_final_def send_def conn_write_def conn_rem_def split: option.splits)

lemma take1: "0 < length b \<Longrightarrow> take 1 b = [b ! 0]"
  by (cases b) simp_all

lemma take2: "1 < length b \<Longrightarrow> take 2 b = [b ! 0, b ! 1]"
  by (cases b; cases "tl b") (simp_all add: take_Suc_conv_app_nth numeral_2_eq_2)

lemma read_into_closed: "read_into n buf c = (r, c') \<Longrightarrow> is_closed c' = is_closed c"
  by (auto simp: read_into_def split: prod.splits dest: ReadFull_frame)

lemma send_closed [simp]: "is_closed (send bs c) = is_closed c"
  by (simp add: send_def conn_write_def split: option.splits)

lemma socks_auth_closed: "socks_auth bcryptOK auth buf c = (r, c') \<Longrightarrow> is_closed c' = is_closed c"
  by (auto simp: socks_auth_def Let_def split: prod.splits if_splits dest!: read_into_closed)

text \<open>
  The lengths and texts of a login are read without looking at errors; but where the stream breaks
  off, the request that follows cannot be read.
\<close>

lemma socks_auth_sent:
  assumes "errors_final c" "socks_auth bcryptOK auth buf c = ((Some u, buf'), c')" "au_Enabled auth" "length buf = 256" "conn_rem c' \<noteq> []"
  shows "errors_final c' \<and> length buf' = 256 \<and> (\<exists>ub pb. conn_rem c = [1, of_nat (length ub)] @ ub @ [of_nat (length pb)] @ pb @ conn_rem c'
    \<and> u = string_of_bytes ub \<and> authenticated bcryptOK (au_Users auth) u (string_of_bytes pb))"
proof -
  obtain e1 b1 c1 where r1: "read_into 2 buf (send [0x05, 0x02] c) = ((e1, b1), c1)" by (metis prod.exhaust)
  let ?ul = "unat (b1 ! 1)"
  obtain e2 b2 c2 where r2: "read_into ?ul b1 c1 = ((e2, b2), c2)" by (metis prod.exhaust)
  obtain e3 b3 c3 where r3: "read_into 1 b2 c2 = ((e3, b3), c3)" by (metis prod.exhaust)
  let ?pl = "unat (b3 ! 0)"
  obtain e4 b4 c4 where r4: "read_into ?pl b3 c3 = ((e4, b4), c4)" by (metis prod.exhaust)
  have a: "e1 = None" "b1 ! 0 = 1" "u = string_of_bytes (take ?ul b2)" "buf' = b4" "c' = send [0x01, 0x00] c4"
      "authenticated bcryptOK (au_Users auth) u (string_of_bytes (take ?pl b4))"
    using assms(2,3) r1 r2 r3 r4 by (auto simp: socks_auth_def Let_def split: if_splits)
  have l: "?ul < 256" "?pl < 256" by (rule unat_byte)+
  have w: "errors_final (send [0x05, 0x02] c)" using assms(1) by simp
  obtain bs where 1: "errors_final c1" "conn_rem c = bs @ conn_rem c1" "length b1 = 256" "take 2 b1 = bs"
    using read_into_final [OF w r1] a(1) assms(4) by auto
  have 2: "length b2 = 256" "errors_final c2" using read_into_final [OF 1(1) r2] 1(3) l by auto
  have 3: "length b3 = 256" "errors_final c3" using read_into_final [OF 2(2) r3] 2(1) by auto
  have n4: "conn_rem c4 \<noteq> []" using assms(5) a(5) by simp
  then have 4: "errors_final c4" "conn_rem c3 = take ?pl b4 @ conn_rem c4" "length b4 = 256"
    using read_into_some [OF 3(2) r4] 3(1) l by auto
  with n4 have 5: "conn_rem c2 = take 1 b3 @ conn_rem c3" using read_into_some [OF 2(2) r3] 2(1) by auto
  with 4 n4 have 6: "conn_rem c1 = take ?ul b2 @ conn_rem c2" using read_into_some [OF 1(1) r2] 1(3) l by auto
  have "bs = [1, of_nat ?ul]" using 1(3,4) a(2) take2 [of b1] by simp
  moreover have "take 1 b3 = [of_nat ?pl]" using 3(1) take1 [of b3] by simp
  moreover have "length (take ?ul b2) = ?ul" "length (take ?pl b4) = ?pl" using 2(1) 4(3) l by simp_all
  ultimately have eq: "conn_rem c = [1, of_nat (length (take ?ul b2))] @ take ?ul b2 @ [of_nat (length (take ?pl b4))] @ take ?pl b4 @ conn_rem c'"
    using 1(2) 4(2) 5 6 a(5) by simp
  have f: "errors_final c'" "length buf' = 256" using a(4,5) 4(1,3) by simp_all
  show ?thesis using f eq a(3,6) by blast
qed

lemma handle_sent_login:
  assumes "errors_final c" "au_Enabled auth" "read_into 2 (replicate 256 0) c = ((None, b1), c1)"
    and "ReadFull conn_read (unat (b1 ! 1)) c1 = ((ms, None), c2)" "socks_auth bcryptOK auth b1 c2 = ((Some u, b3), c3)"
    and "read_into 4 b3 c3 = ((None, b4), c4)" "b1 ! 0 = 5"
  shows "sent_login bcryptOK auth c u"
proof -
  obtain bs where 1: "errors_final c1" "conn_rem c = bs @ conn_rem c1" "length b1 = 256" "take 2 b1 = bs"
    using read_into_final [OF assms(1,3)] by auto
  have 2: "errors_final c2" "conn_rem c1 = ms @ conn_rem c2" "length ms = unat (b1 ! 1)" using ReadFull_final [OF 1(1) assms(4)] by simp_all
  have n: "conn_rem c3 \<noteq> []"
  proof
    assume e: "conn_rem c3 = []"
    obtain bs' where "ReadFull conn_read 4 c3 = ((bs', None), c4)" using assms(6) by (auto simp: read_into_def split: prod.splits)
    moreover have "conn_open c3"
    proof -
      have "is_closed c3 = is_closed c2" using socks_auth_closed [OF assms(5)] .
      then show ?thesis using 2(1) by (simp add: errors_final_def conn_open_def)
    qed
    ultimately show False using cr.ReadFull_short [of c3 4] e by auto
  qed
  obtain ub pb where ub: "conn_rem c2 = [1, of_nat (length ub)] @ ub @ [of_nat (length pb)] @ pb @ conn_rem c3" "u = string_of_bytes ub"
      "authenticated bcryptOK (au_Users auth) u (string_of_bytes pb)"
    using socks_auth_sent [OF 2(1) assms(5,2) 1(3) n] by blast
  have "bs = [5, of_nat (length ms)]" using 1(3,4) 2(3) assms(7) take2 [of b1] by simp
  with 1(2) 2(2) ub show ?thesis unfolding sent_login_def
    by (intro exI [of _ ms] exI [of _ ub] exI [of _ pb] exI [of _ "conn_rem c3"]) simp
qed

lemma s5_handleConnect_user: "s5_handleConnect sv ty u lim c = Relayed rs \<Longrightarrow> rs_user rs = u"
  by (auto simp: s5_handleConnect_def Let_def split: prod.splits sum.splits conn_fail.splits if_splits)

lemma socks_auth_stream:
  assumes "au_Enabled auth" "at c ([1, of_nat (length u)] @ u @ [of_nat (length pw)] @ pw @ r) out" "length buf = 256"
    and "length u < 256" "length pw < 256"
  shows "\<exists>buf' c'. length buf' = 256 \<and> at c' r (out @ [5, 2, 1, if authenticated bcryptOK (au_Users auth) (string_of_bytes u) (string_of_bytes pw) then 0 else 1])
    \<and> socks_auth bcryptOK auth buf c =
        ((if authenticated bcryptOK (au_Users auth) (string_of_bytes u) (string_of_bytes pw) then Some (string_of_bytes u) else None, buf'), c')"
proof -
  have l: "length [1, of_nat (length u) :: byte] = 2" "2 \<le> length buf" "length [of_nat (length pw) :: byte] = 1" using assms(3) by simp_all
  obtain b1 c1 where c1: "read_into 2 buf (send [5, 2] c) = ((None, b1), c1)" "take 2 b1 = [1, of_nat (length u)]"
      "length b1 = length buf"
      "at c1 (u @ [of_nat (length pw)] @ pw @ r) (out @ [5, 2])"
    using read_into_at [OF send_at [OF assms(2), of "[5, 2]"] l(1,2)] by blast
  have b1: "length u \<le> length b1" using c1(3) assms(3,4) by simp
  obtain b2 c2 where c2: "read_into (length u) b1 c1 = ((None, b2), c2)" "take (length u) b2 = u"
      "length b2 = length b1" "at c2 ([of_nat (length pw)] @ pw @ r) (out @ [5, 2])"
    using read_into_at [OF c1(4) refl b1] by blast
  have b2: "1 \<le> length b2" using c1(3) c2(3) assms(3) by simp
  obtain b3 c3 where c3: "read_into 1 b2 c2 = ((None, b3), c3)" "take 1 b3 = [of_nat (length pw)]"
      "length b3 = length b2" "at c3 (pw @ r) (out @ [5, 2])"
    using read_into_at [OF c2(4) l(3) b2] by blast
  have b3: "length pw \<le> length b3" using c1(3) c2(3) c3(3) assms(3,5) by simp
  obtain b4 c4 where c4: "read_into (length pw) b3 c3 = ((None, b4), c4)" "take (length pw) b4 = pw"
      "length b4 = length b3" "at c4 r (out @ [5, 2])"
    using read_into_at [OF c3(4) refl b3] by blast
  have len: "unat (b1 ! 1) = length u" "unat (b3 ! 0) = length pw" "b1 ! 0 = 1"
    using assms(4,5) take_nth [OF c1(2), of 0] take_nth [OF c1(2), of 1] take_nth [OF c3(2), of 0] by (simp_all add: unat_of_nat_byte)
  let ?ok = "authenticated bcryptOK (au_Users auth) (string_of_bytes u) (string_of_bytes pw)"
  have "socks_auth bcryptOK auth buf c = ((if ?ok then Some (string_of_bytes u) else None, b4), send [1, if ?ok then 0 else 1] c4)"
    unfolding socks_auth_def using assms(1) c1(1) c2(1,2) c3(1) c4(1,2) len by (simp add: Let_def del: One_nat_def)
  moreover have "at (send [1, if ?ok then 0 else 1] c4) r (out @ [5, 2, 1, if ?ok then 0 else 1])"
    using send_at [OF c4(4), of "[1, if ?ok then 0 else 1]"] by simp
  moreover have "length b4 = 256" using c1(3) c2(3) c3(3) c4(3) assms(3) by simp
  ultimately show ?thesis by blast
qed

section \<open>CONNECT by domain name\<close>

lemma read_host_domain:
  assumes "at c ([of_nat (length host)] @ bytes_of_string host @ r) out" "length host < 256" "length buf = 256"
  shows "\<exists>buf' c'. read_host 3 buf c = ((host, buf'), c') \<and> length buf' = 256 \<and> at c' r out"
proof -
  have l: "length [of_nat (length host) :: byte] = 1" "1 \<le> length buf" using assms(3) by simp_all
  obtain b1 c1 where c1: "read_into 1 buf c = ((None, b1), c1)" "take 1 b1 = [of_nat (length host)]" "length b1 = length buf"
      "at c1 (bytes_of_string host @ r) out"
    using read_into_at [OF assms(1) l] by blast
  have b1: "length (bytes_of_string host) = length host" "length host \<le> length b1" using c1(3) assms(2,3) by simp_all
  obtain b2 c2 where c2: "read_into (length host) b1 c1 = ((None, b2), c2)" "take (length host) b2 = bytes_of_string host"
      "length b2 = length b1" "at c2 r out"
    using read_into_at [OF c1(4) b1] by blast
  have "unat (b1 ! 0) = length host" using take_nth [OF c1(2), of 0] assms(2) by (simp add: unat_of_nat_byte)
  then show ?thesis using c1 c2 assms(3) by (simp add: read_host_def Let_def del: One_nat_def)
qed

lemma s5_handleConnect_domain:
  assumes "chain_services sv en n c0" "uuid_wf (en_uparse en) (en_unew en)" "hop_ok host" "length host < 256"
    and "at c ([of_nat (length host)] @ bytes_of_string host @ be_put16 port @ payload) out"
  shows "\<exists>rs c' hdr. s5_handleConnect sv 3 user lim c = Relayed rs \<and> rs_user rs = user \<and> rs_limiter rs = lim \<and> rs_quota rs
    \<and> rs_client rs = Inl c' \<and> at c' payload (out @ socks_reply 0)
    \<and> rs_target rs = Inl (c0\<lparr>outq := hdr\<rparr>) \<and> egress_dials hdr (JoinHostPort host (nat_to_dec (unat port)))"
proof -
  have "length (replicate 256 0 :: bytes) = 256" by simp
  from read_host_domain [OF assms(5,4) this]
  obtain b1 c1 where c1: "read_host 3 (replicate 256 0) c = ((host, b1), c1)" "length b1 = 256" "at c1 (be_put16 port @ payload) out" by blast
  have l: "length (be_put16 port) = 2" "2 \<le> length b1" using c1(2) by (simp_all add: be_put16_def)
  obtain b2 c2 where c2: "read_into 2 b1 c1 = ((None, b2), c2)" "take 2 b2 = be_put16 port" "at c2 payload out"
    using read_into_at [OF c1(3) l] by blast
  let ?t = "JoinHostPort host (nat_to_dec (unat port))"
  let ?meta = "meta0\<lparr>m_ID := sv_uuid sv, m_Source := raddr c2, m_Target := ?t, m_HopChain := [?t],
    m_UserID := user, m_Network := ''tcp'', m_CreatedAt := sv_now sv\<rparr>"
  have p: "unat port < 65536" using unsigned_less [of port] by simp
  have "m_HopChain ?meta = [?t]" "m_Network ?meta = ''tcp''" by simp_all
  from chain_one_hop [OF assms(1,2,3) p this] obtain hdr where hdr: "connect sv ?meta = Inr (Inl (c0\<lparr>outq := hdr\<rparr>))" "egress_dials hdr ?t"
    by blast
  have "s5_handleConnect sv 3 user lim c = Relayed \<lparr>rs_client = Inl (send (socks_reply 0) c2), rs_target = Inl (c0\<lparr>outq := hdr\<rparr>),
      rs_meta = ?meta, rs_user = user, rs_limiter = lim, rs_quota = True\<rparr>"
    using c1(1) c2(1,2) hdr(1) by (simp add: s5_handleConnect_def Let_def)
  with hdr(2) send_at [OF c2(3)] show ?thesis by auto
qed

text \<open>A complete login and request for a domain name.\<close>

definition socks_request :: "bytes \<Rightarrow> bytes \<Rightarrow> bytes \<Rightarrow> byte \<Rightarrow> string \<Rightarrow> u16 \<Rightarrow> bytes" where
  "socks_request ms u pw rsv host port = [5, of_nat (length ms)] @ ms @ [1, of_nat (length u)] @ u @ [of_nat (length pw)] @ pw @
     [5, 1, rsv, 3] @ [of_nat (length host)] @ bytes_of_string host @ be_put16 port"

lemma handleConnection_domain:
  assumes "chain_services sv en n c0" "uuid_wf (en_uparse en) (en_unew en)" "hop_ok host" "au_Enabled (s5_auth s)"
    and "length ms < 256" "length u < 256" "length pw < 256" "length host < 256"
    and "at c (socks_request ms u pw rsv host port @ payload) []"
  shows "if authenticated bcryptOK (au_Users (s5_auth s)) (string_of_bytes u) (string_of_bytes pw)
    then \<exists>rs lm' c' hdr. handleConnection bcryptOK sv listenUDP s c lm = (Stream (Relayed rs), lm')
      \<and> rs_user rs = string_of_bytes u \<and> rs_limiter rs = fst (GetOrCreate (string_of_bytes u) lm) \<and> rs_quota rs
      \<and> rs_client rs = Inl c' \<and> at c' payload ([5, 2, 1, 0] @ socks_reply 0)
      \<and> rs_target rs = Inl (c0\<lparr>outq := hdr\<rparr>) \<and> egress_dials hdr (JoinHostPort host (nat_to_dec (unat port)))
    else \<exists>c'. handleConnection bcryptOK sv listenUDP s c lm = (Stream (Dropped (Inl (conn_close c'))), lm) \<and> outq c' = [5, 2, 1, 1]"
proof -
  let ?req = "[5, 1, rsv, 3] @ ([of_nat (length host)] @ bytes_of_string host @ be_put16 port @ payload)"
  let ?ok = "authenticated bcryptOK (au_Users (s5_auth s)) (string_of_bytes u) (string_of_bytes pw)"
  have l: "length [5, of_nat (length ms) :: byte] = 2" "2 \<le> length (replicate 256 0 :: bytes)" by simp_all
  obtain b1 c1 where c1: "read_into 2 (replicate 256 0) c = ((None, b1), c1)" "take 2 b1 = [5, of_nat (length ms)]" "length b1 = 256"
      "at c1 (ms @ ([1, of_nat (length u)] @ u @ [of_nat (length pw)] @ pw @ ?req)) []"
    using read_into_at [OF _ l, of c "ms @ ([1, of_nat (length u)] @ u @ [of_nat (length pw)] @ pw @ ?req)" "[]"] assms(9) by (auto simp: socks_request_def)
  have b1: "b1 ! 0 = 5" "unat (b1 ! 1) = length ms"
    using take_nth [OF c1(2), of 0] take_nth [OF c1(2), of 1] assms(5) by (simp_all add: unat_of_nat_byte)
  obtain c2 where c2: "ReadFull conn_read (length ms) c1 = ((ms, None), c2)" "at c2 ([1, of_nat (length u)] @ u @ [of_nat (length pw)] @ pw @ ?req) []"
    using ReadFull_at [OF c1(4) refl] by blast
  obtain b3 c3 where c3: "length b3 = 256" "at c3 ?req ([] @ [5, 2, 1, if ?ok then 0 else 1])"
      "socks_auth bcryptOK (s5_auth s) b1 c2 = ((if ?ok then Some (string_of_bytes u) else None, b3), c3)"
    using socks_auth_stream [OF assms(4) c2(2) c1(3) assms(6,7), of bcryptOK] by blast
  show ?thesis
  proof (cases ?ok)
    case False
    then have "handleConnection bcryptOK sv listenUDP s c lm = (Stream (Dropped (Inl (conn_close c3))), lm)"
      using c1(1) b1 c2(1) c3(3) by (simp add: handleConnection_def)
    moreover have "outq c3 = [5, 2, 1, 1]" using c3(2) False by (simp add: at_def)
    ultimately show ?thesis using False by auto
  next
    case True
    have l4: "length [5, 1, rsv, 3 :: byte] = 4" "4 \<le> length b3" using c3(1) by simp_all
    have "at c3 ?req [5, 2, 1, 0]" using c3(2) True by simp
    from read_into_at [OF this l4] obtain b4 c4 where c4: "read_into 4 b3 c3 = ((None, b4), c4)" "take 4 b4 = [5, 1, rsv, 3]"
        "at c4 ([of_nat (length host)] @ bytes_of_string host @ be_put16 port @ payload) [5, 2, 1, 0]" by blast
    have b4: "b4 ! 1 = 1" "b4 ! 3 = 3" using take_nth [OF c4(2), of 1] take_nth [OF c4(2), of 3] by simp_all
    obtain lim lm' where g: "GetOrCreate (string_of_bytes u) lm = (lim, lm')" by (cases "GetOrCreate (string_of_bytes u) lm")
    have "handleConnection bcryptOK sv listenUDP s c lm = (Stream (s5_handleConnect sv 3 (string_of_bytes u) lim c4), lm')"
      using c1(1) b1 c2(1) c3(3) c4(1) b4 g True by (simp add: handleConnection_def)
    with s5_handleConnect_domain [OF assms(1,2,3,8) c4(3), of "string_of_bytes u" lim] True g show ?thesis by auto
  qed
qed

section \<open>Properties\<close>

text \<open>
  C20: Nobody passes without credentials. With authentication enabled and errors of the connection
  final, whatever the client sends and wherever its stream breaks off, a session is opened (a
  relay or a UDP association) only when the client has sent a complete login with the name of the
  session and a password that the configuration accepts; limiters are not touched otherwise.
\<close>

theorem socks5_auth_safe:
  assumes "au_Enabled (s5_auth s)" "errors_final c" "handleConnection bcryptOK sv listenUDP s c lm = (out, lm')"
  shows "(\<forall>rs. out = Stream (Relayed rs) \<longrightarrow> sent_login bcryptOK (s5_auth s) c (rs_user rs))
    \<and> (\<forall>u lim c' port. out = Associate u lim c' port \<longrightarrow> sent_login bcryptOK (s5_auth s) c u)
    \<and> (lm' = lm \<or> (\<exists>u. sent_login bcryptOK (s5_auth s) c u))"
proof -
  obtain e1 b1 c1 where r1: "read_into 2 (replicate 256 0) c = ((e1, b1), c1)" by (metis prod.exhaust)
  obtain ms e2 c2 where r2: "ReadFull conn_read (unat (b1 ! 1)) c1 = ((ms, e2), c2)" by (metis prod.exhaust)
  obtain u b3 c3 where r3: "socks_auth bcryptOK (s5_auth s) b1 c2 = ((u, b3), c3)" by (metis prod.exhaust)
  obtain e4 b4 c4 where r4: "read_into 4 b3 c3 = ((e4, b4), c4)" by (metis prod.exhaust)
  show ?thesis
  proof (cases "e1 = None \<and> b1 ! 0 = 5 \<and> e2 = None \<and> u \<noteq> None \<and> e4 = None")
    case False
    with assms(3) r1 r2 r3 r4 have "(\<exists>c'. out = Stream (Dropped c')) \<and> lm' = lm"
      by (auto simp: handleConnection_def split: if_splits option.splits)
    then show ?thesis by auto
  next
    case True
    then obtain user where user: "u = Some user" by auto
    have k: "sent_login bcryptOK (s5_auth s) c user"
      using handle_sent_login [OF assms(2,1), of b1 c1 ms c2 bcryptOK user b3 c3 b4 c4] r1 r2 r3 r4 user True by simp
    obtain lim lm1 where g: "GetOrCreate user lm = (lim, lm1)" by (cases "GetOrCreate user lm")
    have "(\<exists>c'. out = Stream (Dropped c')) \<or> out = Stream (s5_handleConnect sv (b4 ! 3) user lim c4) \<or> out = handleUDPAssociate listenUDP user lim c4"
      using assms(3) r1 r2 r3 r4 user g True by (auto simp: handleConnection_def split: if_splits)
    then show ?thesis using k s5_handleConnect_user [of sv "b4 ! 3" user lim c4]
      by (auto simp: handleUDPAssociate_def split: sum.splits)
  qed
qed

text \<open>A server with one user, and a client that logs in as \<open>ann\<close> and asks for \<^verbatim>\<open>a.example:443\<close>.\<close>

definition demo_s5 :: Socks5Handler where
  "demo_s5 = NewSocks5Handler ''127.0.0.1:1080'' False \<lparr>au_Enabled = True, au_Users = [\<lparr>ua_Username = ''ann'', ua_Password = ''pw''\<rparr>]\<rparr>"

definition demo_login :: "string \<Rightarrow> bytes" where
  "demo_login pw = socks_request [2] (bytes_of_string ''ann'') (bytes_of_string pw) 0 ''a.example'' 443 @ [7, 8]"

theorem socks5_auth_safe_witness:
  "let lm' = snd (handleConnection (=) demo_services (Inr 5000) demo_s5 (peer_sends (demo_login ''pw'')) (NewLimiterManager 1)) in
   lm' = NewLimiterManager 1 \<or> (\<exists>u. sent_login (=) (s5_auth demo_s5) (peer_sends (demo_login ''pw'')) u)"
proof -
  obtain out lm' where h: "handleConnection (=) demo_services (Inr 5000) demo_s5 (peer_sends (demo_login ''pw'')) (NewLimiterManager 1) = (out, lm')"
    by (metis prod.exhaust)
  have "au_Enabled (s5_auth demo_s5)" by (simp add: demo_s5_def NewSocks5Handler_def)
  moreover have "errors_final (peer_sends (demo_login ''pw''))" by (simp add: errors_final_def) (simp add: peer_sends_def)
  ultimately show ?thesis using socks5_auth_safe [OF _ _ h] by (simp add: h)
qed



end
