(* ===== verification/HTTP_Inbound.thy ===== *)
theory HTTP_Inbound
  imports Socks5_Inbound
begin

text \<open>
  The HTTP proxy (\<^verbatim>\<open>internal/inbound/http_proxy.go\<close>): Basic authentication, CONNECT tunnels and plain
  requests. The server of \<^verbatim>\<open>net/http\<close> hands the handler a parsed request; \<open>rq_wire\<close> is what
  \<^verbatim>\<open>r.Write\<close> sends for it without the two hop-by-hop headers. \<open>hijack\<close> is the result of taking over
  the connection: unsupported, failed, or the connection and the bytes the server had already
  buffered.
\<close>

section \<open>Base64\<close>

definition b64_char :: "nat \<Rightarrow> char" where
  "b64_char n = char_of (if n < 26 then 65 + n else if n < 52 then 71 + n else if n < 62 then n - 4 else if n = 62 then 43 else 47)"

definition b64_val :: "char \<Rightarrow> nat option" where
  "b64_val c = (let n = (of_char c :: nat) in
     if 65 \<le> n \<and> n \<le> 90 then Some (n - 65)
     else if 97 \<le> n \<and> n \<le> 122 then Some (n - 71)
     else if 48 \<le> n \<and> n \<le> 57 then Some (n + 4)
     else if n = 43 then Some 62 else if n = 47 then Some 63 else None)"

definition b64_word :: "nat \<Rightarrow> nat \<Rightarrow> nat \<Rightarrow> nat \<Rightarrow> bytes" where
  "b64_word a b c d = (let n = a * 262144 + b * 4096 + c * 64 + d in
     [of_nat (n div 65536), of_nat (n div 256 mod 256), of_nat (n mod 256)])"

text \<open>\<^verbatim>\<open>base64.StdEncoding\<close>: groups of four, padding only at the end, line breaks ignored.\<close>

fun b64_groups :: "string \<Rightarrow> bytes option" where
  "b64_groups [] = Some []"
| "b64_groups (w # x # y # z # s) = (case (b64_val w, b64_val x) of
     (Some a, Some b) \<Rightarrow>
       (case (b64_val y, b64_val z) of
          (Some c, Some d) \<Rightarrow> map_option ((@) (b64_word a b c d)) (b64_groups s)
        | (Some c, None) \<Rightarrow> if z = CHR ''='' \<and> s = [] then Some (take 2 (b64_word a b c 0)) else None
        | (None, _) \<Rightarrow> if y = CHR ''='' \<and> z = CHR ''='' \<and> s = [] then Some (take 1 (b64_word a b 0 0)) else None)
   | _ \<Rightarrow> None)"
| "b64_groups _ = None"

definition DecodeString :: "string \<Rightarrow> bytes option" where
  "DecodeString s = b64_groups (filter (\<lambda>c. c \<noteq> char_of (10 :: nat) \<and> c \<noteq> char_of (13 :: nat)) s)"

section \<open>The handler\<close>

record HTTPProxyHandler =
  hp_listenAddr :: string
  hp_useProxyProto :: bool
  hp_auth :: AuthConfig

definition NewHTTPProxyHandler :: "string \<Rightarrow> bool \<Rightarrow> AuthConfig \<Rightarrow> HTTPProxyHandler" where
  "NewHTTPProxyHandler listen useProxyProto auth = \<lparr>hp_listenAddr = listen, hp_useProxyProto = useProxyProto, hp_auth = auth\<rparr>"

record http_request =
  rq_Method :: string
  rq_URLHost :: string
  rq_Host :: string
  rq_ProxyAuthorization :: string
  rq_wire :: bytes

text \<open>An error response: its status, its text, and whether it asks for credentials.\<close>

record http_error =
  he_status :: nat
  he_text :: string
  he_challenge :: bool

definition mk_error :: "nat \<Rightarrow> string \<Rightarrow> http_error" where
  "mk_error st msg = \<lparr>he_status = st, he_text = msg, he_challenge = False\<rparr>"

datatype http_outcome =
  Refused http_error
| Tunnelled "conn bufio outcome"
| Proxied "conn outcome"
| Copied nat "(string \<times> string) list"
| Abandoned

definition http_auth :: "(string \<Rightarrow> string \<Rightarrow> bool) \<Rightarrow> AuthConfig \<Rightarrow> string \<Rightarrow> http_error + string" where
  "http_auth bcryptOK auth authHeader =
     (if \<not> au_Enabled auth then Inr ''anonymous''
      else if authHeader = [] then Inl ((mk_error 407 ''Proxy Authentication Required'')\<lparr>he_challenge := True\<rparr>)
      else
        let parts = SplitN2 authHeader (CHR '' '') in
        if length parts \<noteq> 2 \<or> parts ! 0 \<noteq> ''Basic'' then Inl (mk_error 400 ''Invalid Proxy-Authorization Header'')
        else (case DecodeString (parts ! 1) of
            None \<Rightarrow> Inl (mk_error 400 ''Failed to decode Proxy-Authorization'')
          | Some payload \<Rightarrow>
              let pair = SplitN2 (string_of_bytes payload) (CHR '':'') in
              if length pair \<noteq> 2 then Inl (mk_error 400 ''Invalid Proxy-Authorization credentials'')
              else if authenticated bcryptOK (au_Users auth) (pair ! 0) (pair ! 1) then Inr (pair ! 0)
              else Inl (mk_error 403 ''Forbidden: Invalid credentials'')))"

definition with_port :: "string \<Rightarrow> string \<Rightarrow> string" where
  "with_port host port = (if ContainsByte host (CHR '':'') then host else JoinHostPort host port)"

type_synonym hijack = "(conn \<times> bytes) res option"

definition http_line :: "string \<Rightarrow> bytes" where
  "http_line s = bytes_of_string (''HTTP/1.1 '' @ s @ crlf @ crlf)"

definition hp_handleConnect ::
  "services \<Rightarrow> hijack \<Rightarrow> http_request \<Rightarrow> string \<Rightarrow> BandwidthLimiter option \<Rightarrow> http_outcome" where
  "hp_handleConnect sv hijack r userID limiter = (case hijack of
     None \<Rightarrow> Refused (mk_error 500 ''Hijacking not supported'')
   | Some (Inl e) \<Rightarrow> Abandoned
   | Some (Inr (clientConn, buffered)) \<Rightarrow>
       let target = with_port (rq_URLHost r) ''443'';
           meta = meta0\<lparr>m_ID := sv_uuid sv, m_Source := raddr clientConn, m_Target := target, m_Network := ''tcp'',
             m_HopChain := [target], m_CreatedAt := sv_now sv, m_UserID := userID\<rparr>;
           fail = (\<lambda>s. Tunnelled (Dropped (buf_close (bufio_new (send (http_line s) clientConn))))) in
       (case connect sv meta of
          Inl (Crash s) \<Rightarrow> Tunnelled (Crashed s)
        | Inl (NoRoute e) \<Rightarrow> fail ''502 Bad Gateway''
        | Inl (NoDial e) \<Rightarrow> fail ''504 Gateway Timeout''
        | Inr t \<Rightarrow> (case SniffConn (send (http_line ''200 Connection Established'') clientConn) of
            (Inl e, b) \<Rightarrow> Tunnelled (Crashed (panic_text e))
          | (Inr _, b) \<Rightarrow> Tunnelled (Relayed \<lparr>rs_client = b, rs_target = t, rs_meta = meta, rs_user = userID, rs_limiter = limiter, rs_quota = True\<rparr>))))"

definition handlePlainHTTP ::
  "services \<Rightarrow> entropy \<Rightarrow> (netconn \<Rightarrow> (nat \<times> (string \<times> string) list) res) \<Rightarrow> hijack \<Rightarrow> http_request \<Rightarrow> string
     \<Rightarrow> BandwidthLimiter option \<Rightarrow> http_outcome" where
  "handlePlainHTTP sv en readResponse hijack r userID limiter =
     (let target = with_port (rq_Host r) ''80'';
          meta = meta0\<lparr>m_ID := sv_uuid sv, m_Target := target, m_Network := ''tcp'', m_HopChain := [target],
            m_CreatedAt := sv_now sv, m_UserID := userID\<rparr> in
      case connect sv meta of
        Inl (Crash s) \<Rightarrow> Proxied (Crashed s)
      | Inl (NoRoute e) \<Rightarrow> Refused (mk_error 502 ''Gateway Error'')
      | Inl (NoDial e) \<Rightarrow> Refused (mk_error 504 ''Gateway Timeout'')
      | Inr t \<Rightarrow> (case (hijack, net_write en (rq_wire r) t) of
          (Some (Inr (clientConn, buffered)), (Some e, t')) \<Rightarrow> Proxied (Dropped (conn_close clientConn))
        | (Some (Inr (clientConn, buffered)), (None, t')) \<Rightarrow>
            Proxied (Relayed \<lparr>rs_client = clientConn, rs_target = t', rs_meta = meta, rs_user = userID, rs_limiter = limiter, rs_quota = True\<rparr>)
        | (_, (Some e, t')) \<Rightarrow> Abandoned
        | (_, (None, t')) \<Rightarrow> (case readResponse t' of
            Inl e \<Rightarrow> Refused (mk_error 503 ''Remote Service Unreachable'')
          | Inr (status, headers) \<Rightarrow> Copied status headers)))"

definition handleHTTP ::
  "(string \<Rightarrow> string \<Rightarrow> bool) \<Rightarrow> services \<Rightarrow> entropy \<Rightarrow> (netconn \<Rightarrow> (nat \<times> (string \<times> string) list) res) \<Rightarrow> hijack
     \<Rightarrow> HTTPProxyHandler \<Rightarrow> http_request \<Rightarrow> LimiterManager \<Rightarrow> http_outcome \<times> LimiterManager" where
  "handleHTTP bcryptOK sv en readResponse hijack h r lm =
     (case http_auth bcryptOK (hp_auth h) (rq_ProxyAuthorization r) of
        Inl e \<Rightarrow> (Refused e, lm)
      | Inr userID \<Rightarrow> (case GetOrCreate userID lm of (limiter, lm) \<Rightarrow>
          (if rq_Method r = ''CONNECT'' then hp_handleConnect sv hijack r userID limiter
           else handlePlainHTTP sv en readResponse hijack r userID limiter, lm)))"

section \<open>Base64 round trip\<close>

definition b64_quad :: "nat \<Rightarrow> char list" where
  "b64_quad n = [b64_char (n div 262144), b64_char (n div 4096 mod 64), b64_char (n div 64 mod 64), b64_char (n mod 64)]"

fun EncodeToString :: "bytes \<Rightarrow> string" where
  "EncodeToString [] = []"
| "EncodeToString [a] = take 2 (b64_quad (unat a * 65536)) @ ''==''"
| "EncodeToString [a, b] = take 3 (b64_quad (unat a * 65536 + unat b * 256)) @ ''=''"
| "EncodeToString (a # b # c # bs) = b64_quad (unat a * 65536 + unat b * 256 + unat c) @ EncodeToString bs"

lemma b64_val_char [simp]:
  assumes "n < 64" shows "b64_val (b64_char n) = Some n"
proof -
  consider "n < 26" | "26 \<le> n" "n < 52" | "52 \<le> n" "n < 62" | "n = 62" | "n = 63" using assms by linarith
  then show ?thesis
  proof cases
    case 3
    define k where "k = n - 52"
    with 3 have "n = 52 + k" "k < 10" by simp_all
    then show ?thesis by (simp add: b64_val_def b64_char_def Let_def take_bit_eq_mod)
  qed (simp_all add: b64_val_def b64_char_def Let_def take_bit_eq_mod)
qed

lemma b64_char_plain [simp]:
  assumes "n < 64" shows "b64_char n \<noteq> char_of (10 :: nat)" "b64_char n \<noteq> char_of (13 :: nat)"
  using b64_val_char [OF assms] by (auto simp: b64_val_def Let_def)

lemma b64_val_pad [simp]: "b64_val (CHR ''='') = None"
  by (simp add: b64_val_def)

lemma b64_split:
  assumes "n < 16777216"
  shows "n div 262144 < 64" "(n div 262144) * 262144 + (n div 4096 mod 64) * 4096 + (n div 64 mod 64) * 64 + n mod 64 = (n :: nat)"
proof -
  show "n div 262144 < 64" using assms by simp
  have "n = 64 * (n div 64) + n mod 64" "n div 64 = 64 * (n div 4096) + n div 64 mod 64" "n div 4096 = 64 * (n div 262144) + n div 4096 mod 64"
    using mult_div_mod_eq [of 64 "n div 64"] mult_div_mod_eq [of 64 "n div 4096"] by (simp_all flip: div_mult2_eq)
  then show "(n div 262144) * 262144 + (n div 4096 mod 64) * 4096 + (n div 64 mod 64) * 64 + n mod 64 = n" by linarith
qed

lemma b64_word_split:
  assumes "n < 16777216"
  shows "b64_word (n div 262144) (n div 4096 mod 64) (n div 64 mod 64) (n mod 64)
    = [of_nat (n div 65536), of_nat (n div 256 mod 256), of_nat (n mod 256)]"
  by (simp add: b64_word_def Let_def b64_split(2) [OF assms])

lemma b64_bytes:
  fixes a b c :: byte
  shows "unat a * 65536 + unat b * 256 + unat c < 16777216"
    and "(unat a * 65536 + unat b * 256 + unat c) div 65536 = unat a"
    and "(unat a * 65536 + unat b * 256 + unat c) div 256 mod 256 = unat b"
    and "(unat a * 65536 + unat b * 256 + unat c) mod 256 = unat c"
proof -
  have lt: "unat a < 256" "unat b < 256" "unat c < 256" by (rule unat_byte)+
  then show "unat a * 65536 + unat b * 256 + unat c < 16777216" by linarith
  show "(unat a * 65536 + unat b * 256 + unat c) div 65536 = unat a" using lt by (intro div_nat_eqI) auto
  have "(unat a * 65536 + unat b * 256 + unat c) div 256 = unat a * 256 + unat b" using lt by (intro div_nat_eqI) auto
  then show "(unat a * 65536 + unat b * 256 + unat c) div 256 mod 256 = unat b" using lt by simp
  have "unat a * 65536 + unat b * 256 + unat c = unat c + 256 * (unat a * 256 + unat b)" by simp
  then show "(unat a * 65536 + unat b * 256 + unat c) mod 256 = unat c" using lt by (metis mod_mult_self2 mod_less)
qed

lemma b64_word_bytes:
  fixes a b c :: byte
  defines "n \<equiv> unat a * 65536 + unat b * 256 + unat c"
  shows "b64_word (n div 262144) (n div 4096 mod 64) (n div 64 mod 64) (n mod 64) = [a, b, c]"
  using b64_word_split [of n] b64_bytes [of a b c] by (simp add: n_def)

lemma b64_groups_encode: "b64_groups (EncodeToString bs) = Some bs"
proof (induction bs rule: EncodeToString.induct)
  case (2 a)
  show ?case using b64_word_bytes [of a 0 0] b64_bytes(1) [of a 0 0] by (simp add: b64_quad_def)
next
  case (3 a b)
  show ?case using b64_word_bytes [of a b 0] b64_bytes(1) [of a b 0] by (simp add: b64_quad_def)
next
  case (4 a b c bs)
  show ?case using 4 b64_word_bytes [of a b c] b64_bytes(1) [of a b c] by (simp add: b64_quad_def)
qed simp

lemma b64_quad_plain: "n < 16777216 \<Longrightarrow> c \<in> set (b64_quad n) \<Longrightarrow> c \<noteq> char_of (10 :: nat) \<and> c \<noteq> char_of (13 :: nat)"
  by (auto simp: b64_quad_def)

lemma b64_filter [simp]:
  "filter (\<lambda>c. c \<noteq> char_of (10 :: nat) \<and> c \<noteq> char_of (13 :: nat)) (EncodeToString bs) = EncodeToString bs"
proof -
  have pad: "CHR ''='' \<noteq> char_of (10 :: nat)" "CHR ''='' \<noteq> char_of (13 :: nat)" by code_simp+
  have "\<forall>c \<in> set (EncodeToString bs). c \<noteq> char_of (10 :: nat) \<and> c \<noteq> char_of (13 :: nat)"
  proof (induction bs rule: EncodeToString.induct)
    case (2 a)
    show ?case using b64_quad_plain [OF b64_bytes(1) [of a 0 0]] pad by (auto dest: in_set_takeD)
  next
    case (3 a b)
    show ?case using b64_quad_plain [OF b64_bytes(1) [of a b 0]] pad by (auto dest: in_set_takeD)
  next
    case (4 a b c bs)
    then show ?case using b64_quad_plain [OF b64_bytes(1) [of a b c]] by auto
  qed simp
  then show ?thesis by simp
qed

lemma DecodeString_EncodeToString [simp]: "DecodeString (EncodeToString bs) = Some bs"
  by (simp add: DecodeString_def b64_groups_encode)

section \<open>Properties\<close>

lemma http_auth_good:
  assumes "au_Enabled auth" "CHR '':'' \<notin> set u"
  shows "http_auth bcryptOK auth (''Basic '' @ EncodeToString (bytes_of_string (u @ CHR '':'' # pw)))
    = (if authenticated bcryptOK (au_Users auth) u pw then Inr u else Inl (mk_error 403 ''Forbidden: Invalid credentials''))"
proof -
  have "SplitN2 (''Basic'' @ CHR '' '' # x) (CHR '' '') = [''Basic'', x]" for x by (rule SplitN2_append) simp
  then have "SplitN2 (''Basic '' @ x) (CHR '' '') = [''Basic'', x]" for x by simp
  then show ?thesis using assms by (simp add: http_auth_def SplitN2_append Let_def)
qed

lemma http_auth_user:
  assumes "http_auth bcryptOK auth hdr = Inr u" "au_Enabled auth"
  shows "\<exists>cred pw. hdr = ''Basic '' @ cred \<and> DecodeString cred = Some (bytes_of_string (u @ CHR '':'' # pw))
    \<and> authenticated bcryptOK (au_Users auth) u pw"
proof -
  from assms obtain b cred where 1: "SplitN2 hdr (CHR '' '') = [b, cred]" "b = ''Basic''"
    using SplitN2_cases [of hdr "CHR '' ''"] by (auto simp: http_auth_def Let_def split: if_splits)
  with assms obtain payload where 2: "DecodeString cred = Some payload"
    by (auto simp: http_auth_def Let_def split: if_splits option.splits)
  with assms 1 obtain v pw where 3: "SplitN2 (string_of_bytes payload) (CHR '':'') = [v, pw]"
    using SplitN2_cases [of "string_of_bytes payload" "CHR '':''"] by (auto simp: http_auth_def Let_def split: if_splits)
  have "v = u" "authenticated bcryptOK (au_Users auth) u pw" using assms 1 2 3 by (auto simp: http_auth_def Let_def split: if_splits)
  moreover have "hdr = ''Basic '' @ cred" using SplitN2_two [OF 1(1)] 1(2) by simp
  moreover have "payload = bytes_of_string (v @ CHR '':'' # pw)" using SplitN2_two [OF 3] by (metis bytes_string_inverse)
  ultimately show ?thesis using 2 by blast
qed

lemma http_handlers_user:
  "hp_handleConnect sv hj r u lim = Tunnelled (Relayed rs) \<Longrightarrow> rs_user rs = u \<and> rs_limiter rs = lim \<and> rs_quota rs"
  "handlePlainHTTP sv en rr hj r u lim = Proxied (Relayed rs') \<Longrightarrow> rs_user rs' = u \<and> rs_limiter rs' = lim \<and> rs_quota rs'"
  by (auto simp: hp_handleConnect_def handlePlainHTTP_def Let_def split: prod.splits sum.splits conn_fail.splits option.splits)

text \<open>
  C19: Nothing is proxied without credentials. With authentication enabled, a request is either refused
  with 400, 403 or 407 and no limiter is touched, or its header is \<open>Basic\<close> with the Base64 of a name
  and a password which a configured user has, and whatever is relayed for it runs under that name
  with its limiter and its quota.
\<close>

theorem http_auth_safe:
  assumes "au_Enabled (hp_auth h)" "handleHTTP bcryptOK sv en rr hj h r lm = (out, lm')"
  shows "(\<exists>e. out = Refused e \<and> he_status e \<in> {400, 403, 407} \<and> lm' = lm)
    \<or> (\<exists>cred u pw. rq_ProxyAuthorization r = ''Basic '' @ cred \<and> DecodeString cred = Some (bytes_of_string (u @ CHR '':'' # pw))
        \<and> authenticated bcryptOK (au_Users (hp_auth h)) u pw
        \<and> (\<forall>rs. out = Tunnelled (Relayed rs) \<longrightarrow> rs_user rs = u \<and> rs_limiter rs = fst (GetOrCreate u lm) \<and> rs_quota rs)
        \<and> (\<forall>rs. out = Proxied (Relayed rs) \<longrightarrow> rs_user rs = u \<and> rs_limiter rs = fst (GetOrCreate u lm) \<and> rs_quota rs))"
proof (cases "http_auth bcryptOK (hp_auth h) (rq_ProxyAuthorization r)")
  case (Inl e)
  then have "he_status e \<in> {400, 403, 407}"
    by (auto simp: http_auth_def mk_error_def Let_def split: if_splits option.splits)
  moreover have "out = Refused e" "lm' = lm" using Inl assms(2) by (simp_all add: handleHTTP_def)
  ultimately show ?thesis by blast
next
  case (Inr u)
  obtain lim lm1 where g: "GetOrCreate u lm = (lim, lm1)" by (cases "GetOrCreate u lm")
  have "out = hp_handleConnect sv hj r u lim \<or> out = handlePlainHTTP sv en rr hj r u lim"
    using assms(2) Inr g by (auto simp: handleHTTP_def split: if_splits)
  then have "(\<forall>rs. out = Tunnelled (Relayed rs) \<longrightarrow> rs_user rs = u \<and> rs_limiter rs = lim \<and> rs_quota rs)
      \<and> (\<forall>rs. out = Proxied (Relayed rs) \<longrightarrow> rs_user rs = u \<and> rs_limiter rs = lim \<and> rs_quota rs)"
    using http_handlers_user(1) [of sv hj r u lim] http_handlers_user(2) [of sv en rr hj r u lim]
    by (auto simp: hp_handleConnect_def handlePlainHTTP_def Let_def split: prod.splits sum.splits conn_fail.splits option.splits)
  moreover have "lim = fst (GetOrCreate u lm)" using g by simp
  ultimately show ?thesis using http_auth_user [OF Inr assms(1)] by blast
qed

definition demo_hp :: HTTPProxyHandler where
  "demo_hp = NewHTTPProxyHandler ''127.0.0.1:8080'' False \<lparr>au_Enabled = True, au_Users = [\<lparr>ua_Username = ''ann'', ua_Password = ''pw''\<rparr>]\<rparr>"

definition demo_rq :: "string \<Rightarrow> http_request" where
  "demo_rq pw = \<lparr>rq_Method = ''CONNECT'', rq_URLHost = JoinHostPort ''a.example'' (nat_to_dec 443), rq_Host = ''a.example:443'',
     rq_ProxyAuthorization = ''Basic '' @ EncodeToString (bytes_of_string (''ann'' @ CHR '':'' # pw)), rq_wire = []\<rparr>"

lemma demo_hp_simps: "au_Enabled (hp_auth demo_hp)" "au_Users (hp_auth demo_hp) = [\<lparr>ua_Username = ''ann'', ua_Password = ''pw''\<rparr>]"
  by (simp_all add: demo_hp_def NewHTTPProxyHandler_def)

theorem http_auth_safe_witness:
  "let out = fst (handleHTTP (=) demo_services demo_entropy (\<lambda>_. Inl EOF) (Some (Inr (peer_sends [7, 8], []))) demo_hp
       ((demo_rq ''pw'')\<lparr>rq_ProxyAuthorization := ''Bearer x''\<rparr>) (NewLimiterManager 1)) in
   \<exists>e. out = Refused e \<and> he_status e \<in> {400, 403, 407}"
  using http_auth_safe [OF demo_hp_simps(1), of "(=)" demo_services demo_entropy "\<lambda>_. Inl EOF" "Some (Inr (peer_sends [7, 8], []))"
      "(demo_rq ''pw'')\<lparr>rq_ProxyAuthorization := ''Bearer x''\<rparr>" "NewLimiterManager 1"]
  by (simp add: Let_def) (metis prod.collapse)

lemma hp_handleConnect_chain:
  assumes "chain_services sv en n c0" "uuid_wf (en_uparse en) (en_unew en)" "hop_ok host" "p < 65536"
    and "rq_URLHost r = JoinHostPort host (nat_to_dec p)" "\<not> is_closed c" "wlimit c = None"
  shows "\<exists>rs. hp_handleConnect sv (Some (Inr (c, buffered))) r u lim = Tunnelled (Relayed rs)
    \<and> bbuf (rs_client rs) @ arriving (inq (bsrc (rs_client rs))) = arriving (inq c)
    \<and> egress_dials (outq (base_conn (rs_target rs))) (JoinHostPort host (nat_to_dec p))"
proof -
  let ?t = "JoinHostPort host (nat_to_dec p)" and ?c = "send (http_line ''200 Connection Established'') c"
  let ?meta = "meta0\<lparr>m_ID := sv_uuid sv, m_Source := raddr c, m_Target := ?t, m_Network := ''tcp'',
    m_HopChain := [?t], m_CreatedAt := sv_now sv, m_UserID := u\<rparr>"
  have t: "with_port ?t q = ?t" for q by (simp add: with_port_def ContainsByte_def JoinHostPort_def)
  have "m_HopChain ?meta = [?t]" "m_Network ?meta = ''tcp''" by simp_all
  from chain_one_hop [OF assms(1-4) this] obtain hdr where hdr: "connect sv ?meta = Inr (Inl (c0\<lparr>outq := hdr\<rparr>))" "egress_dials hdr ?t"
    by blast
  obtain res b where sn: "SniffConn ?c = (res, b)" by (cases "SniffConn ?c")
  with SniffConn_ok obtain x where x: "res = Inr x" by (cases res) (auto simp: is_ok_def)
  have "\<not> is_closed ?c" "inq ?c = inq c" using assms(6,7) by (simp_all add: send_def conn_write_def)
  with SniffConn_held [OF _ sn] have "bbuf b @ arriving (inq (bsrc b)) = arriving (inq c)" by simp
  moreover have "hp_handleConnect sv (Some (Inr (c, buffered))) r u lim = Tunnelled (Relayed \<lparr>rs_client = b,
      rs_target = Inl (c0\<lparr>outq := hdr\<rparr>), rs_meta = ?meta, rs_user = u, rs_limiter = lim, rs_quota = True\<rparr>)"
    using hdr(1) sn x assms(5) by (simp add: hp_handleConnect_def Let_def t)
  ultimately show ?thesis using hdr(2) by auto
qed



end
