(* ===== verification/Socks5_UDP.thy ===== *)
theory Socks5_UDP
  imports Go_Net
begin

text \<open>
  The SOCKS5 UDP encapsulation (\<^verbatim>\<open>internal/protocol/socks5/udp.go\<close>). Every index and slice of the
  parser carries Go's bounds check. \<^verbatim>\<open>net.LookupPort\<close> consults a table of service names when the
  port is no number: that table is the parameter \<open>svc\<close>.
\<close>

section \<open>Definitions\<close>

record UDPPacket =
  up_Frag :: byte
  up_AddrType :: byte
  up_Address :: string
  up_Port :: u16
  up_Data :: bytes

text \<open>The switch over the address type: the host and the offset of the port.\<close>

definition udp_host :: "bytes \<Rightarrow> byte \<Rightarrow> (string \<times> nat) res" where
  "udp_host b ty =
     (if ty = 0x01 then
        (if length b < 4 + 4 + 2 then Inl (New ''invalid ipv4 packet'')
         else res_bind (go_slice b 4 8) (\<lambda>ip. Inr (IP_String ip, 8)))
      else if ty = 0x03 then
        (if length b < 4 + 1 then Inl (New ''invalid domain packet'')
         else res_bind (go_index b 4) (\<lambda>l.
           if length b < 5 + unat l + 2 then Inl (New ''domain name too long'')
           else res_bind (go_slice b 5 (5 + unat l)) (\<lambda>h. Inr (string_of_bytes h, 5 + unat l))))
      else if ty = 0x04 then
        (if length b < 4 + 16 + 2 then Inl (New ''invalid ipv6 packet'')
         else res_bind (go_slice b 4 20) (\<lambda>ip. Inr (IP_String ip, 20)))
      else Inl (New (''unsupported addr type: '' @ nat_to_dec (unat ty))))"

definition ParseUDPPacket :: "bytes \<Rightarrow> UDPPacket res" where
  "ParseUDPPacket b =
     (if length b < 10 then Inl (New ''packet too short'')
      else res_bind (go_index b 2) (\<lambda>frag. res_bind (go_index b 3) (\<lambda>ty.
        res_bind (udp_host b ty) (\<lambda>(host, offset).
        res_bind (go_slice b offset (offset + 2)) (\<lambda>pb.
        res_bind (go_slice b (offset + 2) (length b)) (\<lambda>dat.
          Inr \<lparr>up_Frag = frag, up_AddrType = ty,
               up_Address = JoinHostPort host (nat_to_dec (unat (be_get16 pb))),
               up_Port = be_get16 pb, up_Data = dat\<rparr>))))))"

text \<open>
  The digit loop of \<^verbatim>\<open>net.parsePort\<close>: an optional sign, then digits, with a ceiling that stands for
  every larger value; \<open>None\<close> means that the service table is needed.
\<close>

fun port_digits :: "nat \<Rightarrow> string \<Rightarrow> nat option" where
  "port_digits n [] = Some n"
| "port_digits n (c # cs) =
     (if is_digit c then port_digits (min (10 * n + digit_val c) (2 ^ 31)) cs else None)"

definition LookupPort :: "(string \<Rightarrow> nat option) \<Rightarrow> string \<Rightarrow> nat \<times> error option" where
  "LookupPort svc s =
     (if s = [] then (0, None) else
      let neg = (hd s = CHR ''-''); ds = (if hd s = CHR ''-'' \<or> hd s = CHR ''+'' then tl s else s) in
      case port_digits 0 ds of
        None \<Rightarrow> (case svc s of Some p \<Rightarrow> (p, None) | None \<Rightarrow> (0, Some (New ''unknown port'')))
      | Some n \<Rightarrow> if n \<le> 65535 \<and> (\<not> neg \<or> n = 0) then (n, None) else (0, Some (New ''invalid port'')))"

definition udp_addr :: "string \<Rightarrow> bytes" where
  "udp_addr host = (case ParseIP host of
     Some ip \<Rightarrow> (case To4 ip of Some ip4 \<Rightarrow> [0x01] @ ip4 | None \<Rightarrow> [0x04] @ ip)
   | None \<Rightarrow> [0x03, of_nat (length host)] @ bytes_of_string host)"

definition PackUDPPacket :: "(string \<Rightarrow> nat option) \<Rightarrow> string \<Rightarrow> bytes \<Rightarrow> bytes" where
  "PackUDPPacket svc addr dat =
     (let (host, portStr) = (case SplitHostPort addr of Inr hp \<Rightarrow> hp | Inl _ \<Rightarrow> ([], []));
          port = fst (LookupPort svc portStr) in
      [0, 0, 0] @ udp_addr host @ be_put16 (of_nat port) @ dat)"

section \<open>Lemmas\<close>

lemma port_digits_parse:
  "parse_uint n s = Inr m \<Longrightarrow> m < 2 ^ 31 \<Longrightarrow> port_digits n s = Some m"
proof (induction s arbitrary: n)
  case (Cons c cs)
  then have d: "is_digit c" "parse_uint (10 * n + digit_val c) cs = Inr m" by (auto split: if_splits)
  have mono: "parse_uint k s = Inr m \<Longrightarrow> k \<le> m" for k s
    by (induction k s rule: parse_uint.induct) (auto split: if_splits)
  have "10 * n + digit_val c < 2 ^ 31" using mono [OF d(2)] Cons.prems(2) by simp
  with d Cons.IH Cons.prems(2) show ?case by (simp add: min_def)
qed simp

lemma LookupPort_dec: "p < 65536 \<Longrightarrow> LookupPort svc (nat_to_dec p) = (p, None)"
proof -
  assume p: "p < 65536"
  have "hd (nat_to_dec p) \<noteq> CHR ''-''" "hd (nat_to_dec p) \<noteq> CHR ''+''"
    using nat_to_dec_digits [of "hd (nat_to_dec p)" p] by (auto simp: is_digit_def)
  moreover have "port_digits 0 (nat_to_dec p) = Some p"
    using port_digits_parse [OF parse_uint_nat_to_dec [of p]] p by simp
  ultimately show ?thesis using p by (simp add: LookupPort_def Let_def)
qed

text \<open>What the parser makes of an encoded address.\<close>

lemma udp_host_ip4: "length ip = 4 \<Longrightarrow> udp_host ([a, b, c, 0x01] @ ip @ [x, y] @ dat) 0x01 = Inr (IP_String ip, 8)"
  by (simp add: udp_host_def)

lemma udp_host_name:
  assumes "length h \<le> 255"
  shows "udp_host ([a, b, c, 0x03, of_nat (length h)] @ bytes_of_string h @ [x, y] @ dat) 0x03 = Inr (h, 5 + length h)"
proof -
  have "unat (of_nat (length h) :: byte) = length h" using assms by (simp add: unat_of_nat_byte)
  then show ?thesis by (simp add: udp_host_def)
qed

lemma ParseUDPPacket_Pack:
  assumes "plain_host h" "p < 65536"
    and "(ParseIP h = None \<and> 3 \<le> length h \<and> length h \<le> 255) \<or> (\<exists>ip. length ip = 4 \<and> h = IP_String ip)"
  shows "\<exists>pkt. ParseUDPPacket (PackUDPPacket svc (JoinHostPort h (nat_to_dec p)) dat) = Inr pkt
    \<and> up_Frag pkt = 0 \<and> up_Address pkt = JoinHostPort h (nat_to_dec p) \<and> unat (up_Port pkt) = p \<and> up_Data pkt = dat"
proof -
  let ?pb = "be_put16 (of_nat p)"
  have split: "SplitHostPort (JoinHostPort h (nat_to_dec p)) = Inr (h, nat_to_dec p)"
    using assms(1) by (intro Split_Join_HostPort) auto
  have pack: "PackUDPPacket svc (JoinHostPort h (nat_to_dec p)) dat = [0, 0, 0] @ udp_addr h @ ?pb @ dat"
    using assms(2) by (simp add: PackUDPPacket_def split LookupPort_dec)
  obtain x y where xy: "?pb = [x, y]" by (metis be_put16_def)
  have port: "unat (of_nat p :: u16) = p" "be_get16 [x, y] = of_nat p"
    using assms(2) xy by (simp add: unat_of_nat_u16, metis be_get16_put16)
  consider (name) "ParseIP h = None" "3 \<le> length h" "length h \<le> 255" | (ip4) ip where "length ip = 4" "h = IP_String ip"
    using assms(3) by auto
  then show ?thesis
  proof cases
    case name
    then have a: "udp_addr h = [0x03, of_nat (length h)] @ bytes_of_string h" by (simp add: udp_addr_def)
    let ?b = "[0, 0, 0, 0x03, of_nat (length h)] @ bytes_of_string h @ [x, y] @ dat"
    have host: "udp_host ?b 0x03 = Inr (h, 5 + length h)" by (rule udp_host_name [OF name(3)])
    let ?q = "[0, 0, 0, 0x03, of_nat (length h)] @ bytes_of_string h"
    have s1: "go_slice ?b (5 + length h) (5 + length h + 2) = Inr [x, y]" by (rule go_slice_mid [of _ ?q]) simp_all
    have s2: "go_slice ?b (5 + length h + 2) (length ?b) = Inr dat" by (rule go_slice_mid [of _ "?q @ [x, y]" _ "[]"]) simp_all
    have s3: "go_index ?b 2 = Inr 0" "go_index ?b 3 = Inr 0x03" by simp_all
    note s = s1 s2 s3
    have "ParseUDPPacket ?b = Inr \<lparr>up_Frag = 0, up_AddrType = 0x03, up_Address = JoinHostPort h (nat_to_dec p),
        up_Port = of_nat p, up_Data = dat\<rparr>"
      unfolding ParseUDPPacket_def s res_bind_simps host prod.case using name(2) port by simp
    then show ?thesis using port(1) by (simp add: pack a xy)
  next
    case ip4
    then have a: "udp_addr h = [0x01] @ ip" by (simp add: udp_addr_def ParseIP_String_v4)
    let ?b = "[0, 0, 0, 0x01] @ ip @ [x, y] @ dat"
    have host: "udp_host ?b 0x01 = Inr (h, 8)" using udp_host_ip4 ip4 by simp
    have s: "go_slice ?b 8 (8 + 2) = Inr [x, y]" "go_slice ?b (8 + 2) (length ?b) = Inr dat"
        "go_index ?b 2 = Inr 0" "go_index ?b 3 = Inr 0x01"
      using ip4(1) by simp_all
    have "ParseUDPPacket ?b = Inr \<lparr>up_Frag = 0, up_AddrType = 0x01, up_Address = JoinHostPort h (nat_to_dec p),
        up_Port = of_nat p, up_Data = dat\<rparr>"
      unfolding ParseUDPPacket_def s res_bind_simps host prod.case using ip4(1) port by simp
    then show ?thesis using port(1) by (simp add: pack a xy)
  qed
qed

section \<open>Properties\<close>

text \<open>
  The SOCKS5 UDP parser never panics, whatever bytes a client sends: it returns a packet or
  an ordinary error.
\<close>

theorem socks_udp_parse_no_panic: "no_panic (ParseUDPPacket b)"
proof -
  have "no_panic (udp_host b ty)" for ty
    by (auto simp: udp_host_def)
  moreover have "offset + 2 \<le> length b" if "udp_host b ty = Inr (host, offset)" for ty host offset
    using that by (auto simp: udp_host_def split: if_splits)
  ultimately show ?thesis
    unfolding ParseUDPPacket_def by (auto intro!: no_panic_bind simp: go_slice_def)
qed

text \<open>
  A reply packed for an address is parsed back. For a host that is an IPv4 address or a name of
  3 to 255 bytes and a port below 65536, the packet carries that address and the payload.
  (Packets of fewer than 10 bytes are refused by the parser, so a shorter name needs payload.)
\<close>

theorem socks_udp_roundtrip:
  assumes "plain_host h" "p < 65536"
    and "(ParseIP h = None \<and> 3 \<le> length h \<and> length h \<le> 255) \<or> (\<exists>ip. length ip = 4 \<and> h = IP_String ip)"
  shows "\<exists>pkt. ParseUDPPacket (PackUDPPacket svc (JoinHostPort h (nat_to_dec p)) dat) = Inr pkt
    \<and> up_Frag pkt = 0 \<and> up_Address pkt = JoinHostPort h (nat_to_dec p) \<and> unat (up_Port pkt) = p \<and> up_Data pkt = dat"
  by (rule ParseUDPPacket_Pack [OF assms])

theorem socks_udp_roundtrip_witness:
  "\<exists>pkt. ParseUDPPacket (PackUDPPacket (\<lambda>s. None) (JoinHostPort ''dns.example'' (nat_to_dec 53)) [1, 2]) = Inr pkt
    \<and> up_Address pkt = JoinHostPort ''dns.example'' (nat_to_dec 53) \<and> up_Data pkt = [1, 2]"
proof -
  have "ParseIP ''dns.example'' = None" "plain_host ''dns.example''" by code_simp+
  then show ?thesis
    using socks_udp_roundtrip [of "''dns.example''" 53 "\<lambda>s. None" "[1, 2]"] by auto
qed

end
