(* ===== verification/UDP_Inbounds.thy ===== *)
theory UDP_Inbounds
  imports Socks5_Inbound Socks5_UDP
begin

text \<open>
  UDP inbounds: the session manager (\<^verbatim>\<open>internal/inbound/udp_session.go\<close>), the forwarder
  (\<^verbatim>\<open>udp_forward.go\<close>), the port range (\<^verbatim>\<open>udp_range.go\<close>) and the packet loop of a SOCKS5 UDP
  association (\<^verbatim>\<open>socks5.go\<close>).

  A session is an object that outlives its map entry, so the manager is a map from keys to
  references and a store of sessions. What a socket delivers is an input: a packet and its source
  for \<^verbatim>\<open>ReadFromUDP\<close>, the result of a \<^verbatim>\<open>Read\<close> for the reverse direction. Sockets are named by their
  local address. Waiting for the limiter only delays a packet (its error is discarded), so it does not
  appear in \<open>ForwardPacket\<close>.
\<close>

section \<open>Sessions\<close>

text \<open>\<open>us_reverse\<close>: the target the running \<^verbatim>\<open>handleReverseFlow\<close> goroutine was started with, if it runs.\<close>

record udpSession =
  us_outbound :: OutboundHandler
  us_outboundConn :: "netconn option"
  us_sessionID :: string
  us_lastSeen :: int
  us_clientAddr :: string
  us_inboundConn :: string
  us_isSocks5 :: bool
  us_reverse :: "string option"

record UDPSessionManager =
  sm_sessions :: "(string \<times> nat) list"
  sm_store :: "udpSession list"
  sm_timeout :: int

definition NewUDPSessionManager :: "int \<Rightarrow> UDPSessionManager" where
  "NewUDPSessionManager timeout =
     \<lparr>sm_sessions = [], sm_store = [], sm_timeout = (if timeout = 0 then 2 * 60 * 10 ^ 9 else timeout)\<rparr>"

definition upd_session :: "nat \<Rightarrow> (udpSession \<Rightarrow> udpSession) \<Rightarrow> UDPSessionManager \<Rightarrow> UDPSessionManager" where
  "upd_session i f m = m\<lparr>sm_store := (sm_store m)[i := f (sm_store m ! i)]\<rparr>"

text \<open>
  \<^verbatim>\<open>GetOrCreate\<close> looks the key up under the read lock, releases it, and then either touches the
  session it found or routes and stores a new one under the write lock, whatever the map holds by
  then: \<open>sm_insert\<close> is that second part.
\<close>

definition sm_insert ::
  "services \<Rightarrow> string \<Rightarrow> string \<Rightarrow> string \<Rightarrow> string \<Rightarrow> bool \<Rightarrow> UDPSessionManager \<Rightarrow> (nat \<times> bool) res \<times> UDPSessionManager" where
  "sm_insert sv key target caddr uconn isSocks5 m =
     (case sv_route sv (meta0\<lparr>m_ID := sv_uuid sv, m_Target := target, m_HopChain := [target], m_Network := ''udp''\<rparr>) of
        Inl e \<Rightarrow> (Inl e, m)
      | Inr out \<Rightarrow>
          let s = \<lparr>us_outbound = out, us_outboundConn = None, us_sessionID = sv_uuid sv, us_lastSeen = sv_now sv,
            us_clientAddr = caddr, us_inboundConn = uconn, us_isSocks5 = isSocks5, us_reverse = None\<rparr> in
          (Inr (length (sm_store m), True),
           m\<lparr>sm_sessions := AList.update key (length (sm_store m)) (sm_sessions m), sm_store := sm_store m @ [s]\<rparr>))"

definition sm_touch :: "int \<Rightarrow> nat \<Rightarrow> UDPSessionManager \<Rightarrow> UDPSessionManager" where
  "sm_touch now i m = upd_session i (\<lambda>s. s\<lparr>us_lastSeen := now\<rparr>) m"

definition sm_GetOrCreate ::
  "services \<Rightarrow> string \<Rightarrow> string \<Rightarrow> string \<Rightarrow> string \<Rightarrow> bool \<Rightarrow> UDPSessionManager \<Rightarrow> (nat \<times> bool) res \<times> UDPSessionManager" where
  "sm_GetOrCreate sv key target caddr uconn isSocks5 m = (case map_of (sm_sessions m) key of
     Some i \<Rightarrow> (Inr (i, False), sm_touch (sv_now sv) i m)
   | None \<Rightarrow> sm_insert sv key target caddr uconn isSocks5 m)"

text \<open>One tick of \<^verbatim>\<open>CleanupLoop\<close>.\<close>

definition close_outbound :: "udpSession \<Rightarrow> udpSession" where
  "close_outbound s = s\<lparr>us_outboundConn := map_option net_close (us_outboundConn s)\<rparr>"

definition expired :: "int \<Rightarrow> UDPSessionManager \<Rightarrow> string \<times> nat \<Rightarrow> bool" where
  "expired now m e \<longleftrightarrow> sm_timeout m < now - us_lastSeen (sm_store m ! snd e)"

definition cleanup_tick :: "int \<Rightarrow> UDPSessionManager \<Rightarrow> UDPSessionManager" where
  "cleanup_tick now m =
     m\<lparr>sm_sessions := filter (\<lambda>e. \<not> expired now m e) (sm_sessions m),
       sm_store := fold (\<lambda>e st. st[snd e := close_outbound (st ! snd e)]) (filter (expired now m) (sm_sessions m)) (sm_store m)\<rparr>"

section \<open>Forwarding\<close>

datatype udp_sent = NotSent | SentDatagram bytes | SentWrite "error option" | SendCrashed string

text \<open>The outbound connection of a session, dialled by the first packet, with its reverse flow.\<close>

definition session_conn :: "services \<Rightarrow> nat \<Rightarrow> string \<Rightarrow> string \<Rightarrow> UDPSessionManager \<Rightarrow> (conn_fail + netconn) \<times> UDPSessionManager" where
  "session_conn sv i target userID m = (let s = sm_store m ! i in
     case us_outboundConn s of
       Some c \<Rightarrow> (Inr c, m)
     | None \<Rightarrow>
         (case dial_with sv (us_outbound s) (meta0\<lparr>m_ID := us_sessionID s, m_Target := target, m_Network := ''udp'', m_UserID := userID\<rparr>) of
            Inl f \<Rightarrow> (Inl f, m)
          | Inr c \<Rightarrow> (Inr c, upd_session i (\<lambda>s. s\<lparr>us_outboundConn := Some c, us_reverse := Some target\<rparr>) m)))"

text \<open>Only an NP-Chain outbound without obfuscation returns a \<^verbatim>\<open>*transport.StreamConn\<close>.\<close>

fun is_StreamConn :: "OutboundHandler \<Rightarrow> netconn \<Rightarrow> bool" where
  "is_StreamConn (NPChain n) (Inl c) = True"
| "is_StreamConn _ _ = False"

definition quota_check :: "string \<Rightarrow> nat \<Rightarrow> QuotaManager option \<Rightarrow> bool \<times> QuotaManager option" where
  "quota_check userID n quota = (case quota of
     None \<Rightarrow> (False, None)
   | Some q \<Rightarrow> if userID = [] then (False, Some q)
       else (case AddUsage userID (int n) q of (exceeded, q') \<Rightarrow> (exceeded, Some q')))"

definition ForwardPacket ::
  "services \<Rightarrow> entropy \<Rightarrow> nat \<Rightarrow> bytes \<Rightarrow> string \<Rightarrow> string \<Rightarrow> QuotaManager option \<Rightarrow> UDPSessionManager
     \<Rightarrow> udp_sent \<times> QuotaManager option \<times> UDPSessionManager" where
  "ForwardPacket sv en i dat target userID quota m = (case quota_check userID (length dat) quota of
     (True, quota') \<Rightarrow> (NotSent, quota', m)
   | (False, quota') \<Rightarrow> (case session_conn sv i target userID m of
       (Inl (Crash s), m') \<Rightarrow> (SendCrashed s, quota', m')
     | (Inl f, m') \<Rightarrow> (NotSent, quota', m')
     | (Inr c, m') \<Rightarrow>
         if is_StreamConn (us_outbound (sm_store m' ! i)) c then (SentDatagram dat, quota', m')
         else (case net_write en dat c of (e, c') \<Rightarrow>
           (SentWrite e, quota', upd_session i (\<lambda>s. s\<lparr>us_outboundConn := Some c'\<rparr>) m'))))"

text \<open>The counters: a packet counts once a connection was there to send it on, whether or not the write succeeds.\<close>

definition forward_count :: "udp_sent \<Rightarrow> nat \<Rightarrow> metrics \<Rightarrow> metrics" where
  "forward_count r n mt = (case r of
     SentDatagram _ \<Rightarrow> AddBytesIn (int n) (AddBytesTransferred ''udp'' ''ingress'' n mt)
   | SentWrite _ \<Rightarrow> AddBytesIn (int n) (AddBytesTransferred ''udp'' ''ingress'' n mt)
   | _ \<Rightarrow> mt)"

text \<open>
  One round of \<^verbatim>\<open>handleReverseFlow\<close>, which reads at most a buffer of the pool: the datagram it sends
  on the inbound socket, with that socket and the client it is for.
\<close>

definition reverse_step ::
  "(string \<Rightarrow> nat option) \<Rightarrow> int \<Rightarrow> bytes \<times> error option \<Rightarrow> nat \<Rightarrow> UDPSessionManager \<Rightarrow> (string \<times> string \<times> bytes) option \<times> UDPSessionManager" where
  "reverse_step svc now rd i m = (let s = sm_store m ! i; stop = upd_session i (\<lambda>s. s\<lparr>us_reverse := None\<rparr>) m in
     case (us_reverse s, us_outboundConn s) of
       (None, _) \<Rightarrow> (None, m)
     | (Some originalTarget, None) \<Rightarrow> (None, stop)
     | (Some originalTarget, Some c) \<Rightarrow> (case rd of
         (bs, Some e) \<Rightarrow> (None, stop)
       | (bs, None) \<Rightarrow>
           (Some (us_inboundConn s, us_clientAddr s, if us_isSocks5 s then PackUDPPacket svc originalTarget bs else bs),
            upd_session i (\<lambda>s. s\<lparr>us_lastSeen := now\<rparr>) m)))"

definition reverse_count :: "(string \<times> string \<times> bytes) option \<Rightarrow> metrics \<Rightarrow> metrics" where
  "reverse_count r mt = (case r of
     None \<Rightarrow> mt
   | Some (_, _, backData) \<Rightarrow> AddBytesOut (int (length backData)) (AddBytesTransferred ''udp'' ''egress'' (length backData) mt))"

section \<open>Handlers\<close>

text \<open>
  What the three packet loops do with one packet: the session of its key, then \<^verbatim>\<open>ForwardPacket\<close>. The
  result names a new session for \<^verbatim>\<open>onNewSession\<close>.
\<close>

definition udp_packet ::
  "services \<Rightarrow> entropy \<Rightarrow> string \<Rightarrow> string \<Rightarrow> string \<Rightarrow> string \<Rightarrow> bool \<Rightarrow> string \<Rightarrow> bytes \<Rightarrow> QuotaManager option \<Rightarrow> UDPSessionManager
     \<Rightarrow> (udp_sent \<times> string option) \<times> QuotaManager option \<times> UDPSessionManager" where
  "udp_packet sv en key target caddr uconn isSocks5 userID dat quota m =
     (case sm_GetOrCreate sv key target caddr uconn isSocks5 m of
        (Inl (GoPanic s), m') \<Rightarrow> ((SendCrashed s, None), quota, m')
      | (Inl e, m') \<Rightarrow> ((NotSent, None), quota, m')
      | (Inr (i, isNew), m') \<Rightarrow> (case ForwardPacket sv en i dat target userID quota m' of
          (r, quota', m'') \<Rightarrow> ((r, if isNew then Some (us_sessionID (sm_store m' ! i)) else None), quota', m'')))"

record UDPForwardHandler =
  uf_listenAddr :: string
  uf_targetAddr :: string
  uf_sm :: UDPSessionManager

definition NewUDPForwardHandler :: "string \<Rightarrow> string \<Rightarrow> UDPForwardHandler" where
  "NewUDPForwardHandler listen target =
     \<lparr>uf_listenAddr = listen, uf_targetAddr = target, uf_sm = NewUDPSessionManager 0\<rparr>"

text \<open>Once there is a session, the two forwarders fetch the limiter of the anonymous user, which the first packet creates.\<close>

definition anon_limiter :: "(nat \<times> bool) res \<Rightarrow> LimiterManager \<Rightarrow> LimiterManager" where
  "anon_limiter s lm = (case s of Inl _ \<Rightarrow> lm | Inr _ \<Rightarrow> snd (GetOrCreate ''anonymous'' lm))"

definition uf_packet ::
  "services \<Rightarrow> entropy \<Rightarrow> bytes \<Rightarrow> string \<Rightarrow> QuotaManager option \<Rightarrow> LimiterManager \<Rightarrow> UDPForwardHandler
     \<Rightarrow> (udp_sent \<times> string option) \<times> QuotaManager option \<times> LimiterManager \<times> UDPForwardHandler" where
  "uf_packet sv en dat caddr quota lm h =
     (case udp_packet sv en caddr (uf_targetAddr h) caddr (uf_listenAddr h) False ''anonymous'' dat quota (uf_sm h) of
        (r, quota', m) \<Rightarrow> (r, quota',
          anon_limiter (fst (sm_GetOrCreate sv caddr (uf_targetAddr h) caddr (uf_listenAddr h) False (uf_sm h))) lm, h\<lparr>uf_sm := m\<rparr>))"

record UDPRangeHandler =
  ur_listenAddr :: string
  ur_targetBase :: string
  ur_sm :: UDPSessionManager

definition NewUDPRangeHandler :: "string \<Rightarrow> string \<Rightarrow> UDPRangeHandler" where
  "NewUDPRangeHandler listen target =
     \<lparr>ur_listenAddr = listen, ur_targetBase = target, ur_sm = NewUDPSessionManager 0\<rparr>"

text \<open>
  \<^verbatim>\<open>Start\<close> of the range: the sockets it binds, each with the target its packets go to. \<open>bind\<close> says
  which addresses can be bound. \<open>None\<close>: the loop over the ports does not end, since its variable
  wraps around.
\<close>

definition range_loop :: "(string \<Rightarrow> bool) \<Rightarrow> string \<Rightarrow> string \<Rightarrow> int \<Rightarrow> int \<Rightarrow> int \<Rightarrow> (string \<times> string) list option" where
  "range_loop bind host targetHost base startPort endPort =
     (if endPort = 2 ^ 63 - 1 then None
      else Some (map (\<lambda>p. (JoinHostPort host (Itoa p), JoinHostPort targetHost (Itoa (int64 (base + int64 (p - startPort))))))
        (filter (\<lambda>p. bind (JoinHostPort host (Itoa p))) [startPort..endPort])))"

definition ur_Start :: "(string \<Rightarrow> bool) \<Rightarrow> UDPRangeHandler \<Rightarrow> (string \<times> string) list option res" where
  "ur_Start bind h = res_bind (SplitHostPort (ur_listenAddr h)) (\<lambda>(host, portRange).
     let ports = Split portRange ''-'' in
     if length ports \<noteq> 2 then Inl (New (''invalid port range: '' @ portRange))
     else
       let (targetHost, basePort) = (case SplitHostPort (ur_targetBase h) of Inr hp \<Rightarrow> hp | Inl _ \<Rightarrow> ([], [])) in
       Inr (range_loop bind host targetHost (fst (Atoi basePort)) (fst (Atoi (ports ! 0))) (fst (Atoi (ports ! 1)))))"

definition ur_packet ::
  "services \<Rightarrow> entropy \<Rightarrow> bytes \<Rightarrow> string \<Rightarrow> string \<Rightarrow> string \<Rightarrow> QuotaManager option \<Rightarrow> LimiterManager \<Rightarrow> UDPRangeHandler
     \<Rightarrow> (udp_sent \<times> string option) \<times> QuotaManager option \<times> LimiterManager \<times> UDPRangeHandler" where
  "ur_packet sv en dat caddr uconn target quota lm h =
     (case udp_packet sv en (caddr @ ''-'' @ target) target caddr uconn False ''anonymous'' dat quota (ur_sm h) of
        (r, quota', m) \<Rightarrow> (r, quota',
          anon_limiter (fst (sm_GetOrCreate sv (caddr @ ''-'' @ target) target caddr uconn False (ur_sm h))) lm, h\<lparr>ur_sm := m\<rparr>))"

text \<open>One packet of a SOCKS5 association; packets that do not parse are skipped.\<close>

definition s5_packet ::
  "services \<Rightarrow> entropy \<Rightarrow> string \<Rightarrow> bytes \<Rightarrow> string \<Rightarrow> string \<Rightarrow> QuotaManager option \<Rightarrow> UDPSessionManager
     \<Rightarrow> udp_sent \<times> QuotaManager option \<times> UDPSessionManager" where
  "s5_packet sv en userID buf caddr uconn quota m = (case ParseUDPPacket buf of
     Inl (GoPanic s) \<Rightarrow> (SendCrashed s, quota, m)
   | Inl e \<Rightarrow> (NotSent, quota, m)
   | Inr p \<Rightarrow> (case udp_packet sv en (caddr @ ''-'' @ up_Address p) (up_Address p) caddr uconn True userID (up_Data p) quota m of
       ((r, _), quota', m') \<Rightarrow> (r, quota', m')))"

section \<open>Runs of a session manager\<close>

text \<open>
  Any interleaving of packets, replies and cleanups, with any services and at any time. \<open>kf\<close> is
  the key a handler uses for a client and a target. A lookup changes nothing; what follows it may
  happen at any later time, when the session it found is gone or another one has been stored
  under the same key.
\<close>

inductive udp_step :: "(string \<Rightarrow> string \<Rightarrow> string) \<Rightarrow> UDPSessionManager \<Rightarrow> UDPSessionManager \<Rightarrow> bool" for kf where
  Touch: "udp_step kf m (sm_touch now i m)"
| Insert: "sm_insert sv (kf caddr target) target caddr uconn s5 m = (r, m') \<Longrightarrow> udp_step kf m m'"
| Forward: "i < length (sm_store m) \<Longrightarrow> ForwardPacket sv en i dat target userID quota m = (r, quota', m') \<Longrightarrow> udp_step kf m m'"
| Reverse: "i < length (sm_store m) \<Longrightarrow> reverse_step svc now rd i m = (out, m') \<Longrightarrow> udp_step kf m m'"
| Cleanup: "udp_step kf m (cleanup_tick now m)"

inductive_cases udp_stepE: "udp_step kf m m'"

lemma udp_step_Get: "sm_GetOrCreate sv (kf caddr target) target caddr uconn s5 m = (r, m') \<Longrightarrow> udp_step kf m m'"
  by (auto simp: sm_GetOrCreate_def intro: udp_step.intros split: option.splits)

text \<open>What never changes of a session.\<close>

definition ident :: "udpSession \<Rightarrow> string \<times> string \<times> string \<times> bool" where
  "ident s = (us_sessionID s, us_clientAddr s, us_inboundConn s, us_isSocks5 s)"

definition same_ids :: "UDPSessionManager \<Rightarrow> UDPSessionManager \<Rightarrow> bool" where
  "same_ids m m' \<longleftrightarrow> sm_sessions m' = sm_sessions m \<and> map ident (sm_store m') = map ident (sm_store m)"

lemma map_update_same: "f y = f (xs ! i) \<Longrightarrow> map f (xs[i := y]) = map f xs"
proof (cases "i < length xs")
  case True
  then have "(map f xs)[i := f (xs ! i)] = map f xs" using list_update_id [of "map f xs" i] by simp
  then show "f y = f (xs ! i) \<Longrightarrow> map f (xs[i := y]) = map f xs" by (simp add: map_update)
qed (simp add: list_update_beyond)

lemma same_ids_upd:
  "(\<And>s. ident (f s) = ident s) \<Longrightarrow> same_ids m (upd_session i f m)"
  by (simp add: same_ids_def upd_session_def map_update_same)

lemma same_ids_refl [simp]: "same_ids m m"
  by (simp add: same_ids_def)

lemma same_ids_trans: "same_ids a b \<Longrightarrow> same_ids b c \<Longrightarrow> same_ids a c"
  by (simp add: same_ids_def)

lemma session_conn_ids: "session_conn sv i target u m = (r, m') \<Longrightarrow> same_ids m m'"
  by (auto simp: session_conn_def Let_def ident_def intro!: same_ids_upd split: option.splits sum.splits)

lemma ForwardPacket_cases:
  assumes "ForwardPacket sv en i dat target u q m = (r, q', m')"
  obtains "m' = m" | c m1 where "session_conn sv i target u m = (c, m1)"
    "m' = m1 \<or> (\<exists>c'. m' = upd_session i (\<lambda>s. s\<lparr>us_outboundConn := Some c'\<rparr>) m1)"
proof -
  obtain c m1 where sc: "session_conn sv i target u m = (c, m1)" by (cases "session_conn sv i target u m")
  have "m' = m \<or> m' = m1 \<or> (\<exists>c'. m' = upd_session i (\<lambda>s. s\<lparr>us_outboundConn := Some c'\<rparr>) m1)"
    using assms sc by (auto simp: ForwardPacket_def split: prod.splits bool.splits sum.splits conn_fail.splits if_splits)
  with that sc show ?thesis by blast
qed

lemma ForwardPacket_ids: "ForwardPacket sv en i dat target u q m = (r, q', m') \<Longrightarrow> same_ids m m'"
proof (erule ForwardPacket_cases)
  fix c m1
  assume "session_conn sv i target u m = (c, m1)" and m': "m' = m1 \<or> (\<exists>c'. m' = upd_session i (\<lambda>s. s\<lparr>us_outboundConn := Some c'\<rparr>) m1)"
  then have 1: "same_ids m m1" by (simp add: session_conn_ids)
  have "same_ids m1 (upd_session i (\<lambda>s. s\<lparr>us_outboundConn := c'\<rparr>) m1)" for c' by (rule same_ids_upd) (simp add: ident_def)
  with 1 m' show "same_ids m m'" using same_ids_trans by blast
qed simp

lemma reverse_step_ids: "reverse_step svc now rd i m = (r, m') \<Longrightarrow> same_ids m m'"
  by (auto simp: reverse_step_def Let_def ident_def intro!: same_ids_upd split: option.splits prod.splits)

lemma cleanup_store:
  "length (fold (\<lambda>e st. st[snd e := close_outbound (st ! snd e)]) es st) = length st"
  "map ident (fold (\<lambda>e st. st[snd e := close_outbound (st ! snd e)]) es st) = map ident st"
  "map us_reverse (fold (\<lambda>e st. st[snd e := close_outbound (st ! snd e)]) es st) = map us_reverse st"
  "map (\<lambda>s. us_outboundConn s = None) (fold (\<lambda>e st. st[snd e := close_outbound (st ! snd e)]) es st) = map (\<lambda>s. us_outboundConn s = None) st"
  by (induction es arbitrary: st) (simp_all add: map_update_same close_outbound_def ident_def)

definition sm_inv :: "(string \<Rightarrow> string \<Rightarrow> string) \<Rightarrow> UDPSessionManager \<Rightarrow> bool" where
  "sm_inv kf m \<longleftrightarrow> distinct (map fst (sm_sessions m)) \<and> distinct (map snd (sm_sessions m))
     \<and> (\<forall>(k, i) \<in> set (sm_sessions m). i < length (sm_store m) \<and> (\<exists>target. k = kf (us_clientAddr (sm_store m ! i)) target))"

lemma same_ids_nth:
  assumes "map ident st' = map ident st" "i < length st"
  shows "i < length st'" "us_clientAddr (st' ! i) = us_clientAddr (st ! i)"
proof -
  have l: "length st' = length st" using assms(1) by (metis length_map)
  then show "i < length st'" using assms(2) by simp
  have "ident (st' ! i) = ident (st ! i)" using assms l by (metis nth_map)
  then show "us_clientAddr (st' ! i) = us_clientAddr (st ! i)" by (simp add: ident_def)
qed

lemma sm_inv_ids:
  assumes "sm_inv kf m" "map ident (sm_store m') = map ident (sm_store m)"
    and "sm_sessions m' = filter P (sm_sessions m)"
  shows "sm_inv kf m'"
proof -
  have "distinct (map fst (sm_sessions m'))" "distinct (map snd (sm_sessions m'))"
    using assms(1,3) by (simp_all add: sm_inv_def distinct_map_filter)
  moreover have "\<forall>(k, i) \<in> set (sm_sessions m'). i < length (sm_store m') \<and> (\<exists>target. k = kf (us_clientAddr (sm_store m' ! i)) target)"
    using assms(1,3) same_ids_nth [OF assms(2)] by (fastforce simp: sm_inv_def)
  ultimately show ?thesis by (simp add: sm_inv_def)
qed

lemma same_ids_inv: "sm_inv kf m \<Longrightarrow> same_ids m m' \<Longrightarrow> sm_inv kf m'"
  by (rule sm_inv_ids [where P = "\<lambda>_. True"]) (simp_all add: same_ids_def)

lemma insert_cases:
  assumes "sm_insert sv key target caddr uconn s5 m = (r, m')"
  obtains "m' = m"
    | s where "us_clientAddr s = caddr"
        "m' = m\<lparr>sm_sessions := AList.update key (length (sm_store m)) (sm_sessions m), sm_store := sm_store m @ [s]\<rparr>"
proof (cases "sv_route sv (meta0\<lparr>m_ID := sv_uuid sv, m_Target := target, m_HopChain := [target], m_Network := ''udp''\<rparr>)")
  case (Inl e)
  with assms that(1) show ?thesis by (simp add: sm_insert_def)
next
  case (Inr out)
  let ?s = "\<lparr>us_outbound = out, us_outboundConn = None, us_sessionID = sv_uuid sv, us_lastSeen = sv_now sv,
            us_clientAddr = caddr, us_inboundConn = uconn, us_isSocks5 = s5, us_reverse = None\<rparr>"
  have "m' = m\<lparr>sm_sessions := AList.update key (length (sm_store m)) (sm_sessions m), sm_store := sm_store m @ [?s]\<rparr>"
    using Inr assms by (simp add: sm_insert_def Let_def)
  with that(2) [of ?s] show ?thesis by simp
qed

lemma touch_ids: "same_ids m (sm_touch now i m)"
  unfolding sm_touch_def by (rule same_ids_upd) (simp add: ident_def)

lemma set_update_sub: "set (AList.update k v xs) \<subseteq> insert (k, v) (set xs)"
  by (induction xs) auto

text \<open>Storing a session under a key, new or not: entries stay distinct, and the object is a new one.\<close>

lemma update_entries:
  assumes "distinct (map snd xs)" "v \<notin> snd ` set xs"
  shows "distinct (map snd (AList.update k v xs))" "set (AList.update k v xs) \<subseteq> insert (k, v) (set xs)"
    "distinct (map fst xs) \<Longrightarrow> (k, w) \<in> set (AList.update k v xs) \<Longrightarrow> w = v"
proof -
  show "set (AList.update k v xs) \<subseteq> insert (k, v) (set xs)" by (rule set_update_sub)
  show "distinct (map snd (AList.update k v xs))" using assms
  proof (induction xs)
    case (Cons x xs)
    with set_update_sub [of k v xs] show ?case by (cases x) force
  qed simp
  show "w = v" if "distinct (map fst xs)" "(k, w) \<in> set (AList.update k v xs)"
    using that distinct_update [of xs k v] by (metis map_of_is_SomeI map_of_Cons_code(2) AList.update_conv' fun_upd_same option.inject)
qed

lemma udp_step_inv:
  assumes "udp_step kf m m'" "sm_inv kf m"
  shows "sm_inv kf m'"
  using assms(1)
proof (cases rule: udp_step.cases)
  case (Insert sv caddr target uconn s5 r)
  then show ?thesis
  proof (cases rule: insert_cases)
    case (2 s)
    have new: "length (sm_store m) \<notin> snd ` set (sm_sessions m)" and d: "distinct (map snd (sm_sessions m))" "distinct (map fst (sm_sessions m))"
      using assms(2) by (auto simp: sm_inv_def)
    note u = update_entries [OF d(1) new, of "kf caddr target"]
    have "distinct (map fst (sm_sessions m')) \<and> distinct (map snd (sm_sessions m'))" using 2 u(1) d(2) by (simp add: distinct_update)
    moreover have "i < length (sm_store m') \<and> (\<exists>target. k = kf (us_clientAddr (sm_store m' ! i)) target)" if "(k, i) \<in> set (sm_sessions m')" for k i
    proof -
      have "(k, i) = (kf caddr target, length (sm_store m)) \<or> (k, i) \<in> set (sm_sessions m)" using that u(2) 2 by auto
      then show ?thesis using assms(2) 2 by (fastforce simp: sm_inv_def nth_append)
    qed
    ultimately show ?thesis by (auto simp: sm_inv_def)
  qed (simp add: assms(2))
next
  case (Touch now i)
  then show ?thesis using same_ids_inv [OF assms(2) touch_ids] by simp
next
  case (Cleanup now)
  then show ?thesis using sm_inv_ids [OF assms(2)] by (simp add: cleanup_tick_def cleanup_store)
qed (auto dest: ForwardPacket_ids reverse_step_ids intro: same_ids_inv [OF assms(2)])

lemma sm_inv_reach: "(udp_step kf)\<^sup>*\<^sup>* m m' \<Longrightarrow> sm_inv kf m \<Longrightarrow> sm_inv kf m'"
  by (induction rule: rtranclp_induct) (auto intro: udp_step_inv)

lemma sm_inv_New: "sm_inv kf (NewUDPSessionManager t)"
  by (simp add: sm_inv_def NewUDPSessionManager_def)

text \<open>A session whose reverse flow has ended stays without one.\<close>

definition deaf :: "nat \<Rightarrow> UDPSessionManager \<Rightarrow> bool" where
  "deaf i m \<longleftrightarrow> i < length (sm_store m) \<and> us_reverse (sm_store m ! i) = None \<and> us_outboundConn (sm_store m ! i) \<noteq> None"

lemma deaf_upd:
  assumes "deaf i m" "\<And>s. us_reverse s = None \<Longrightarrow> us_outboundConn s \<noteq> None \<Longrightarrow> us_reverse (f s) = None \<and> us_outboundConn (f s) \<noteq> None"
  shows "deaf i (upd_session j f m)"
  using assms by (cases "i = j") (auto simp: deaf_def upd_session_def)

lemma deaf_session_conn: "deaf i m \<Longrightarrow> session_conn sv j target u m = (r, m') \<Longrightarrow> deaf i m'"
  by (cases "i = j") (auto simp: session_conn_def Let_def deaf_def upd_session_def split: option.splits sum.splits)

lemma deaf_ForwardPacket:
  assumes "deaf i m" "ForwardPacket sv en j dat target u q m = (r, q', m')"
  shows "deaf i m'"
  using assms(2)
proof (cases rule: ForwardPacket_cases)
  case (2 c m1)
  then have "deaf i m1" using deaf_session_conn [OF assms(1)] by simp
  then have "deaf i (upd_session j (\<lambda>s. s\<lparr>us_outboundConn := Some c'\<rparr>) m1)" for c' by (rule deaf_upd) simp
  with 2 \<open>deaf i m1\<close> show ?thesis by auto
qed (simp add: assms(1))

lemma deaf_reverse:
  assumes "deaf i m" "reverse_step svc now rd j m = (r, m')"
  shows "deaf i m'"
  using assms(2) assms(1)
  by (auto simp: reverse_step_def Let_def intro: deaf_upd split: option.splits prod.splits)

lemma deaf_step:
  assumes "udp_step kf m m'" "deaf i m"
  shows "deaf i m'"
  using assms(1)
proof (cases rule: udp_step.cases)
  case (Insert sv caddr target uconn s5 r)
  then show ?thesis
  proof (cases rule: insert_cases)
    case (2 s)
    with assms(2) show ?thesis by (simp add: deaf_def nth_append)
  qed (simp add: assms(2))
next
  case (Touch now j)
  then show ?thesis using deaf_upd [OF assms(2)] by (simp add: sm_touch_def)
next
  case (Cleanup now)
  let ?st = "sm_store m'"
  have l: "length ?st = length (sm_store m)" "map us_reverse ?st = map us_reverse (sm_store m)"
      "map (\<lambda>s. us_outboundConn s = None) ?st = map (\<lambda>s. us_outboundConn s = None) (sm_store m)"
    using Cleanup by (simp_all add: cleanup_tick_def cleanup_store)
  have "i < length (sm_store m)" using assms(2) by (simp add: deaf_def)
  then have "us_reverse (?st ! i) = us_reverse (sm_store m ! i)" "(us_outboundConn (?st ! i) = None) = (us_outboundConn (sm_store m ! i) = None)"
    using l by (metis nth_map, metis (mono_tags, lifting) nth_map)
  with assms(2) l(1) show ?thesis by (simp add: deaf_def)
qed (auto dest: deaf_ForwardPacket [OF assms(2)] deaf_reverse [OF assms(2)])

lemma deaf_reach: "(udp_step kf)\<^sup>*\<^sup>* m m' \<Longrightarrow> deaf i m \<Longrightarrow> deaf i m'"
  by (induction rule: rtranclp_induct) (auto intro: deaf_step)

section \<open>Properties\<close>


definition demo_sm :: UDPSessionManager where
  "demo_sm = snd (sm_GetOrCreate direct_services ''10.0.0.1:5000'' ''192.0.2.7:53'' ''10.0.0.1:5000'' ''0.0.0.0:53'' False (NewUDPSessionManager 0))"

definition demo_sm2 :: UDPSessionManager where
  "demo_sm2 = snd (snd (ForwardPacket direct_services demo_entropy 0 [1, 2] ''192.0.2.7:53'' ''anonymous'' None demo_sm))"

lemma demo_direct_dial:
  "dial_with direct_services (Direct d) meta = Inr (Inl (peer_sends []))" if "m_Network meta = ''udp''"
  using that by (simp add: dial_with_def direct_services_def demo_services_def direct_Dial_def dial_ok_def demo_dial_peer Let_def)

lemma demo_sm_store:
  "sm_sessions demo_sm = [(''10.0.0.1:5000'', 0)]"
  "\<exists>s. sm_store demo_sm = [s] \<and> us_clientAddr s = ''10.0.0.1:5000'' \<and> us_outboundConn s = None \<and> us_outbound s = Direct (NewDirectHandler ''direct'' ''g'')"
  by (simp_all add: demo_sm_def sm_GetOrCreate_def sm_insert_def NewUDPSessionManager_def direct_services_def demo_services_def)

lemma demo_sm2_store:
  "sm_sessions demo_sm2 = [(''10.0.0.1:5000'', 0)] \<and> length (sm_store demo_sm2) = 1
   \<and> us_reverse (sm_store demo_sm2 ! 0) = Some ''192.0.2.7:53'' \<and> us_outboundConn (sm_store demo_sm2 ! 0) \<noteq> None"
proof -
  obtain s where s: "sm_store demo_sm = [s]" "us_outboundConn s = None" "us_outbound s = Direct (NewDirectHandler ''direct'' ''g'')"
    using demo_sm_store(2) by blast
  have "session_conn direct_services 0 ''192.0.2.7:53'' ''anonymous'' demo_sm
      = (Inr (Inl (peer_sends [])), upd_session 0 (\<lambda>s. s\<lparr>us_outboundConn := Some (Inl (peer_sends [])), us_reverse := Some ''192.0.2.7:53''\<rparr>) demo_sm)"
    using s by (simp add: session_conn_def demo_direct_dial)
  then show ?thesis using s demo_sm_store(1)
    by (simp add: demo_sm2_def ForwardPacket_def quota_check_def upd_session_def split: prod.splits)
qed

lemma demo_sm2_reach: "(udp_step (\<lambda>a t. a))\<^sup>*\<^sup>* (NewUDPSessionManager 0) demo_sm2"
proof -
  have "udp_step (\<lambda>a t. a) (NewUDPSessionManager 0) demo_sm"
    by (rule udp_step_Get [of direct_services _ "''10.0.0.1:5000''" "''192.0.2.7:53''" "''0.0.0.0:53''" False]) (simp add: demo_sm_def prod_eq_iff)
  moreover have "udp_step (\<lambda>a t. a) demo_sm demo_sm2"
    by (rule Forward [of 0 demo_sm direct_services demo_entropy "[1, 2]" "''192.0.2.7:53''" "''anonymous''" None])
      (use demo_sm_store(2) in \<open>auto simp: demo_sm2_def prod_eq_iff\<close>)
  ultimately show ?thesis by auto
qed


text \<open>A session object that no key leads to any more stays that way.\<close>

definition orphan :: "nat \<Rightarrow> UDPSessionManager \<Rightarrow> bool" where
  "orphan i m \<longleftrightarrow> i < length (sm_store m) \<and> i \<notin> snd ` set (sm_sessions m)"

lemma orphan_ids: "orphan i m \<Longrightarrow> same_ids m m' \<Longrightarrow> orphan i m'"
  unfolding orphan_def same_ids_def by (metis length_map)

lemma orphan_step:
  assumes "udp_step kf m m'" "orphan i m"
  shows "orphan i m'"
  using assms(1)
proof (cases rule: udp_step.cases)
  case (Insert sv caddr target uconn s5 r)
  then show ?thesis
  proof (cases rule: insert_cases)
    case (2 s)
    with assms(2) set_update_sub show ?thesis by (fastforce simp: orphan_def)
  qed (simp add: assms(2))
next
  case (Cleanup now)
  with assms(2) show ?thesis by (auto simp: orphan_def cleanup_tick_def cleanup_store)
qed (auto dest: ForwardPacket_ids reverse_step_ids intro: orphan_ids [OF assms(2)] touch_ids)

lemma orphan_reach: "(udp_step kf)\<^sup>*\<^sup>* m m' \<Longrightarrow> orphan i m \<Longrightarrow> orphan i m'"
  by (induction rule: rtranclp_induct) (auto intro: orphan_step)

lemma cleanup_spares: "i \<notin> snd ` set es \<Longrightarrow> fold (\<lambda>e st. st[snd e := close_outbound (st ! snd e)]) es st ! i = st ! i"
  by (induction es arbitrary: st) auto

text \<open>
  C38: Two packets that start the same session at once. When two goroutines both miss a key and both
  store a session, the map holds the second one; the first is an object of its own that no key
  ever leads to again, in any later run, and that no cleanup ever closes, although its packets
  and its replies still flow.
\<close>

theorem udp_race_orphans:
  assumes "sm_insert sv1 (kf a t) t a u1 s1 m = (Inr (i, new1), m1)" "(udp_step kf)\<^sup>*\<^sup>* m1 m2" "map_of (sm_sessions m2) (kf a t) = Some i"
    and "sm_inv kf m" "sm_insert sv2 (kf a t) t a u2 s2 m2 = (Inr (j, new2), m3)" "(udp_step kf)\<^sup>*\<^sup>* m3 m4"
  shows "map_of (sm_sessions m3) (kf a t) = Some j \<and> j \<noteq> i \<and> i < length (sm_store m4)
    \<and> map_of (sm_sessions m4) k \<noteq> Some i \<and> sm_store (cleanup_tick now m4) ! i = sm_store m4 ! i"
proof -
  have "sm_inv kf m1" by (rule udp_step_inv [OF udp_step.Insert [where kf = kf and caddr = a and target = t, OF assms(1)] assms(4)])
  then have inv2: "sm_inv kf m2" by (rule sm_inv_reach [OF assms(2)])
  have mem: "(kf a t, i) \<in> set (sm_sessions m2)" using assms(3) by (rule map_of_SomeD)
  then have i: "i < length (sm_store m2)" using inv2 by (auto simp: sm_inv_def)
  have j: "j = length (sm_store m2)" "sm_sessions m3 = AList.update (kf a t) j (sm_sessions m2)" "length (sm_store m3) = Suc (length (sm_store m2))"
    using assms(5) by (auto simp: sm_insert_def Let_def split: sum.splits)
  have d: "distinct (map snd (sm_sessions m2))" "distinct (map fst (sm_sessions m2))" "length (sm_store m2) \<notin> snd ` set (sm_sessions m2)"
    using inv2 by (auto simp: sm_inv_def)
  have "i \<notin> snd ` set (sm_sessions m3)"
  proof
    assume "i \<in> snd ` set (sm_sessions m3)"
    then obtain k where k: "(k, i) \<in> set (sm_sessions m3)" by auto
    with update_entries(2) [OF d(1,3), of "kf a t"] i j have "(k, i) \<in> set (sm_sessions m2)" by auto
    moreover have "inj_on snd (set (sm_sessions m2))" using d(1) by (simp add: distinct_map)
    ultimately have "k = kf a t" using inj_onD [of snd "set (sm_sessions m2)" "(k, i)" "(kf a t, i)"] mem by simp
    with k update_entries(3) [OF d(1,3,2)] j i show False by auto
  qed
  then have "orphan i m4" using i j(3) by (intro orphan_reach [OF assms(6)]) (simp add: orphan_def)
  then have o4: "i < length (sm_store m4)" "i \<notin> snd ` set (sm_sessions m4)" by (simp_all add: orphan_def)
  then have "map_of (sm_sessions m4) k \<noteq> Some i" by (force dest: map_of_SomeD)
  moreover have "i \<notin> snd ` set (filter (expired now m4) (sm_sessions m4))" using o4(2) by auto
  then have "sm_store (cleanup_tick now m4) ! i = sm_store m4 ! i" by (simp add: cleanup_tick_def cleanup_spares del: set_filter)
  ultimately show ?thesis using o4(1) i j by (simp add: AList.update_conv')
qed

theorem udp_race_orphans_witness:
  "\<exists>m3 j. sm_insert direct_services ''10.0.0.1:5000'' ''192.0.2.7:53'' ''10.0.0.1:5000'' ''0.0.0.0:53'' False demo_sm = (Inr (j, True), m3)
    \<and> map_of (sm_sessions m3) ''10.0.0.1:5000'' = Some j \<and> j \<noteq> 0"
proof -
  have r: "\<And>m. sv_route direct_services m = Inr (Direct (NewDirectHandler ''direct'' ''g''))" by (simp add: direct_services_def)
  have 1: "sm_insert direct_services ''10.0.0.1:5000'' ''192.0.2.7:53'' ''10.0.0.1:5000'' ''0.0.0.0:53'' False (NewUDPSessionManager 0) = (Inr (0, True), demo_sm)"
    unfolding demo_sm_def by (simp add: sm_GetOrCreate_def sm_insert_def r Let_def NewUDPSessionManager_def)
  obtain j m3 where 2: "sm_insert direct_services ''10.0.0.1:5000'' ''192.0.2.7:53'' ''10.0.0.1:5000'' ''0.0.0.0:53'' False demo_sm = (Inr (j, True), m3)"
    by (simp add: sm_insert_def r Let_def)
  have m: "map_of (sm_sessions demo_sm) ''10.0.0.1:5000'' = Some 0" by (simp add: demo_sm_store)
  show ?thesis
    using udp_race_orphans [where kf = "\<lambda>a t. a" and m = "NewUDPSessionManager 0", OF 1 rtranclp.rtrancl_refl m sm_inv_New 2 rtranclp.rtrancl_refl] 2
    by blast
qed

text \<open>
  A quiet target is cut off for good. Once a read in the reverse direction fails, as it does when
  the target is silent for the timeout, the session never sends a reply again in any later run,
  although its key still leads to it and its packets still go out: the connection is kept, so no
  new reverse flow is started.
\<close>

theorem udp_reverse_never_restarts:
  assumes "i < length (sm_store m)" "us_outboundConn (sm_store m ! i) = Some c" "reverse_step svc now (bs, Some e) i m = (r, m1)"
    and "(udp_step kf)\<^sup>*\<^sup>* m1 m2"
  shows "r = None \<and> sm_sessions m1 = sm_sessions m \<and> fst (reverse_step svc' now' rd i m2) = None
    \<and> us_outboundConn (sm_store m2 ! i) \<noteq> None
    \<and> (map_of (sm_sessions m2) key = Some i \<longrightarrow> fst (sm_GetOrCreate sv key target caddr uconn s5 m2) = Inr (i, False))"
proof -
  have m1: "r = None" "sm_sessions m1 = sm_sessions m" "deaf i m1"
    using assms(1-3) by (auto simp: reverse_step_def Let_def deaf_def upd_session_def split: option.splits)
  have "deaf i m2" by (rule deaf_reach [OF assms(4) m1(3)])
  then show ?thesis using m1 by (auto simp: deaf_def reverse_step_def Let_def sm_GetOrCreate_def)
qed

theorem udp_reverse_never_restarts_witness:
  "fst (reverse_step (\<lambda>_. None) 9 ([5], None) 0 (cleanup_tick 8 (snd (reverse_step (\<lambda>_. None) 7 ([], Some ErrTimeout) 0 demo_sm2)))) = None"
proof -
  obtain c where c: "us_outboundConn (sm_store demo_sm2 ! 0) = Some c" using demo_sm2_store by auto
  obtain r m1 where r: "reverse_step (\<lambda>_. None) 7 ([], Some ErrTimeout) 0 demo_sm2 = (r, m1)" by (metis prod.exhaust)
  have "(udp_step (\<lambda>a t. a))\<^sup>*\<^sup>* m1 (cleanup_tick 8 m1)" by (intro r_into_rtranclp Cleanup)
  then show ?thesis using udp_reverse_never_restarts [OF _ c r] r demo_sm2_store by simp
qed

text \<open>The first packet of a key: one session is created, and its connection dialled.\<close>

lemma udp_packet_new:
  assumes "map_of (sm_sessions m) key = None" "quota_check userID (length dat) quota = (False, quota')"
    and "sv_route sv (meta0\<lparr>m_ID := sv_uuid sv, m_Target := target, m_HopChain := [target], m_Network := ''udp''\<rparr>) = Inr out"
    and "dial_with sv out (meta0\<lparr>m_ID := sv_uuid sv, m_Target := target, m_Network := ''udp'', m_UserID := userID\<rparr>) = Inr c"
    and "net_write en dat c = (e, c')"
  shows "\<exists>m' s. udp_packet sv en key target caddr uconn s5 userID dat quota m
      = ((if is_StreamConn out c then SentDatagram dat else SentWrite e, Some (sv_uuid sv)), quota', m')
    \<and> map_of (sm_sessions m') key = Some (length (sm_store m)) \<and> sm_store m' ! length (sm_store m) = s
    \<and> us_outboundConn s = Some (if is_StreamConn out c then c else c')
    \<and> us_clientAddr s = caddr \<and> us_inboundConn s = uconn \<and> us_isSocks5 s = s5 \<and> us_reverse s = Some target"
proof -
  let ?i = "length (sm_store m)"
  let ?s = "\<lparr>us_outbound = out, us_outboundConn = None, us_sessionID = sv_uuid sv, us_lastSeen = sv_now sv,
              us_clientAddr = caddr, us_inboundConn = uconn, us_isSocks5 = s5, us_reverse = None\<rparr>"
  let ?m1 = "m\<lparr>sm_sessions := AList.update key ?i (sm_sessions m), sm_store := sm_store m @ [?s]\<rparr>"
  have g: "sm_GetOrCreate sv key target caddr uconn s5 m = (Inr (?i, True), ?m1)"
    using assms(1,3) by (simp add: sm_GetOrCreate_def sm_insert_def Let_def)
  let ?m2 = "upd_session ?i (\<lambda>s. s\<lparr>us_outboundConn := Some c, us_reverse := Some target\<rparr>) ?m1"
  have sc: "session_conn sv ?i target userID ?m1 = (Inr c, ?m2)"
    using assms(4) by (simp add: session_conn_def)
  have st: "sm_store ?m2 = sm_store m @ [?s\<lparr>us_outboundConn := Some c, us_reverse := Some target\<rparr>]"
    by (simp add: upd_session_def)
  let ?m3 = "if is_StreamConn out c then ?m2 else upd_session ?i (\<lambda>s. s\<lparr>us_outboundConn := Some c'\<rparr>) ?m2"
  have f: "ForwardPacket sv en ?i dat target userID quota ?m1
      = (if is_StreamConn out c then SentDatagram dat else SentWrite e, quota', ?m3)"
    unfolding ForwardPacket_def assms(2) sc prod.case bool.case sum.case using assms(5) st by simp
  have p: "udp_packet sv en key target caddr uconn s5 userID dat quota m
      = ((if is_StreamConn out c then SentDatagram dat else SentWrite e, Some (sv_uuid sv)), quota', ?m3)"
    unfolding udp_packet_def g prod.case sum.case f by simp
  have "map_of (sm_sessions ?m3) key = Some ?i" by (simp add: upd_session_def AList.update_conv')
  moreover have "sm_store ?m3 ! ?i = ?s\<lparr>us_outboundConn := Some (if is_StreamConn out c then c else c'), us_reverse := Some target\<rparr>"
    by (simp add: upd_session_def)
  ultimately show ?thesis using p by (intro exI [of _ ?m3]) simp
qed

lemma EncodeHeader_no_hops: "m_HopChain meta = [] \<Longrightarrow> \<exists>hdr. EncodeHeader uparse unew pad junk meta = Inr hdr"
  by (simp add: EncodeHeader_def Let_def)

text \<open>
  UDP does not reach its target through a tunnel. The first packet of a client whose route is an
  NP-Chain outbound opens a tunnel with a header without hops, which the next node drops whatever
  follows, and the payload leaves as a bare datagram: the receiver takes its first 16 bytes for a
  session id and cuts them off, or refuses it when it is shorter.
\<close>

theorem udp_over_chain_lost:
  assumes "chain_services sv en n c0" "uuid_wf (en_uparse en) (en_unew en)"
    and "map_of (sm_sessions m) key = None" "quota_check userID (length dat) quota = (False, quota')"
    and "no_obfs (ni_obfs h2)" "conn_open c2"
  shows "\<exists>m' hdr. udp_packet sv en key target caddr uconn s5 userID dat quota m = ((SentDatagram dat, Some (sv_uuid sv)), quota', m')
    \<and> us_outboundConn (sm_store m' ! length (sm_store m)) = Some (Inl (c0\<lparr>outq := hdr\<rparr>))
    \<and> (conn_rem c2 = hdr @ payload \<longrightarrow> (\<exists>c'. HandleRelay netDial ustr sv2 en2 h2 c2 = Dropped c'))
    \<and> UnpackDatagram ustr dat = (if length dat < 16 then Inl (New ''datagram too short'') else Inr (ustr (take 16 dat), drop 16 dat))"
proof -
  let ?meta = "meta0\<lparr>m_ID := sv_uuid sv, m_Target := target, m_Network := ''udp'', m_UserID := userID\<rparr>"
  have nohops: "m_HopChain ?meta = []" by (simp add: meta0_def)
  then obtain hdr where hdr: "EncodeHeader (en_uparse en) (en_unew en) (en_pad en) (en_junk en) ?meta = Inr hdr"
    using EncodeHeader_no_hops by blast
  have route: "sv_route sv x = Inr (NPChain n)" for x using assms(1) by (simp add: chain_services_def)
  have dial: "dial_with sv (NPChain n) ?meta = Inr (Inl (c0\<lparr>outq := hdr\<rparr>))"
    using connect_chain [OF assms(1), of ?meta] hdr route by (simp add: connect_def)
  obtain e c' where w: "net_write en dat (Inl (c0\<lparr>outq := hdr\<rparr>)) = (e, c')" by (metis prod.exhaust)
  have "\<exists>c'. HandleRelay netDial ustr sv2 en2 h2 c2 = Dropped c'" if "conn_rem c2 = hdr @ payload"
    using HandleRelay_no_hops [OF assms(2,5,6) nohops hdr that] by blast
  moreover obtain m' s where "udp_packet sv en key target caddr uconn s5 userID dat quota m = ((SentDatagram dat, Some (sv_uuid sv)), quota', m')"
      "us_outboundConn (sm_store m' ! length (sm_store m)) = Some (Inl (c0\<lparr>outq := hdr\<rparr>))"
    using udp_packet_new [OF assms(3,4) route dial w, of caddr uconn s5] by auto
  ultimately show ?thesis by (intro exI [of _ m'] exI [of _ hdr]) (simp add: UnpackDatagram_def)
qed

theorem udp_over_chain_lost_witness:
  "\<exists>m'. udp_packet demo_services demo_entropy ''10.0.0.1:5000'' ''192.0.2.7:53'' ''10.0.0.1:5000'' ''0.0.0.0:53'' False ''anonymous'' [1, 2, 3] None
      (NewUDPSessionManager 0) = ((SentDatagram [1, 2, 3], Some ''0123456789abcdef''), None, m')"
proof -
  have "map_of (sm_sessions (NewUDPSessionManager 0)) ''10.0.0.1:5000'' = None" "quota_check ''anonymous'' (length [1, 2, 3 :: byte]) None = (False, None)"
    "no_obfs (ni_obfs (NewNPChainInboundHandler demo_obfs))" "conn_open (peer_sends [])"
    by (simp_all add: NewUDPSessionManager_def quota_check_def NewNPChainInboundHandler_def no_obfs_def demo_obfs_def conn_open_def peer_sends_def)
  from udp_over_chain_lost [OF demo_chain_services demo_entropy_wf this]
  show ?thesis by (fastforce simp: demo_services_def)
qed

text \<open>
  C22: A SOCKS5 datagram and its answer. A client's packet for a name or IPv4 address opens a session
  on a direct route, the target is dialled over UDP under exactly the address in the packet, the
  bare payload is written to it, and whatever the target answers comes back on the association's
  socket to that client in a packet that parses to the target's address and the answer.
\<close>

theorem socks5_udp_exchange:
  assumes "\<And>meta. sv_route sv meta = Inr (Direct d)" "sv_dial sv = (\<lambda>h meta. out_Dial netDial quicDial en meta h)"
    and "netDial ''udp'' (JoinHostPort h (nat_to_dec p)) = Inr c0" "conn_open c0" "wlimit c0 = None"
    and "plain_host h" "p < 65536" "(ParseIP h = None \<and> 3 \<le> length h \<and> length h \<le> 255) \<or> (\<exists>ip. length ip = 4 \<and> h = IP_String ip)"
    and "map_of (sm_sessions m) (caddr @ ''-'' @ JoinHostPort h (nat_to_dec p)) = None" "quota_check userID (length dat) quota = (False, quota')"
  shows "\<exists>m' c'. s5_packet sv en userID (PackUDPPacket svc (JoinHostPort h (nat_to_dec p)) dat) caddr uconn quota m = (SentWrite None, quota', m')
    \<and> us_outboundConn (sm_store m' ! length (sm_store m)) = Some (Inl c') \<and> outq c' = outq c0 @ dat
    \<and> (\<forall>ans now. \<exists>raw m'' pkt. reverse_step svc now (ans, None) (length (sm_store m)) m' = (Some (uconn, caddr, raw), m'')
        \<and> ParseUDPPacket raw = Inr pkt \<and> up_Address pkt = JoinHostPort h (nat_to_dec p) \<and> up_Data pkt = ans)"
proof -
  let ?t = "JoinHostPort h (nat_to_dec p)"
  obtain pkt where pkt: "ParseUDPPacket (PackUDPPacket svc ?t dat) = Inr pkt" "up_Address pkt = ?t" "up_Data pkt = dat"
    using ParseUDPPacket_Pack [OF assms(6-8)] by blast
  have dial: "dial_with sv (Direct d) (meta0\<lparr>m_ID := sv_uuid sv, m_Target := ?t, m_Network := ''udp'', m_UserID := userID\<rparr>) = Inr (Inl c0)"
    using assms(3) by (simp add: dial_with_def assms(2) direct_Dial_def dial_ok_def Let_def)
  have w: "net_write en dat (Inl c0) = (None, Inl (c0\<lparr>outq := outq c0 @ dat\<rparr>))"
    using assms(4,5) by (simp add: conn_write_def conn_open_def)
  obtain m' s where m': "udp_packet sv en (caddr @ ''-'' @ ?t) ?t caddr uconn True userID dat quota m = ((SentWrite None, Some (sv_uuid sv)), quota', m')"
      "sm_store m' ! length (sm_store m) = s" "us_outboundConn s = Some (Inl (c0\<lparr>outq := outq c0 @ dat\<rparr>))"
      "us_clientAddr s = caddr" "us_inboundConn s = uconn" "us_isSocks5 s" "us_reverse s = Some ?t"
    using udp_packet_new [OF assms(9,10,1) dial w, of caddr uconn True] by auto
  have "s5_packet sv en userID (PackUDPPacket svc ?t dat) caddr uconn quota m = (SentWrite None, quota', m')"
    unfolding s5_packet_def pkt sum.case m'(1) prod.case by (rule refl)
  moreover have "\<exists>raw m'' pkt. reverse_step svc now (ans, None) (length (sm_store m)) m' = (Some (uconn, caddr, raw), m'')
        \<and> ParseUDPPacket raw = Inr pkt \<and> up_Address pkt = ?t \<and> up_Data pkt = ans" for ans now
    using ParseUDPPacket_Pack [OF assms(6-8), of svc ans] m'(2-7) by (auto simp: reverse_step_def Let_def)
  ultimately show ?thesis using m'(2,3) by (intro exI [of _ m'] exI [of _ "c0\<lparr>outq := outq c0 @ dat\<rparr>"]) simp
qed

theorem socks5_udp_exchange_witness:
  "\<exists>m' c'. s5_packet direct_services demo_entropy ''ann'' (PackUDPPacket (\<lambda>_. None) (JoinHostPort ''dns.example'' (nat_to_dec 53)) [1, 2])
      ''10.0.0.1:5000'' ''0.0.0.0:6000'' None (NewUDPSessionManager 0) = (SentWrite None, None, m')
    \<and> us_outboundConn (sm_store m' ! 0) = Some (Inl c') \<and> outq c' = [1, 2]"
proof -
  have "ParseIP ''dns.example'' = None" "plain_host ''dns.example''" by code_simp+
  then show ?thesis
    using socks5_udp_exchange [of direct_services "NewDirectHandler ''direct'' ''g''" "\<lambda>n. demo_dial None" "demo_dial None" demo_entropy "''dns.example''" 53
        "peer_sends []" "NewUDPSessionManager 0" "''10.0.0.1:5000''" "''ann''" "[1, 2]" None None "\<lambda>_. None" "''0.0.0.0:6000''"]
    by (simp add: direct_services_def demo_services_def demo_dial_peer NewUDPSessionManager_def quota_check_def)
      (fastforce simp: conn_open_def peer_sends_def)
qed

lemma plain_port_range: "plain_port (nat_to_dec a @ ''-'' @ nat_to_dec b)"
  by (simp add: plain_port_def nat_to_dec_notin is_digit_special)

lemma Split_range: "Split (nat_to_dec a @ ''-'' @ nat_to_dec b) ''-'' = [nat_to_dec a, nat_to_dec b]"
  by (simp add: Split_append Split_single nat_to_dec_notin is_digit_special)

text \<open>
  A port range maps one to one. For a listen address \<open>host:a-b\<close> and a base target \<open>th:t\<close>, the
  handler serves exactly the ports from \<open>a\<close> to \<open>b\<close> that can be bound, in order, and port \<open>a + j\<close>
  goes to \<open>t + j\<close>; distinct ports never share a target.
\<close>

theorem udp_range_ports:
  assumes "plain_host h" "plain_host th" "a < 65536" "b < 65536" "t < 65536"
  shows "ur_Start bind (NewUDPRangeHandler (JoinHostPort h (nat_to_dec a @ ''-'' @ nat_to_dec b)) (JoinHostPort th (nat_to_dec t)))
    = Inr (Some (map (\<lambda>p. (JoinHostPort h (nat_to_dec p), JoinHostPort th (nat_to_dec (t + (p - a)))))
        (filter (\<lambda>p. bind (JoinHostPort h (nat_to_dec p))) [a..<Suc b])))"
proof -
  have s: "SplitHostPort (JoinHostPort h (nat_to_dec a @ ''-'' @ nat_to_dec b)) = Inr (h, nat_to_dec a @ ''-'' @ nat_to_dec b)"
    by (rule Split_Join_HostPort [OF assms(1) plain_port_range])
  have st: "SplitHostPort (JoinHostPort th (nat_to_dec t)) = Inr (th, nat_to_dec t)"
    by (rule Split_Join_HostPort [OF assms(2) plain_port_dec])
  have up: "[int a..int b] = map int [a..<Suc b]"
    by (rule nth_equalityI) (auto simp: nth_upto simp del: upt_Suc)
  have it: "Itoa (int p) = nat_to_dec p" for p by (simp add: Itoa_def)
  have w: "Itoa (int64 (int t + int64 (int p - int a))) = nat_to_dec (t + (p - a))" if "a \<le> p" "p < Suc b" for p
  proof -
    have "int64 (int p - int a) = int (p - a)" using that assms(4) by (subst int64_id) (auto simp: in_int64_def)
    moreover have "int64 (int t + int (p - a)) = int (t + (p - a))" using that assms(4,5) by (subst int64_id) (auto simp: in_int64_def)
    ultimately show ?thesis by (simp only: it)
  qed
  have w': "Itoa (int64 (int t + (int p - int a))) = nat_to_dec (t + p - a)" if "a \<le> p" "p < Suc b" for p
    using w [OF that] that by (simp del: of_nat_add)
  have "range_loop bind h th (int t) (int a) (int b) = Some (map (\<lambda>p. (JoinHostPort h (nat_to_dec p), JoinHostPort th (nat_to_dec (t + (p - a)))))
        (filter (\<lambda>p. bind (JoinHostPort h (nat_to_dec p))) [a..<Suc b]))"
    using assms(4) by (simp add: range_loop_def up filter_map comp_def it w' del: upt_Suc of_nat_add)
  moreover have "ur_Start bind (NewUDPRangeHandler (JoinHostPort h (nat_to_dec a @ ''-'' @ nat_to_dec b)) (JoinHostPort th (nat_to_dec t)))
      = Inr (range_loop bind h th (int t) (int a) (int b))"
    unfolding ur_Start_def NewUDPRangeHandler_def UDPRangeHandler.simps s st res_bind_simps prod.case sum.case Split_range
    using assms(3-5) by (simp add: Atoi_Itoa_nat Let_def)
  ultimately show ?thesis by simp
qed

theorem udp_range_ports_witness:
  "ur_Start (\<lambda>s. True) (NewUDPRangeHandler (JoinHostPort ''0.0.0.0'' (nat_to_dec 10 @ ''-'' @ nat_to_dec 11)) (JoinHostPort ''192.0.2.7'' (nat_to_dec 20)))
    = Inr (Some [(JoinHostPort ''0.0.0.0'' (nat_to_dec 10), JoinHostPort ''192.0.2.7'' (nat_to_dec 20)),
        (JoinHostPort ''0.0.0.0'' (nat_to_dec 11), JoinHostPort ''192.0.2.7'' (nat_to_dec 21))])"
proof -
  have "plain_host ''0.0.0.0''" "plain_host ''192.0.2.7''" by code_simp+
  from udp_range_ports [OF this, of 10 11 20 "\<lambda>s. True"] show ?thesis by (simp add: upt_rec)
qed

end
