(* ===== verification/FakeIP.thy ===== *)
theory FakeIP
  imports Go_Net "HOL-Library.AList"
begin

text \<open>
  The pool of fake addresses (\<^verbatim>\<open>FakeIPPool\<close> in \<^verbatim>\<open>internal/routing/dns.go\<close>): a domain is given
  the next address of a block, and the address is translated back when a connection to it
  arrives. Both maps are association lists; addresses are 32-bit words that wrap.

  The locale \<open>name_pool\<close> is what the resolver and the router rely on: while there is room, a
  fresh address translates back to its domain and no earlier translation changes.
\<close>

section \<open>Definitions\<close>

record FakeIPPool =
  fp_network :: ip_net
  fp_minIP :: u32
  fp_maxIP :: u32
  fp_current :: u32
  fp_ipToDomain :: "(u32 \<times> string) list"
  fp_domainToIP :: "(string \<times> u32) list"

definition uint32ToIP :: "u32 \<Rightarrow> bytes" where
  "uint32ToIP n = be_put32 n"

text \<open>\<^verbatim>\<open>binary.BigEndian.Uint32(ip.To4())\<close>: the slice of an address that is not IPv4 is nil.\<close>

definition ip_to_uint32 :: "bytes \<Rightarrow> u32 res" where
  "ip_to_uint32 ip = (case To4 ip of Some p \<Rightarrow> Inr (be_get32 p) | None \<Rightarrow> Inl (GoPanic ''index out of range [3]''))"

text \<open>\<^verbatim>\<open>IPMask.Size\<close>: the number of leading one bits.\<close>

fun mask_ones :: "bytes \<Rightarrow> nat" where
  "mask_ones [] = 0"
| "mask_ones (b # bs) = (if b = 0xFF then 8 + mask_ones bs else length (takeWhile (\<lambda>i. bit b (7 - i)) [0..<8]))"

definition NewFakeIPPool :: "string \<Rightarrow> FakeIPPool res" where
  "NewFakeIPPool cidr = (case ParseCIDR cidr of
     None \<Rightarrow> Inl (New (''invalid CIDR address: '' @ cidr))
   | Some n \<Rightarrow> res_bind (ip_to_uint32 (net_ip n)) (\<lambda>minIP.
       let maxIP = minIP OR drop_bit (mask_ones (net_mask n)) 0xFFFFFFFF in
       Inr \<lparr>fp_network = n, fp_minIP = minIP + 1, fp_maxIP = maxIP - 1, fp_current = minIP + 1,
            fp_ipToDomain = [], fp_domainToIP = []\<rparr>))"

definition pool_Get :: "string \<Rightarrow> FakeIPPool \<Rightarrow> bytes \<times> FakeIPPool" where
  "pool_Get domain p = (case map_of (fp_domainToIP p) domain of
     Some ip \<Rightarrow> (uint32ToIP ip, p)
   | None \<Rightarrow>
       let ip = fp_current p; nxt = ip + 1 in
       (uint32ToIP ip, p\<lparr>fp_ipToDomain := AList.update ip domain (fp_ipToDomain p),
          fp_domainToIP := AList.update domain ip (fp_domainToIP p),
          fp_current := (if fp_maxIP p < nxt then fp_minIP p else nxt)\<rparr>))"

definition pool_Lookup :: "bytes \<Rightarrow> FakeIPPool \<Rightarrow> string option res" where
  "pool_Lookup ip p = res_bind (ip_to_uint32 ip) (\<lambda>k. Inr (map_of (fp_ipToDomain p) k))"

section \<open>The contract of a pool\<close>

locale name_pool =
  fixes get :: "string \<Rightarrow> 'p \<Rightarrow> bytes \<times> 'p"
    and lookup :: "bytes \<Rightarrow> 'p \<Rightarrow> string option res"
    and known :: "'p \<Rightarrow> string set"
    and room :: "'p \<Rightarrow> nat"
    and ok :: "'p \<Rightarrow> bool"
  assumes get_known: "ok p \<Longrightarrow> d \<in> known p \<Longrightarrow> snd (get d p) = p \<and> lookup (fst (get d p)) p = Inr (Some d)"
    and get_fresh: "ok p \<Longrightarrow> d \<notin> known p \<Longrightarrow> 0 < room p \<Longrightarrow>
      ok (snd (get d p)) \<and> known (snd (get d p)) = insert d (known p) \<and> room p = Suc (room (snd (get d p)))
      \<and> lookup (fst (get d p)) (snd (get d p)) = Inr (Some d)"
    and get_keeps: "ok p \<Longrightarrow> 0 < room p \<Longrightarrow> lookup ip p = Inr (Some e) \<Longrightarrow> lookup ip (snd (get d p)) = Inr (Some e)"
begin

lemma gets_spec:
  assumes "ok p" "card (set ds - known p) \<le> room p"
  shows "ok (snd (runs get ds p)) \<and> known (snd (runs get ds p)) = known p \<union> set ds \<and> length (fst (runs get ds p)) = length ds
    \<and> (\<forall>ip e. lookup ip p = Inr (Some e) \<longrightarrow> lookup ip (snd (runs get ds p)) = Inr (Some e))
    \<and> (\<forall>i < length ds. lookup (fst (runs get ds p) ! i) (snd (runs get ds p)) = Inr (Some (ds ! i)))"
  using assms
proof (induction ds arbitrary: p)
  case (Cons d ds)
  obtain ip p1 where g: "get d p = (ip, p1)" by (cases "get d p")
  obtain ips p2 where gs: "runs get ds p1 = (ips, p2)" by (cases "runs get ds p1")
  have step: "ok p1 \<and> known p1 = insert d (known p) \<and> card (set ds - known p1) \<le> room p1 \<and> lookup ip p1 = Inr (Some d)
      \<and> (\<forall>ip e. lookup ip p = Inr (Some e) \<longrightarrow> lookup ip p1 = Inr (Some e))"
  proof (cases "d \<in> known p")
    case True
    then have "p1 = p" "lookup ip p = Inr (Some d)" using get_known [OF Cons.prems(1) True] g by auto
    with True Cons.prems show ?thesis by (auto simp: insert_Diff_if)
  next
    case False
    then have "card (insert d (set ds - known p)) \<le> room p" using Cons.prems(2) by (simp add: insert_Diff_if)
    moreover have "insert d (set ds - known p) = insert d (set ds - insert d (known p))" by auto
    moreover have "card (insert d (set ds - insert d (known p))) = Suc (card (set ds - insert d (known p)))" by simp
    ultimately have r: "Suc (card (set ds - insert d (known p))) \<le> room p" by simp
    then have room: "0 < room p" by simp
    have "\<And>ip e. lookup ip p = Inr (Some e) \<Longrightarrow> lookup ip p1 = Inr (Some e)"
      using get_keeps [OF Cons.prems(1) room, of _ _ d] by (simp add: g)
    with get_fresh [OF Cons.prems(1) False room] g r show ?thesis by simp
  qed
  with Cons.IH [of p1] g gs show ?case by (auto simp: nth_Cons split: nat.splits)
qed simp

end

section \<open>The pool satisfies it until it wraps\<close>

definition pool_size :: "FakeIPPool \<Rightarrow> nat" where
  "pool_size p = unat (fp_maxIP p) + 1 - unat (fp_minIP p)"

definition pool_used :: "FakeIPPool \<Rightarrow> nat" where
  "pool_used p = card (dom (map_of (fp_domainToIP p)))"

definition pool_known :: "FakeIPPool \<Rightarrow> string set" where
  "pool_known p = dom (map_of (fp_domainToIP p))"

definition pool_room :: "FakeIPPool \<Rightarrow> nat" where
  "pool_room p = pool_size p - pool_used p"

text \<open>The addresses from \<^verbatim>\<open>minIP\<close> up to the current one are taken, and the two maps are inverse.\<close>

definition pool_inv :: "FakeIPPool \<Rightarrow> bool" where
  "pool_inv p \<longleftrightarrow> unat (fp_minIP p) \<le> unat (fp_maxIP p) \<and> unat (fp_maxIP p) < 2 ^ 32 - 1
     \<and> pool_used p \<le> pool_size p
     \<and> (pool_used p < pool_size p \<longrightarrow> unat (fp_current p) = unat (fp_minIP p) + pool_used p)
     \<and> (pool_used p = pool_size p \<longrightarrow> fp_current p = fp_minIP p)
     \<and> (\<forall>k d. map_of (fp_ipToDomain p) k = Some d \<longleftrightarrow> map_of (fp_domainToIP p) d = Some k)
     \<and> (\<forall>k d. map_of (fp_ipToDomain p) k = Some d \<longrightarrow> unat k < unat (fp_minIP p) + pool_used p)"

lemma ip_uint32_inverse [simp]: "ip_to_uint32 (uint32ToIP n) = Inr n"
  by (simp add: ip_to_uint32_def uint32ToIP_def To4_def)

lemma pool_Lookup_fake [simp]: "pool_Lookup (uint32ToIP k) p = Inr (map_of (fp_ipToDomain p) k)"
  by (simp add: pool_Lookup_def)

lemma pool_Get_hit: "map_of (fp_domainToIP p) d = Some k \<Longrightarrow> pool_Get d p = (uint32ToIP k, p)"
  by (simp add: pool_Get_def)

lemma inverse_maps_upd:
  assumes "\<forall>k e. f k = Some e \<longleftrightarrow> g e = Some k" "g d = None" "f c = None"
  shows "(f(c \<mapsto> d)) k = Some e \<longleftrightarrow> (g(d \<mapsto> c)) e = Some k"
proof -
  have "g e \<noteq> Some c" "f k \<noteq> Some d" using assms by (metis option.distinct(1))+
  with assms(1) show ?thesis by auto
qed

lemma pool_Get_fresh:
  assumes "pool_inv p" "d \<notin> pool_known p" "0 < pool_room p"
  shows "pool_inv (snd (pool_Get d p)) \<and> pool_used (snd (pool_Get d p)) = Suc (pool_used p)
    \<and> map_of (fp_ipToDomain p) (fp_current p) = None"
proof -
  let ?c = "fp_current p" and ?p = "snd (pool_Get d p)" and ?n = "pool_used p"
  have none: "map_of (fp_domainToIP p) d = None" using assms(2) by (auto simp: pool_known_def)
  have used: "?n < pool_size p" using assms(3) by (simp add: pool_room_def)
  have c: "unat ?c = unat (fp_minIP p) + ?n" using assms(1) used by (simp add: pool_inv_def)
  have cmax: "unat ?c \<le> unat (fp_maxIP p)" "unat (fp_maxIP p) < 2 ^ 32 - 1" using assms(1) used c by (auto simp: pool_inv_def pool_size_def)
  have succ: "unat (?c + 1) = Suc (unat ?c)" using cmax by (simp add: unat_word_ariths)
  have fresh: "map_of (fp_ipToDomain p) ?c = None" 
  proof (rule ccontr)
    assume "map_of (fp_ipToDomain p) ?c \<noteq> None"
    then have "unat ?c < unat (fp_minIP p) + ?n" using assms(1) unfolding pool_inv_def by blast
    with c show False by simp
  qed
  have f: "fp_minIP ?p = fp_minIP p" "fp_maxIP ?p = fp_maxIP p"
      "map_of (fp_ipToDomain ?p) = (map_of (fp_ipToDomain p))(?c \<mapsto> d)"
      "map_of (fp_domainToIP ?p) = (map_of (fp_domainToIP p))(d \<mapsto> ?c)"
      "fp_current ?p = (if fp_maxIP p < ?c + 1 then fp_minIP p else ?c + 1)"
    using none by (simp_all add: pool_Get_def Let_def AList.update_conv')
  have n: "pool_used ?p = Suc ?n" using none by (simp add: pool_used_def f(4) card_insert_if finite_dom_map_of domIff)
  have inv: "\<forall>k e. map_of (fp_ipToDomain p) k = Some e \<longleftrightarrow> map_of (fp_domainToIP p) e = Some k"
    using assms(1) by (simp add: pool_inv_def)
  have "Suc ?n < pool_size p \<Longrightarrow> \<not> fp_maxIP p < ?c + 1" using c succ by (simp add: word_less_nat_alt pool_size_def)
  moreover have "Suc ?n = pool_size p \<Longrightarrow> fp_maxIP p < ?c + 1" using c succ by (simp add: word_less_nat_alt pool_size_def)
  moreover have "\<forall>k e. map_of (fp_ipToDomain ?p) k = Some e \<longleftrightarrow> map_of (fp_domainToIP ?p) e = Some k"
    using inverse_maps_upd [OF inv none fresh] unfolding f by blast
  moreover have "\<forall>k e. map_of (fp_ipToDomain ?p) k = Some e \<longrightarrow> unat k < unat (fp_minIP p) + Suc ?n"
    using assms(1) c unfolding f by (fastforce simp: pool_inv_def split: if_splits)
  ultimately show ?thesis
    using assms(1) used c succ fresh n by (simp add: pool_inv_def pool_size_def f(1,2,5))
qed

interpretation fakeip: name_pool pool_Get pool_Lookup pool_known pool_room pool_inv
proof
  fix p d
  assume inv: "pool_inv p"
  show "snd (pool_Get d p) = p \<and> pool_Lookup (fst (pool_Get d p)) p = Inr (Some d)" if "d \<in> pool_known p"
    using that inv by (auto simp: pool_known_def pool_Get_def pool_inv_def)
  show "pool_inv (snd (pool_Get d p)) \<and> pool_known (snd (pool_Get d p)) = insert d (pool_known p)
      \<and> pool_room p = Suc (pool_room (snd (pool_Get d p)))
      \<and> pool_Lookup (fst (pool_Get d p)) (snd (pool_Get d p)) = Inr (Some d)"
    if new: "d \<notin> pool_known p" and room: "0 < pool_room p"
  proof -
    have none: "map_of (fp_domainToIP p) d = None" using new by (auto simp: pool_known_def)
    have "pool_size (snd (pool_Get d p)) = pool_size p" using none by (simp add: pool_Get_def pool_size_def Let_def)
    with pool_Get_fresh [OF inv new room] none room show ?thesis
      by (auto simp: pool_known_def pool_room_def pool_Get_def AList.update_conv' Let_def)
  qed
  show "pool_Lookup ip (snd (pool_Get d p)) = Inr (Some e)" if room: "0 < pool_room p" and l: "pool_Lookup ip p = Inr (Some e)" for ip e
  proof (cases "map_of (fp_domainToIP p) d")
    case (Some k)
    with l show ?thesis by (simp add: pool_Get_def)
  next
    case None
    then have "map_of (fp_ipToDomain p) (fp_current p) = None"
      using pool_Get_fresh [OF inv _ room, of d] by (auto simp: pool_known_def)
    with None l show ?thesis
      by (auto simp: pool_Lookup_def pool_Get_def AList.update_conv' Let_def res_bind_Inr_iff)
  qed
qed

section \<open>Properties\<close>

lemma NewFakeIPPool_inv:
  assumes "NewFakeIPPool cidr = Inr p" "fp_minIP p \<le> fp_maxIP p" "fp_maxIP p \<noteq> 0xFFFFFFFF"
  shows "pool_inv p" "pool_known p = {}" "pool_room p = pool_size p" "0 < pool_size p"
proof -
  have e: "fp_ipToDomain p = []" "fp_domainToIP p = []" "fp_current p = fp_minIP p"
    using assms(1) by (auto simp: NewFakeIPPool_def Let_def res_bind_def split: option.splits sum.splits)
  have "unat (fp_maxIP p) \<noteq> unat (0xFFFFFFFF :: u32)" using assms(3) by (metis word_unat_eq_iff)
  moreover have "unat (fp_maxIP p) < 2 ^ 32" using unsigned_less [of "fp_maxIP p"] by simp
  moreover have le: "unat (fp_minIP p) \<le> unat (fp_maxIP p)" using assms(2) by (simp add: word_le_nat_alt)
  ultimately show "pool_inv p" by (simp add: pool_inv_def pool_used_def pool_size_def e)
  show "pool_known p = {}" "pool_room p = pool_size p" by (simp_all add: pool_known_def pool_room_def pool_used_def e)
  show "0 < pool_size p" using le by (simp add: pool_size_def)
qed

text \<open>C24: As long as the domains asked for are no more than the addresses of the block, every
  address handed out translates back to its domain after all of them have been handed out.\<close>

theorem fakeip_roundtrip:
  assumes "NewFakeIPPool cidr = Inr p" "fp_minIP p \<le> fp_maxIP p" "fp_maxIP p \<noteq> 0xFFFFFFFF"
    and "card (set ds) \<le> pool_size p" "i < length ds"
  shows "pool_Lookup (fst (runs pool_Get ds p) ! i) (snd (runs pool_Get ds p)) = Inr (Some (ds ! i))"
  using fakeip.gets_spec [of p ds] NewFakeIPPool_inv [OF assms(1-3)] assms(4,5) by simp

lemma cidr_30: "cidr_mask 30 4 = [255, 255, 255, 252]" "mask_ones [255, 255, 255, - 4] = 30"
  by code_simp+

definition small_pool :: FakeIPPool where
  "small_pool = \<lparr>fp_network = \<lparr>net_ip = [10, 0, 0, 0], net_mask = [255, 255, 255, 252]\<rparr>,
     fp_minIP = 0x0A000001, fp_maxIP = 0x0A000002, fp_current = 0x0A000001, fp_ipToDomain = [], fp_domainToIP = []\<rparr>"

lemma small_pool: "NewFakeIPPool ''10.0.0.0/30'' = Inr small_pool"
  by (simp add: NewFakeIPPool_def ParseCIDR_def ParseAddr_def is_digit_def digit_val_def ip_to_uint32_def To4_def
      mask_bytes_def cidr_30 be_get32_def Let_def small_pool_def del: mask_ones.simps)

theorem fakeip_roundtrip_witness:
  "pool_Lookup (fst (runs pool_Get [''a.com'', ''b.com''] small_pool) ! 1)
     (snd (runs pool_Get [''a.com'', ''b.com''] small_pool)) = Inr (Some ''b.com'')"
  using fakeip_roundtrip [OF small_pool, of "[''a.com'', ''b.com'']" 1] by (simp add: small_pool_def pool_size_def card_insert_if)

lemma pool_runs_bounds:
  "fp_minIP (snd (runs pool_Get ds p)) = fp_minIP p \<and> fp_maxIP (snd (runs pool_Get ds p)) = fp_maxIP p"
proof (induction ds arbitrary: p)
  case (Cons d ds)
  have "fp_minIP (snd (pool_Get d p)) = fp_minIP p \<and> fp_maxIP (snd (pool_Get d p)) = fp_maxIP p"
    by (auto simp: pool_Get_def Let_def split: option.splits)
  with Cons.IH [of "snd (pool_Get d p)"] show ?case by (simp add: case_prod_unfold)
qed simp

text \<open>Once the block is used up, the next new domain is given the address of the first one
  again: the address then translates to the new domain, while the first domain is still
  answered with it.\<close>

theorem fakeip_wrap_stale:
  assumes "NewFakeIPPool cidr = Inr p" "fp_minIP p \<le> fp_maxIP p" "fp_maxIP p \<noteq> 0xFFFFFFFF"
    and "distinct ds" "length ds = pool_size p" "d \<notin> set ds"
  defines "p1 \<equiv> snd (runs pool_Get ds p)" and "ip \<equiv> uint32ToIP (fp_minIP p)"
  shows "fst (pool_Get (hd ds) p) = ip \<and> pool_Lookup ip p1 = Inr (Some (hd ds)) \<and> fst (pool_Get d p1) = ip
    \<and> pool_Lookup ip (snd (pool_Get d p1)) = Inr (Some d) \<and> fst (pool_Get (hd ds) (snd (pool_Get d p1))) = ip"
proof -
  note new = NewFakeIPPool_inv [OF assms(1-3)]
  have spec: "pool_inv p1" "pool_known p1 = set ds"
      "\<And>i. i < length ds \<Longrightarrow> pool_Lookup (fst (runs pool_Get ds p) ! i) p1 = Inr (Some (ds ! i))"
    using fakeip.gets_spec [of p ds] new assms(4,5) unfolding p1_def by (simp_all add: distinct_card)
  obtain a as where ds: "ds = a # as" using new(4) assms(5) by (cases ds) auto
  have e: "fp_domainToIP p = []" "fp_current p = fp_minIP p"
    using assms(1) by (auto simp: NewFakeIPPool_def Let_def res_bind_def split: option.splits sum.splits)
  have first: "fst (pool_Get a p) = ip" by (simp add: pool_Get_def e Let_def ip_def)
  then have ip: "pool_Lookup ip p1 = Inr (Some a)"
    using spec(3) [of 0] by (simp add: ds case_prod_unfold)
  have frame: "fp_minIP p1 = fp_minIP p \<and> fp_maxIP p1 = fp_maxIP p" unfolding p1_def
    by (rule pool_runs_bounds)
  then have "pool_used p1 = pool_size p1"
    using spec(2) assms(4,5) by (simp add: pool_used_def pool_known_def pool_size_def distinct_card)
  then have cur: "fp_current p1 = fp_minIP p" using spec(1) frame by (simp add: pool_inv_def)
  have "map_of (fp_domainToIP p1) d = None" using assms(6) spec(2) by (auto simp: pool_known_def)
  moreover have "map_of (fp_domainToIP p1) a = Some (fp_minIP p)" using ip spec(1) by (simp add: pool_inv_def ip_def)
  moreover have "d \<noteq> a" using assms(6) ds by auto
  ultimately show ?thesis
    using first ip by (simp add: ds pool_Get_def [of d] pool_Get_hit Let_def cur AList.update_conv' ip_def)
qed

theorem fakeip_wrap_stale_witness:
  "pool_Lookup (uint32ToIP 0x0A000001) (snd (pool_Get ''c.com'' (snd (runs pool_Get [''a.com'', ''b.com''] small_pool)))) = Inr (Some ''c.com'')"
  using fakeip_wrap_stale [OF small_pool, of "[''a.com'', ''b.com'']" "''c.com''"]
  by (simp add: small_pool_def pool_size_def del: pool_Lookup_fake)

text \<open>
  An address that is not IPv4 makes the translation panic: \<^verbatim>\<open>To4\<close> is nil and
  \<^verbatim>\<open>binary.BigEndian.Uint32\<close> indexes it.
\<close>

lemma pool_Lookup_not_v4: "To4 ip = None \<Longrightarrow> pool_Lookup ip p = Inl (GoPanic ''index out of range [3]'')"
  by (simp add: pool_Lookup_def ip_to_uint32_def)

end
