(* ===== verification/Resolver.thy ===== *)
theory Resolver
  imports Router FakeIP
begin

text \<open>
  The resolver (\<^verbatim>\<open>SmartResolver\<close> and the upstreams of \<^verbatim>\<open>internal/routing/dns.go\<close>). The DNS library,
  the HTTP client and the router are parameters; a message is a record of the fields the program
  reads and writes. Times are nanoseconds.

  \<^verbatim>\<open>raceQuery\<close> starts one goroutine per upstream and receives from two channels; what it receives,
  in which order, is the list of events it is given.
\<close>

section \<open>Messages and upstreams\<close>

record rr_header =
  rh_Name :: string
  rh_Rrtype :: nat
  rh_Class :: nat
  rh_Ttl :: u32

datatype rr = RR_A rr_header bytes | RR_AAAA rr_header bytes | RR_Other rr_header

fun rr_hdr :: "rr \<Rightarrow> rr_header" where
  "rr_hdr (RR_A h a) = h"
| "rr_hdr (RR_AAAA h a) = h"
| "rr_hdr (RR_Other h) = h"

record dns_msg =
  dm_Id :: nat
  dm_Question :: "(string \<times> nat) list"
  dm_Answer :: "rr list"

definition TypeA :: nat where "TypeA = 1"
definition ClassINET :: nat where "ClassINET = 1"

record dns_lib =
  dl_pack :: "dns_msg \<Rightarrow> bytes res"
  dl_unpack :: "bytes \<Rightarrow> dns_msg res"
  dl_client :: "string \<Rightarrow> string \<Rightarrow> string \<Rightarrow> dns_msg \<Rightarrow> dns_msg res"
  dl_post :: "string \<Rightarrow> bytes \<Rightarrow> (nat \<times> bytes \<times> error option) res"
  dl_setReply :: "dns_msg \<Rightarrow> dns_msg"
  dl_setQuestion :: "string \<Rightarrow> nat \<Rightarrow> dns_msg"

datatype DNSUpstream = UDPUpstream string | DoHUpstream string | DoTUpstream string string

fun Address :: "DNSUpstream \<Rightarrow> string" where
  "Address (UDPUpstream addr) = addr"
| "Address (DoHUpstream url) = url"
| "Address (DoTUpstream addr serverName) = addr"

definition doh_Exchange :: "dns_lib \<Rightarrow> string \<Rightarrow> dns_msg \<Rightarrow> dns_msg res" where
  "doh_Exchange lib url m =
     res_bind (dl_pack lib m) (\<lambda>buf.
     res_bind (dl_post lib url buf) (\<lambda>resp. case resp of (status, body, readErr) \<Rightarrow>
       if status \<noteq> 200 then Inl (New (''doh status code: '' @ nat_to_dec status))
       else (case readErr of Some e \<Rightarrow> Inl e | None \<Rightarrow> dl_unpack lib body)))"

fun Exchange :: "dns_lib \<Rightarrow> DNSUpstream \<Rightarrow> dns_msg \<Rightarrow> dns_msg res" where
  "Exchange lib (UDPUpstream addr) m = dl_client lib ''udp'' [] addr m"
| "Exchange lib (DoHUpstream url) m = doh_Exchange lib url m"
| "Exchange lib (DoTUpstream addr serverName) m = dl_client lib ''tcp-tls'' serverName addr m"

section \<open>Racing upstreams\<close>

datatype race = Answer nat | CtxDone

text \<open>
  The receive loop: \<open>None\<close> while it still waits, otherwise the response and the error that
  \<^verbatim>\<open>raceQuery\<close> returns.
\<close>

fun race_loop :: "nat \<Rightarrow> (nat \<Rightarrow> dns_msg res) \<Rightarrow> race list \<Rightarrow> error option \<Rightarrow> (dns_msg option \<times> error option) option" where
  "race_loop 0 result evs lastErr = Some (None, lastErr)"
| "race_loop (Suc k) result [] lastErr = None"
| "race_loop (Suc k) result (CtxDone # evs) lastErr = Some (None, Some ErrCanceled)"
| "race_loop (Suc k) result (Answer i # evs) lastErr = (case result i of
     Inr m \<Rightarrow> Some (Some m, None) | Inl e \<Rightarrow> race_loop k result evs (Some e))"

definition raceQuery :: "dns_lib \<Rightarrow> race list \<Rightarrow> DNSUpstream list \<Rightarrow> dns_msg \<Rightarrow> (dns_msg option \<times> error option) option" where
  "raceQuery lib evs upstreams m =
     (if length upstreams = 1 then
        Some (case Exchange lib (hd upstreams) m of Inr r \<Rightarrow> (Some r, None) | Inl e \<Rightarrow> (None, Some e))
      else race_loop (length upstreams) (\<lambda>i. Exchange lib (upstreams ! i) m) evs None)"

section \<open>The resolver\<close>

record dnsCacheEntry =
  ce_msg :: dns_msg
  ce_expiry :: int

record SmartResolver =
  sr_cache :: "(string \<times> dnsCacheEntry) list"
  sr_upstreams :: "(string \<times> DNSUpstream list) list"
  sr_fakeIPEnabled :: bool
  sr_fakeIPPool :: "FakeIPPool option"

definition NewSmartResolver :: SmartResolver where
  "NewSmartResolver = \<lparr>sr_cache = [], sr_upstreams = [], sr_fakeIPEnabled = False, sr_fakeIPPool = None\<rparr>"

definition EnableFakeIP :: "string \<Rightarrow> SmartResolver \<Rightarrow> error option \<times> SmartResolver" where
  "EnableFakeIP cidr sr = (case NewFakeIPPool cidr of
     Inl e \<Rightarrow> (Some e, sr)
   | Inr p \<Rightarrow> (None, sr\<lparr>sr_fakeIPEnabled := True, sr_fakeIPPool := Some p\<rparr>))"

definition upstream_of :: "string \<Rightarrow> DNSUpstream" where
  "upstream_of addr =
     (if HasPrefix addr ''https://'' then DoHUpstream addr
      else if HasPrefix addr ''tls://'' then
        (let target = TrimPrefix addr ''tls://'' in
         DoTUpstream target (case SplitHostPort target of Inr (host, p) \<Rightarrow> host | Inl e \<Rightarrow> target))
      else UDPUpstream (if ContainsByte addr (CHR '':'') then addr else addr @ '':53''))"

definition group_upstreams :: "string \<Rightarrow> SmartResolver \<Rightarrow> DNSUpstream list" where
  "group_upstreams g sr = (case map_of (sr_upstreams sr) g of Some us \<Rightarrow> us | None \<Rightarrow> [])"

definition AddUpstreamByString :: "string \<Rightarrow> string \<Rightarrow> SmartResolver \<Rightarrow> SmartResolver" where
  "AddUpstreamByString g addr sr =
     sr\<lparr>sr_upstreams := AList.update g (group_upstreams g sr @ [upstream_of addr]) (sr_upstreams sr)\<rparr>"

definition ResolveFakeIP :: "SmartResolver \<Rightarrow> bytes \<Rightarrow> string option res" where
  "ResolveFakeIP sr ip = (if \<not> sr_fakeIPEnabled sr then Inr None
     else (case sr_fakeIPPool sr of Some p \<Rightarrow> pool_Lookup ip p | None \<Rightarrow> Inl (GoPanic ''nil pointer dereference'')))"

definition Flush :: "SmartResolver \<Rightarrow> SmartResolver" where
  "Flush sr = sr\<lparr>sr_cache := []\<rparr>"

definition cacheKey :: "string \<times> nat \<Rightarrow> string" where
  "cacheKey q = fst q @ ''-'' @ nat_to_dec (snd q)"

text \<open>A fake address from the pool; a nil pool would panic.\<close>

definition fake_Get :: "string \<Rightarrow> SmartResolver \<Rightarrow> bytes res \<times> SmartResolver" where
  "fake_Get domain sr = (case sr_fakeIPPool sr of
     None \<Rightarrow> (Inl (GoPanic ''nil pointer dereference''), sr)
   | Some p \<Rightarrow> (case pool_Get domain p of (ip, p') \<Rightarrow> (Inr ip, sr\<lparr>sr_fakeIPPool := Some p'\<rparr>)))"

definition fake_reply :: "dns_lib \<Rightarrow> dns_msg \<Rightarrow> string \<Rightarrow> bytes \<Rightarrow> dns_msg" where
  "fake_reply lib m name ip = (let resp = dl_setReply lib m in
     resp\<lparr>dm_Answer := dm_Answer resp @ [RR_A \<lparr>rh_Name = name, rh_Rrtype = TypeA, rh_Class = ClassINET, rh_Ttl = 60\<rparr> ip]\<rparr>)"

text \<open>The upstreams for a name: the group by its route, the local group, or the built-in ones.\<close>

definition choose_upstreams :: "(session_meta \<Rightarrow> OutboundHandler res) \<Rightarrow> string \<Rightarrow> SmartResolver \<Rightarrow> DNSUpstream list res" where
  "choose_upstreams route name sr =
     res_bind (case route (meta0\<lparr>m_Target := JoinHostPort (TrimSuffix name ''.'') ''443''\<rparr>) of
         Inl (GoPanic s) \<Rightarrow> Inl (GoPanic s)
       | Inl e \<Rightarrow> Inr ''local''
       | Inr h \<Rightarrow> Inr (if out_Name h \<noteq> ''direct'' then ''remote'' else ''local''))
     (\<lambda>g. let ups = (if group_upstreams g sr = [] then group_upstreams ''local'' sr else group_upstreams g sr) in
       Inr (if ups = [] then [UDPUpstream ''119.29.29.29:53'', UDPUpstream ''223.5.5.5:53''] else ups))"

definition cache_ttl :: "dns_msg \<Rightarrow> u32" where
  "cache_ttl resp =
     (let ttl = (case dm_Answer resp of [] \<Rightarrow> 600 | a # _ \<Rightarrow> rh_Ttl (rr_hdr a));
          ttl = (if ttl < 10 then 10 else ttl) in
      if 3600 < ttl then 3600 else ttl)"

definition second :: int where "second = 1000000000"

text \<open>The part of \<^verbatim>\<open>Query\<close> behind the cache: race the upstreams and store the response.\<close>

definition query_upstream ::
  "dns_lib \<Rightarrow> (session_meta \<Rightarrow> OutboundHandler res) \<Rightarrow> int \<Rightarrow> race list \<Rightarrow> dns_msg \<Rightarrow> string \<times> nat \<Rightarrow> SmartResolver
     \<Rightarrow> dns_msg res option \<times> SmartResolver" where
  "query_upstream lib route now2 evs m q sr =
     (case choose_upstreams route (fst q) sr of
        Inl e \<Rightarrow> (Some (Inl e), sr)
      | Inr ups \<Rightarrow> (case raceQuery lib evs ups m of
          None \<Rightarrow> (None, sr)
        | Some (r, Some e) \<Rightarrow> (Some (Inl e), sr)
        | Some (None, None) \<Rightarrow> (Some (Inl (GoPanic ''nil pointer dereference'')), sr)
        | Some (Some resp, None) \<Rightarrow>
            (Some (Inr resp), sr\<lparr>sr_cache := AList.update (cacheKey q)
               \<lparr>ce_msg = resp, ce_expiry = now2 + uint (cache_ttl resp) * second\<rparr> (sr_cache sr)\<rparr>)))"

text \<open>
  \<^verbatim>\<open>Query\<close>: \<open>now\<close> is the time of the cache lookup, \<open>now2\<close> the time of the store. \<open>None\<close> when the race is
  still open.
\<close>

definition Query ::
  "dns_lib \<Rightarrow> (session_meta \<Rightarrow> OutboundHandler res) \<Rightarrow> int \<Rightarrow> int \<Rightarrow> race list \<Rightarrow> dns_msg \<Rightarrow> SmartResolver
     \<Rightarrow> dns_msg res option \<times> SmartResolver" where
  "Query lib route now now2 evs m sr = (case dm_Question m of
     [] \<Rightarrow> (Some (Inl (New ''no question'')), sr)
   | q # _ \<Rightarrow>
      if sr_fakeIPEnabled sr \<and> snd q = TypeA then
        (case fake_Get (TrimSuffix (fst q) ''.'') sr of
           (Inl e, sr) \<Rightarrow> (Some (Inl e), sr)
         | (Inr ip, sr) \<Rightarrow> (Some (Inr (fake_reply lib m (fst q) ip)), sr))
      else (case map_of (sr_cache sr) (cacheKey q) of
          Some entry \<Rightarrow>
            if now < ce_expiry entry then (Some (Inr ((ce_msg entry)\<lparr>dm_Id := dm_Id m\<rparr>)), sr)
            else query_upstream lib route now2 evs m q sr
        | None \<Rightarrow> query_upstream lib route now2 evs m q sr))"

definition answer_ips :: "rr list \<Rightarrow> bytes list" where
  "answer_ips as = concat (map (\<lambda>a. case a of RR_A h ip \<Rightarrow> [ip] | RR_AAAA h ip \<Rightarrow> [ip] | RR_Other h \<Rightarrow> []) as)"

definition LookupIP ::
  "dns_lib \<Rightarrow> (session_meta \<Rightarrow> OutboundHandler res) \<Rightarrow> int \<Rightarrow> int \<Rightarrow> race list \<Rightarrow> string \<Rightarrow> SmartResolver
     \<Rightarrow> bytes list res option \<times> SmartResolver" where
  "LookupIP lib route now now2 evs host sr = (case ParseIP host of
     Some ip \<Rightarrow> (Some (Inr [ip]), sr)
   | None \<Rightarrow>
      if sr_fakeIPEnabled sr then
        (case fake_Get host sr of (r, sr) \<Rightarrow> (Some (res_bind r (\<lambda>ip. Inr [ip])), sr))
      else
        let fqdn = (if HasSuffix host ''.'' then host else host @ ''.'') in
        (case Query lib route now now2 evs (dl_setQuestion lib fqdn TypeA) sr of
           (None, sr) \<Rightarrow> (None, sr)
         | (Some (Inl e), sr) \<Rightarrow> (Some (Inl e), sr)
         | (Some (Inr resp), sr) \<Rightarrow> (Some (Inr (answer_ips (dm_Answer resp))), sr)))"

section \<open>Lemmas\<close>

lemma cache_ttl_bounds: "10 \<le> uint (cache_ttl resp) \<and> uint (cache_ttl resp) \<le> 3600"
proof -
  have "10 \<le> cache_ttl resp \<and> cache_ttl resp \<le> 3600"
    by (auto simp: cache_ttl_def Let_def not_less split: list.splits intro: order_trans)
  then show ?thesis by (simp add: word_le_def)
qed

lemma choose_upstreams_nonempty: "choose_upstreams route name sr = Inr ups \<Longrightarrow> ups \<noteq> []"
  by (auto simp: choose_upstreams_def res_bind_def Let_def split: sum.splits error.splits if_splits)

text \<open>Every upstream reports once and nothing is cancelled: the first success wins.\<close>

lemma race_loop_all:
  assumes "length is = k"
  shows "race_loop k result (map Answer is) lastErr =
    (case find (\<lambda>i. \<exists>m. result i = Inr m) is of
       Some i \<Rightarrow> Some (case result i of Inr m \<Rightarrow> (Some m, None) | Inl e \<Rightarrow> (None, Some e))
     | None \<Rightarrow> Some (None, if is = [] then lastErr else (case result (last is) of Inl e \<Rightarrow> Some e | Inr m \<Rightarrow> None)))"
  using assms
proof (induction "is" arbitrary: k lastErr)
  case (Cons i js)
  then obtain j where k: "k = Suc j" "length js = j" by (cases k) auto
  show ?case
  proof (cases "result i")
    case (Inl e)
    then have "race_loop k result (map Answer (i # js)) lastErr = race_loop j result (map Answer js) (Some e)" by (simp add: k)
    with Inl Cons.IH [OF k(2), of "Some e"] show ?thesis by (cases "js = []") (simp_all cong: option.case_cong)
  qed (simp add: k)
qed simp

lemma ResolveFakeIP_get:
  assumes "sr_fakeIPEnabled sr" "sr_fakeIPPool sr = Some p" "pool_inv p" "d \<in> pool_known p \<or> 0 < pool_room p"
    and "fake_Get d sr = (Inr ip, sr')"
  shows "length ip = 4" "ResolveFakeIP sr' (v4InV6Prefix @ ip) = Inr (Some d)"
proof -
  have g: "pool_Get d p = (ip, the (sr_fakeIPPool sr'))" "sr' = sr\<lparr>sr_fakeIPPool := Some (the (sr_fakeIPPool sr'))\<rparr>"
    using assms(2,5) by (auto simp: fake_Get_def split: prod.splits)
  let ?p = "the (sr_fakeIPPool sr')"
  have l: "pool_Lookup ip ?p = Inr (Some d)"
    using fakeip.get_known [OF assms(3), of d] fakeip.get_fresh [OF assms(3), of d] assms(4) g(1) by (cases "d \<in> pool_known p") auto
  have "\<exists>k. ip = uint32ToIP k" using g(1) by (auto simp: pool_Get_def Let_def split: option.splits)
  then show len: "length ip = 4" by (auto simp: uint32ToIP_def be_put32_def)
  then have "pool_Lookup (v4InV6Prefix @ ip) ?p = pool_Lookup ip ?p"
    by (simp add: pool_Lookup_def ip_to_uint32_def To4_def [of ip])
  with l have "pool_Lookup (v4InV6Prefix @ ip) ?p = Inr (Some d)" by simp
  then have "ResolveFakeIP (sr\<lparr>sr_fakeIPPool := Some ?p\<rparr>) (v4InV6Prefix @ ip) = Inr (Some d)"
    using assms(1) by (simp add: ResolveFakeIP_def)
  with g(2) show "ResolveFakeIP sr' (v4InV6Prefix @ ip) = Inr (Some d)" by metis
qed

section \<open>Properties\<close>

text \<open>
  C25: A connection to a fake address is routed like a connection to its domain. After the
  resolver has answered a domain with a fake address (while the pool has room), the router's
  decision for the address and a port is the one its rules give for the domain and that port.
\<close>

theorem fake_ip_routes_as_domain:
  assumes "sr_fakeIPEnabled sr" "sr_fakeIPPool sr = Some p" "pool_inv p" "d \<in> pool_known p \<or> 0 < pool_room p"
    and "ParseIP d = None" "plain_port port" "br_resolver r \<noteq> None"
    and "LookupIP lib route now now2 evs d sr = (Some (Inr [ip]), sr')"
  shows "Route ord (\<lambda>_. ResolveFakeIP sr') r (meta\<lparr>m_Target := JoinHostPort (IP_String ip) port\<rparr>)
    = route_rules ord r (meta\<lparr>m_Target := JoinHostPort d port\<rparr>)"
proof -
  have "fake_Get d sr = (Inr ip, sr')"
    using assms(1,5,8) by (auto simp: LookupIP_def res_bind_def split: prod.splits sum.splits)
  note f = ResolveFakeIP_get [OF assms(1-4) this]
  have h: "split_host (JoinHostPort (IP_String ip) port) = IP_String ip" "split_port (JoinHostPort (IP_String ip) port) = port"
    using IP_String_plain [of ip] f(1) assms(6) by (simp_all add: split_host_Join split_port_Join)
  show ?thesis
    using assms(7) f(2) by (auto simp: Route_def restore_target_def h ParseIP_String_v4 [OF f(1)])
qed

text \<open>A library for the examples: every upstream but \<^verbatim>\<open>8.8.8.8:53\<close> times out.\<close>

definition demo_msg :: "nat \<Rightarrow> dns_msg" where
  "demo_msg i = \<lparr>dm_Id = i, dm_Question = [(''a.com.'', 28)], dm_Answer = []\<rparr>"

definition demo_lib :: dns_lib where
  "demo_lib = \<lparr>dl_pack = (\<lambda>m. Inr []), dl_unpack = (\<lambda>b. Inr (demo_msg 0)),
     dl_client = (\<lambda>net sn addr m. if addr = ''8.8.8.8:53'' then Inr m else Inl ErrTimeout),
     dl_post = (\<lambda>url b. Inl ErrTimeout), dl_setReply = (\<lambda>m. m), dl_setQuestion = (\<lambda>n t. \<lparr>dm_Id = 7, dm_Question = [(n, t)], dm_Answer = []\<rparr>)\<rparr>"

definition demo_resolver :: SmartResolver where
  "demo_resolver = NewSmartResolver\<lparr>sr_fakeIPEnabled := True, sr_fakeIPPool := Some small_pool\<rparr>"

lemma small_pool_room: "pool_inv small_pool \<and> pool_room small_pool = 2"
  using NewFakeIPPool_inv [OF small_pool] by (simp add: small_pool_def pool_size_def)

lemma small_pool_first: "fst (pool_Get ''a.com'' small_pool) = uint32ToIP 0x0A000001"
  by (simp add: pool_Get_def small_pool_def Let_def)

lemma demo_domain: "ParseIP ''a.com'' = None"
  by code_simp

theorem fake_ip_routes_as_domain_witness:
  "Route rev (\<lambda>_. ResolveFakeIP (demo_resolver\<lparr>sr_fakeIPPool := Some (snd (pool_Get ''a.com'' small_pool))\<rparr>)) (SetResolver () split_router)
     (meta0\<lparr>m_Target := JoinHostPort (IP_String (uint32ToIP 0x0A000001)) ''443''\<rparr>)
   = route_rules rev (SetResolver () split_router) (meta0\<lparr>m_Target := JoinHostPort ''a.com'' ''443''\<rparr>)"
  by (rule fake_ip_routes_as_domain [where sr = demo_resolver and p = small_pool and lib = demo_lib and route = "\<lambda>m. Inl ErrTimeout"
        and now = 0 and ?now2.0 = 0 and evs = "[]"])
    (simp_all add: demo_resolver_def small_pool_room demo_domain plain_port_def SetResolver_def LookupIP_def fake_Get_def
      small_pool_first case_prod_unfold)

text \<open>
  With fake addresses enabled, a session to an IPv6 literal panics: the router asks the
  resolver to translate the address, and the pool reads four bytes of a nil slice.
\<close>

theorem route_ipv6_panics:
  assumes "sr_fakeIPEnabled sr" "sr_fakeIPPool sr = Some p" "br_resolver r \<noteq> None"
    and "ParseIP (split_host (m_Target meta)) = Some ip" "To4 ip = None"
  shows "Route ord (\<lambda>_. ResolveFakeIP sr) r meta = Inl (GoPanic ''index out of range [3]'')"
  using assms by (auto simp: Route_def restore_target_def ResolveFakeIP_def pool_Lookup_not_v4)

theorem route_ipv6_panics_witness:
  "Route rev (\<lambda>_. ResolveFakeIP demo_resolver) (SetResolver () split_router) (meta0\<lparr>m_Target := ''[2001:db8::1]:443''\<rparr>)
     = Inl (GoPanic ''index out of range [3]'')"
proof -
  have "split_host ''[2001:db8::1]:443'' = ''2001:db8::1''" by code_simp
  moreover have "ParseIP ''2001:db8::1'' = Some [32, 1, 13, 184, 0, 0, 0, 0, 0, 0, 0, 0, 0, 0, 0, 1]" by code_simp
  moreover have "To4 [32, 1, 13, 184, 0, 0, 0, 0, 0, 0, 0, 0, 0, 0, 0, 1] = None" by code_simp
  ultimately show ?thesis
    by (intro route_ipv6_panics [where p = small_pool]) (simp_all add: demo_resolver_def SetResolver_def)
qed

text \<open>
  The cache. A response fetched from the upstreams answers every query for the same name and
  type during the next ten seconds at least, with the id of the new query and without asking
  anyone; the entry is never used an hour or more after it was stored.
\<close>

theorem dns_cache_window:
  assumes "query_upstream lib route t evs m q sr = (Some (Inr resp), sr')"
    and "\<not> (sr_fakeIPEnabled sr \<and> snd q = TypeA)" "dm_Question m2 = q # qs"
  shows "(now < t + 10 * second \<longrightarrow> Query lib2 route2 now now2 evs2 m2 sr' = (Some (Inr (resp\<lparr>dm_Id := dm_Id m2\<rparr>)), sr'))
    \<and> (t + 3600 * second \<le> now \<longrightarrow> Query lib2 route2 now now2 evs2 m2 sr' = query_upstream lib2 route2 now2 evs2 m2 q sr')"
proof -
  have s: "sr' = sr\<lparr>sr_cache := AList.update (cacheKey q) \<lparr>ce_msg = resp, ce_expiry = t + uint (cache_ttl resp) * second\<rparr> (sr_cache sr)\<rparr>"
    using assms(1) by (auto simp: query_upstream_def split: option.splits prod.splits sum.splits)
  have b: "t + 10 * second \<le> t + uint (cache_ttl resp) * second" "t + uint (cache_ttl resp) * second \<le> t + 3600 * second"
    using cache_ttl_bounds [of resp] by (simp_all add: second_def)
  show ?thesis
    using assms(2,3) b by (auto simp: Query_def s AList.update_conv')
qed

definition remote_resolver :: SmartResolver where
  "remote_resolver = AddUpstreamByString ''local'' ''8.8.8.8:53'' NewSmartResolver"

theorem dns_cache_window_witness:
  "Query demo_lib (\<lambda>m. Inl ErrTimeout) (9 * second) 0 [] (demo_msg 5)
     (snd (query_upstream demo_lib (\<lambda>m. Inl ErrTimeout) 0 [] (demo_msg 1) (''a.com.'', 28) remote_resolver))
   = (Some (Inr (demo_msg 5)), snd (query_upstream demo_lib (\<lambda>m. Inl ErrTimeout) 0 [] (demo_msg 1) (''a.com.'', 28) remote_resolver))"
proof -
  let ?q = "query_upstream demo_lib (\<lambda>m. Inl ErrTimeout) 0 [] (demo_msg 1) (''a.com.'', 28) remote_resolver"
  have u: "upstream_of ''8.8.8.8:53'' = UDPUpstream ''8.8.8.8:53''" by code_simp
  have "choose_upstreams (\<lambda>m. Inl ErrTimeout) ''a.com.'' remote_resolver = Inr [UDPUpstream ''8.8.8.8:53'']"
    by (simp add: choose_upstreams_def remote_resolver_def AddUpstreamByString_def NewSmartResolver_def group_upstreams_def u)
  then have "?q = (Some (Inr (demo_msg 1)), snd ?q)"
    by (simp add: query_upstream_def raceQuery_def demo_lib_def)
  from dns_cache_window [OF this, of "demo_msg 5" "[]" "9 * second" demo_lib "\<lambda>m. Inl ErrTimeout" 0 "[]"]
  show ?thesis by (simp add: demo_msg_def TypeA_def second_def)
qed

text \<open>
  Racing several upstreams, the first success wins in whatever order the answers arrive: as
  long as the query is not cancelled and one upstream succeeds, the result is the response of the
  first upstream that succeeds, and without any success the error received last.
\<close>

theorem dns_race_first_success:
  assumes "2 \<le> length ups" "distinct order" "set order = {..<length ups}"
  shows "raceQuery lib (map Answer order) ups m =
    (case find (\<lambda>i. \<exists>r. Exchange lib (ups ! i) m = Inr r) order of
       Some i \<Rightarrow> Some (case Exchange lib (ups ! i) m of Inr r \<Rightarrow> (Some r, None) | Inl e \<Rightarrow> (None, Some e))
     | None \<Rightarrow> Some (None, case Exchange lib (ups ! last order) m of Inl e \<Rightarrow> Some e | Inr r \<Rightarrow> None))"
proof -
  have "length order = length ups" using assms(2,3) distinct_card [of order] by simp
  moreover from this assms(1) have "order \<noteq> []" by auto
  ultimately show ?thesis using race_loop_all [of order] assms(1) by (simp add: raceQuery_def)
qed

theorem dns_race_first_success_witness:
  "raceQuery demo_lib (map Answer [1, 0]) [UDPUpstream ''8.8.8.8:53'', UDPUpstream ''192.0.2.1:53''] (demo_msg 1) = Some (Some (demo_msg 1), None)"
  using dns_race_first_success [of "[UDPUpstream ''8.8.8.8:53'', UDPUpstream ''192.0.2.1:53'']" "[1, 0]" demo_lib "demo_msg 1"]
  by (simp add: demo_lib_def lessThan_Suc numeral_2_eq_2 insert_commute)

end
