(* ===== verification/Transport.thy ===== *)
theory Transport
  imports Inbounds
begin

text \<open>
  The transports below the tunnel: certificates (\<^verbatim>\<open>internal/transport/cert_manager.go\<close>), the QUIC
  dialer (\<^verbatim>\<open>quic.go\<close>), the QUIC connection pool (\<^verbatim>\<open>pool.go\<close>) and the dialer for TCP, TLS and
  WebSocket (\<^verbatim>\<open>generic.go\<close>). Parsed
  certificates and pools are opaque; reading and parsing them are parameters, and so are the
  QUIC library's dial and stream calls.
\<close>

section \<open>Certificates\<close>

record ('cert, 'pool) CertManager =
  ct_cert :: 'cert
  ct_caCertPool :: 'pool
  ct_certFile :: string
  ct_keyFile :: string
  ct_caFile :: string
  ct_insecure :: bool

text \<open>What the manager reads from disk: the key pair and the pool of the CA file.\<close>

definition load_certs :: "(string \<Rightarrow> string \<Rightarrow> 'cert res) \<Rightarrow> (string \<Rightarrow> bytes res) \<Rightarrow> (bytes \<Rightarrow> 'pool) \<Rightarrow> string \<Rightarrow> string \<Rightarrow> string
     \<Rightarrow> ('cert \<times> 'pool) res" where
  "load_certs loadPair readFile poolOf certFile keyFile caFile =
     (case loadPair certFile keyFile of
        Inl e \<Rightarrow> Inl (Wrap ''failed to load keypair'' e)
      | Inr cert \<Rightarrow> (case readFile caFile of
          Inl e \<Rightarrow> Inl (Wrap ''failed to read CA'' e) | Inr ca \<Rightarrow> Inr (cert, poolOf ca)))"

definition Reload :: "(string \<Rightarrow> string \<Rightarrow> 'cert res) \<Rightarrow> (string \<Rightarrow> bytes res) \<Rightarrow> (bytes \<Rightarrow> 'pool)
     \<Rightarrow> ('cert, 'pool) CertManager \<Rightarrow> error option \<times> ('cert, 'pool) CertManager" where
  "Reload loadPair readFile poolOf cm =
     (case load_certs loadPair readFile poolOf (ct_certFile cm) (ct_keyFile cm) (ct_caFile cm) of
        Inl e \<Rightarrow> (Some e, cm)
      | Inr (cert, pool) \<Rightarrow> (None, cm\<lparr>ct_cert := cert, ct_caCertPool := pool\<rparr>))"

definition NewCertManager :: "(string \<Rightarrow> string \<Rightarrow> 'cert res) \<Rightarrow> (string \<Rightarrow> bytes res) \<Rightarrow> (bytes \<Rightarrow> 'pool)
     \<Rightarrow> string \<Rightarrow> string \<Rightarrow> string \<Rightarrow> bool \<Rightarrow> ('cert, 'pool) CertManager res" where
  "NewCertManager loadPair readFile poolOf certFile keyFile caFile insecure =
     (case load_certs loadPair readFile poolOf certFile keyFile caFile of
        Inl e \<Rightarrow> Inl e
      | Inr (cert, pool) \<Rightarrow> Inr \<lparr>ct_cert = cert, ct_caCertPool = pool, ct_certFile = certFile, ct_keyFile = keyFile,
          ct_caFile = caFile, ct_insecure = insecure\<rparr>)"

text \<open>
  A TLS configuration: the certificate is asked for at every handshake (\<open>tl_cert\<close> of the manager at
  that time), the other fields are fixed when the configuration is made.
\<close>

record ('cert, 'pool) tls_config =
  tl_cert :: "('cert, 'pool) CertManager \<Rightarrow> 'cert"
  tl_pool :: 'pool
  tl_serverName :: string
  tl_verifyClient :: bool
  tl_insecure :: bool
  tl_minVersion :: nat
  tl_nextProtos :: "string list"

definition VersionTLS13 :: nat where "VersionTLS13 = 0x0304"

definition GetTLSConfigServer :: "('cert, 'pool) CertManager \<Rightarrow> ('cert, 'pool) tls_config" where
  "GetTLSConfigServer cm = \<lparr>tl_cert = ct_cert, tl_pool = ct_caCertPool cm, tl_serverName = [], tl_verifyClient = True,
     tl_insecure = False, tl_minVersion = VersionTLS13, tl_nextProtos = [''nodepass-2.0'']\<rparr>"

definition GetTLSConfigClient :: "string \<Rightarrow> ('cert, 'pool) CertManager \<Rightarrow> ('cert, 'pool) tls_config" where
  "GetTLSConfigClient serverName cm = \<lparr>tl_cert = ct_cert, tl_pool = ct_caCertPool cm, tl_serverName = serverName, tl_verifyClient = False,
     tl_insecure = ct_insecure cm, tl_minVersion = VersionTLS13, tl_nextProtos = [''nodepass-2.0'']\<rparr>"

section \<open>QUIC connections\<close>

text \<open>The QUIC connections the process holds: for each, whether it is still open.\<close>

record StreamConn =
  st_raw :: nat
  st_closed :: bool

text \<open>
  \<^verbatim>\<open>QUICDialer.Dial\<close>: \<open>dialAddr\<close> and \<open>openStream\<close> are the results of the two library calls. Closing
  a \<^verbatim>\<open>StreamConn\<close> is closing the stream it embeds.
\<close>

definition quic_Dial :: "error option \<Rightarrow> error option \<Rightarrow> bool list \<Rightarrow> StreamConn res \<times> bool list" where
  "quic_Dial dialAddr openStream conns = (case dialAddr of
     Some e \<Rightarrow> (Inl e, conns)
   | None \<Rightarrow> (case openStream of
       Some e \<Rightarrow> (Inl e, conns @ [False])
     | None \<Rightarrow> (Inr \<lparr>st_raw = length conns, st_closed = False\<rparr>, conns @ [True])))"

definition StreamConn_Close :: "StreamConn \<Rightarrow> bool list \<Rightarrow> StreamConn \<times> bool list" where
  "StreamConn_Close s conns = (s\<lparr>st_closed := True\<rparr>, conns)"

section \<open>The connection pool\<close>

text \<open>After \<^verbatim>\<open>Close\<close> the map is nil: reading it is allowed, writing to it panics.\<close>

record 'c QUICPool =
  qp_conns :: "(string \<times> 'c) list option"
  qp_done :: bool

definition NewQUICPool :: "'c QUICPool" where
  "NewQUICPool = \<lparr>qp_conns = Some [], qp_done = False\<rparr>"

definition qp_tick :: "('c \<Rightarrow> bool) \<Rightarrow> 'c QUICPool \<Rightarrow> 'c QUICPool" where
  "qp_tick dead p = (if qp_done p then p else p\<lparr>qp_conns := map_option (filter (\<lambda>e. \<not> dead (snd e))) (qp_conns p)\<rparr>)"

definition qp_Get :: "(string \<Rightarrow> 'c res) \<Rightarrow> string \<Rightarrow> 'c QUICPool \<Rightarrow> 'c res \<times> 'c QUICPool" where
  "qp_Get dialAddr addr p = (case (case qp_conns p of None \<Rightarrow> None | Some m \<Rightarrow> map_of m addr) of
     Some c \<Rightarrow> (Inr c, p)
   | None \<Rightarrow> (case dialAddr addr of
       Inl e \<Rightarrow> (Inl e, p)
     | Inr c \<Rightarrow> (case qp_conns p of
         None \<Rightarrow> (Inl (GoPanic ''assignment to entry in nil map''), p)
       | Some m \<Rightarrow> (Inr c, p\<lparr>qp_conns := Some (AList.update addr c m)\<rparr>))))"

text \<open>\<^verbatim>\<open>Close\<close> and the connections it closes.\<close>

definition qp_Close :: "'c QUICPool \<Rightarrow> 'c list \<times> 'c QUICPool" where
  "qp_Close p = (case qp_conns p of None \<Rightarrow> [] | Some m \<Rightarrow> map snd m, p\<lparr>qp_conns := None, qp_done := True\<rparr>)"

section \<open>WebSocket streams\<close>

text \<open>The messages that arrive, then an error; the rest of the last message; the messages sent.\<close>

record WSConn =
  ws_in :: "bytes list"
  ws_err :: error
  ws_rb :: bytes
  ws_out :: "bytes list"
  ws_readDeadline :: int
  ws_writeDeadline :: int

definition ws_Read :: "nat \<Rightarrow> WSConn \<Rightarrow> (bytes \<times> error option) \<times> WSConn" where
  "ws_Read n w = (case (ws_rb w, ws_in w) of
     ([], []) \<Rightarrow> (([], Some (ws_err w)), w)
   | ([], msg # ms) \<Rightarrow> ((take n msg, None), w\<lparr>ws_in := ms, ws_rb := drop n msg\<rparr>)
   | (rb, _) \<Rightarrow> ((take n rb, None), w\<lparr>ws_rb := drop n rb\<rparr>))"

definition ws_Write :: "error option \<Rightarrow> bytes \<Rightarrow> WSConn \<Rightarrow> (nat \<times> error option) \<times> WSConn" where
  "ws_Write e b w = (case e of Some err \<Rightarrow> ((0, e), w) | None \<Rightarrow> ((length b, None), w\<lparr>ws_out := ws_out w @ [b]\<rparr>))"

text \<open>The deadlines; \<open>e\<close> is what the library returns. \<^verbatim>\<open>SetDeadline\<close> drops the errors of both calls.\<close>

definition ws_SetReadDeadline :: "error option \<Rightarrow> int \<Rightarrow> WSConn \<Rightarrow> error option \<times> WSConn" where
  "ws_SetReadDeadline e t w = (e, if e = None then w\<lparr>ws_readDeadline := t\<rparr> else w)"

definition ws_SetWriteDeadline :: "error option \<Rightarrow> int \<Rightarrow> WSConn \<Rightarrow> error option \<times> WSConn" where
  "ws_SetWriteDeadline e t w = (e, if e = None then w\<lparr>ws_writeDeadline := t\<rparr> else w)"

definition ws_SetDeadline :: "error option \<Rightarrow> error option \<Rightarrow> int \<Rightarrow> WSConn \<Rightarrow> error option \<times> WSConn" where
  "ws_SetDeadline e1 e2 t w = (None, snd (ws_SetWriteDeadline e2 t (snd (ws_SetReadDeadline e1 t w))))"

section \<open>The generic dialer\<close>

datatype ('cert, 'pool) dial_plan =
  DialTCP string
| DialTLS string "('cert, 'pool) tls_config option"
| DialWS string "(string \<times> string) list" "('cert, 'pool) tls_config option"

text \<open>Which connection \<^verbatim>\<open>GenericDialer.Dial\<close> makes; a server name needs a configuration to put it in.\<close>

definition generic_plan :: "('cert, 'pool) tls_config option \<Rightarrow> string \<Rightarrow> string \<Rightarrow> string \<Rightarrow> string \<Rightarrow> (string \<times> string) list
     \<Rightarrow> ('cert, 'pool) dial_plan res" where
  "generic_plan TLSConfig transport addr path sni headers =
     (if sni \<noteq> [] \<and> TLSConfig = None then Inl (GoPanic ''nil pointer dereference'')
      else
        let tlsCfg = (if sni \<noteq> [] then map_option (\<lambda>c. c\<lparr>tl_serverName := sni\<rparr>) TLSConfig else TLSConfig) in
        if transport = ''tcp'' then Inr (DialTCP addr)
        else if transport = ''tls'' then Inr (DialTLS addr tlsCfg)
        else if transport = ''ws'' \<or> transport = ''wss'' then
          Inr (DialWS ((if transport = ''wss'' then ''wss'' else ''ws'') @ ''://'' @ addr @ (if path = [] then ''/ws'' else path)) headers tlsCfg)
        else Inl (New (''unsupported transport: '' @ transport)))"

text \<open>What comes of it: \<^verbatim>\<open>tls.Client\<close> only wraps the connection, its handshake comes with the first use.\<close>

datatype ('cert, 'pool) generic_conn =
  TCPConn conn
| TLSConn conn "('cert, 'pool) tls_config option"
| WebSocketConn WSConn

definition generic_Dial :: "(string \<Rightarrow> string \<Rightarrow> conn res) \<Rightarrow> (string \<Rightarrow> (string \<times> string) list \<Rightarrow> ('cert, 'pool) tls_config option \<Rightarrow> WSConn res)
     \<Rightarrow> ('cert, 'pool) tls_config option \<Rightarrow> string \<Rightarrow> string \<Rightarrow> string \<Rightarrow> string \<Rightarrow> (string \<times> string) list \<Rightarrow> ('cert, 'pool) generic_conn res" where
  "generic_Dial netDial wsDial TLSConfig transport addr path sni headers =
     (case generic_plan TLSConfig transport addr path sni headers of
        Inl e \<Rightarrow> Inl e
      | Inr (DialTCP a) \<Rightarrow> (case netDial ''tcp'' a of Inl e \<Rightarrow> Inl e | Inr c \<Rightarrow> Inr (TCPConn c))
      | Inr (DialTLS a cfg) \<Rightarrow> (case netDial ''tcp'' a of Inl e \<Rightarrow> Inl e | Inr c \<Rightarrow> Inr (TLSConn c cfg))
      | Inr (DialWS u h cfg) \<Rightarrow> (case wsDial u h cfg of Inl e \<Rightarrow> Inl e | Inr w \<Rightarrow> Inr (WebSocketConn w)))"

section \<open>Properties\<close>

text \<open>
  A certificate reload is all or nothing, but only half of it takes effect. When a file cannot be
  read, the manager is unchanged. When all can, every TLS configuration handed out before presents
  the new certificate from then on, while it keeps checking peers against the old CA pool.
\<close>

theorem cert_reload:
  assumes "Reload loadPair readFile poolOf cm = (e, cm')"
  shows "case load_certs loadPair readFile poolOf (ct_certFile cm) (ct_keyFile cm) (ct_caFile cm) of
      Inl err \<Rightarrow> e = Some err \<and> cm' = cm
    | Inr (cert, pool) \<Rightarrow> e = None \<and> tl_cert (GetTLSConfigServer cm) cm' = cert \<and> tl_cert (GetTLSConfigClient sn cm) cm' = cert
        \<and> tl_pool (GetTLSConfigServer cm') = pool \<and> tl_pool (GetTLSConfigServer cm) = ct_caCertPool cm
        \<and> tl_pool (GetTLSConfigClient sn cm) = ct_caCertPool cm"
  using assms by (auto simp: Reload_def GetTLSConfigServer_def GetTLSConfigClient_def split: sum.splits)

theorem cert_reload_witness:
  "let cm = \<lparr>ct_cert = 1 :: nat, ct_caCertPool = [1 :: byte], ct_certFile = ''c'', ct_keyFile = ''k'', ct_caFile = ''a'', ct_insecure = False\<rparr>;
       cm' = snd (Reload (\<lambda>c k. Inr 2) (\<lambda>f. Inr [7]) id cm) in
   tl_cert (GetTLSConfigServer cm) cm' = 2 \<and> tl_pool (GetTLSConfigServer cm) = [1]"
proof -
  let ?cm = "\<lparr>ct_cert = 1 :: nat, ct_caCertPool = [1 :: byte], ct_certFile = ''c'', ct_keyFile = ''k'', ct_caFile = ''a'', ct_insecure = False\<rparr>"
  obtain e cm' where r: "Reload (\<lambda>c k. Inr 2) (\<lambda>f. Inr [7]) id ?cm = (e, cm')" by (metis prod.exhaust)
  with cert_reload [OF r, of "''s''"] show ?thesis by (simp add: load_certs_def Let_def)
qed

text \<open>
  Dialling does not leak QUIC connections when it fails, and leaks one when it succeeds. A failed
  dial leaves every connection it opened closed; after a successful dial and \<^verbatim>\<open>Close\<close>, the stream
  is closed and the QUIC connection under it is still open.
\<close>

theorem quic_dial_leak:
  assumes "quic_Dial dialAddr openStream conns = (r, conns')"
  shows "(case r of
      Inl e \<Rightarrow> filter id conns' = filter id conns
    | Inr s \<Rightarrow> (case StreamConn_Close s conns' of (s', conns'') \<Rightarrow>
        st_closed s' \<and> st_raw s' < length conns'' \<and> conns'' ! st_raw s' \<and> filter id conns'' = filter id conns @ [True]))"
  using assms by (auto simp: quic_Dial_def StreamConn_Close_def split: option.splits)

theorem quic_dial_leak_witness:
  "\<exists>s conns. quic_Dial None None [] = (Inr s, conns) \<and> filter id (snd (StreamConn_Close s conns)) = [True]"
  using quic_dial_leak [of None None "[]" "Inr \<lparr>st_raw = 0, st_closed = False\<rparr>" "[True]"]
  by (simp add: quic_Dial_def StreamConn_Close_def)

text \<open>What is still to be read from a WebSocket connection.\<close>

definition ws_rem :: "WSConn \<Rightarrow> bytes" where
  "ws_rem w = ws_rb w @ concat (ws_in w)"

lemma ws_Read_rem: "ws_Read n w = ((bs, e), w') \<Longrightarrow> ws_rem w = bs @ ws_rem w'"
  by (auto simp: ws_Read_def ws_rem_def split: list.splits)

lemma ws_Read_err: "ws_Read n w = ((bs, Some e), w') \<Longrightarrow> bs = [] \<and> ws_rem w = [] \<and> w' = w"
  by (auto simp: ws_Read_def ws_rem_def split: list.splits)

lemma ws_Read_progress:
  assumes "0 < n" "ws_Read n w = ((bs, None), w')"
  shows "length (ws_rem w') + length (ws_in w') < length (ws_rem w) + length (ws_in w)"
  using assms by (cases "ws_rb w"; cases "ws_in w") (auto simp: ws_Read_def ws_rem_def)

text \<open>\<^verbatim>\<open>io.ReadAll\<close> over the connection, with a buffer of \<open>n + 1\<close> bytes.\<close>

function ws_ReadAll :: "nat \<Rightarrow> WSConn \<Rightarrow> bytes \<times> WSConn" where
  "ws_ReadAll n w = (case ws_Read (Suc n) w of
     ((bs, Some e), w') \<Rightarrow> (bs, w')
   | ((bs, None), w') \<Rightarrow> (case ws_ReadAll n w' of (r, w'') \<Rightarrow> (bs @ r, w'')))"
  by pat_completeness auto
termination
  by (relation "measure (\<lambda>(n, w). length (ws_rem w) + length (ws_in w))") (auto intro: ws_Read_progress [OF zero_less_Suc sym])

declare ws_ReadAll.simps [simp del]

fun ws_Writes :: "bytes list \<Rightarrow> WSConn \<Rightarrow> WSConn" where
  "ws_Writes [] w = w"
| "ws_Writes (b # bs) w = ws_Writes bs (snd (ws_Write None b w))"

lemma ws_Writes_out: "ws_out (ws_Writes bs w) = ws_out w @ bs"
  by (induction bs arbitrary: w) (simp_all add: ws_Write_def)

lemma ws_ReadAll_rem: "\<exists>w'. ws_ReadAll n w = (ws_rem w, w') \<and> ws_rem w' = []"
proof (induction n w rule: ws_ReadAll.induct)
  case (1 n w)
  obtain bs e w1 where r: "ws_Read (Suc n) w = ((bs, e), w1)" by (metis prod.exhaust)
  show ?case
  proof (cases e)
    case None
    then have "\<exists>w'. ws_ReadAll n w1 = (ws_rem w1, w') \<and> ws_rem w' = []" using 1 r by simp
    then show ?thesis using r None ws_Read_rem [OF r] by (subst ws_ReadAll.simps) auto
  next
    case (Some err)
    with r have "ws_Read (Suc n) w = ((bs, Some err), w1)" by simp
    with ws_Read_err [OF this] show ?thesis by (subst ws_ReadAll.simps) simp
  qed
qed

text \<open>
  C34: A WebSocket connection carries a byte stream. Whatever is written in however many messages,
  empty ones included, the other side reads exactly the concatenation, with buffers of any size,
  and then the connection's error; the read loop always ends.
\<close>

theorem ws_stream:
  "\<exists>r'. ws_ReadAll n (r\<lparr>ws_in := ws_out (ws_Writes bs (w\<lparr>ws_out := []\<rparr>)), ws_rb := []\<rparr>) = (concat bs, r') \<and> ws_rem r' = []"
  using ws_ReadAll_rem [of n "r\<lparr>ws_in := bs, ws_rb := []\<rparr>"] by (simp add: ws_Writes_out ws_rem_def)

text \<open>
  The pool hands out one connection per address until it is closed, and cannot be used after.
  A second \<^verbatim>\<open>Get\<close> of the same address returns the first one's connection without dialling, even when
  that connection is dead and no cleanup has run in between; after \<^verbatim>\<open>Close\<close>, every \<^verbatim>\<open>Get\<close> that
  manages to dial panics.
\<close>

theorem quic_pool_get:
  assumes "qp_Get d1 addr p = (Inr c, p1)"
  shows "qp_Get d2 addr p1 = (Inr c, p1)
    \<and> (case qp_Close p1 of (closed, p2) \<Rightarrow> c \<in> set closed
        \<and> qp_Get d2 addr p2 = (case d2 addr of Inl e \<Rightarrow> (Inl e, p2) | Inr c2 \<Rightarrow> (Inl (GoPanic ''assignment to entry in nil map''), p2)))"
proof -
  obtain m where m: "qp_conns p1 = Some m" "map_of m addr = Some c"
    using assms by (auto simp: qp_Get_def AList.update_conv' split: option.splits sum.splits)
  then have "c \<in> set (map snd m)" by (auto dest!: map_of_SomeD intro: rev_image_eqI)
  then show ?thesis using m by (auto simp: qp_Get_def qp_Close_def split: sum.splits)
qed

theorem quic_pool_get_witness:
  "qp_Get (\<lambda>a. Inr 2) ''192.0.2.9:443'' (snd (qp_Get (\<lambda>a. Inr (1 :: nat)) ''192.0.2.9:443'' NewQUICPool))
    = (Inr 1, snd (qp_Get (\<lambda>a. Inr 1) ''192.0.2.9:443'' NewQUICPool))"
  using quic_pool_get [of "\<lambda>a. Inr (1 :: nat)" "''192.0.2.9:443''" NewQUICPool 1 "\<lparr>qp_conns = Some [(''192.0.2.9:443'', 1)], qp_done = False\<rparr>" "\<lambda>a. Inr 2"]
  by (simp add: qp_Get_def NewQUICPool_def)

end
