(* ===== verification/Control.thy ===== *)
theory Control
  imports Configuration Accounting
begin

text \<open>
  The client of the controller (\<^verbatim>\<open>internal/control/client.go\<close>). The remote calls are inputs: each
  round of the reconnect loop gets the results of dialling, of registering and of its heartbeats,
  and whether the client has been stopped when the round waits. Times are in nanoseconds.
\<close>

section \<open>Messages\<close>

record PolicyUpdate =
  pu_UserId :: string
  pu_BandwidthMbps :: int
  pu_QuotaMb :: int
  pu_Revoke :: bool

record HeartbeatRequest =
  hq_NodeId :: string
  hq_Token :: string
  hq_ActiveSessions :: int
  hq_TotalBytesIn :: int
  hq_TotalBytesOut :: int

record HeartbeatResponse =
  hr_ConfigUpdated :: bool
  hr_Command :: string
  hr_Policies :: "PolicyUpdate list"

section \<open>The client\<close>

text \<open>Which of the callbacks are set.\<close>

record handlers =
  hd_onConfigUpdate :: bool
  hd_onCommand :: bool
  hd_onPolicyUpdate :: bool

record ControlClient =
  cl_cfg :: ControllerConfig
  cl_nodeID :: string
  cl_nodeType :: string
  cl_token :: string
  cl_conn :: bool
  cl_cancelled :: bool
  cl_handlers :: handlers

definition NewControlClient :: "ControllerConfig \<Rightarrow> string \<Rightarrow> string \<Rightarrow> ControlClient" where
  "NewControlClient cfg nodeID nodeType =
     \<lparr>cl_cfg = cfg, cl_nodeID = nodeID, cl_nodeType = nodeType, cl_token = [], cl_conn = False, cl_cancelled = False,
      cl_handlers = \<lparr>hd_onConfigUpdate = False, hd_onCommand = False, hd_onPolicyUpdate = False\<rparr>\<rparr>"

definition SetHandlers :: "bool \<Rightarrow> bool \<Rightarrow> bool \<Rightarrow> ControlClient \<Rightarrow> ControlClient" where
  "SetHandlers cfgFn cmdFn polyFn c =
     c\<lparr>cl_handlers := \<lparr>hd_onConfigUpdate = cfgFn, hd_onCommand = cmdFn, hd_onPolicyUpdate = polyFn\<rparr>\<rparr>"

definition register :: "string res \<Rightarrow> ControlClient \<Rightarrow> error option \<times> ControlClient" where
  "register resp c = (case resp of Inl e \<Rightarrow> (Some e, c) | Inr token \<Rightarrow> (None, c\<lparr>cl_token := token\<rparr>))"

definition getContext :: "ControlClient \<Rightarrow> string \<times> string" where
  "getContext c = (''authorization'', ''Bearer '' @ cl_token c)"

definition heartbeat_request :: "metrics \<Rightarrow> ControlClient \<Rightarrow> HeartbeatRequest" where
  "heartbeat_request mt c = \<lparr>hq_NodeId = cl_nodeID c, hq_Token = cl_token c, hq_ActiveSessions = GetActiveSessions mt,
     hq_TotalBytesIn = mt_totalBytesIn mt, hq_TotalBytesOut = mt_totalBytesOut mt\<rparr>"

text \<open>What a response makes the client do with the callbacks that are set, in the order of the code.\<close>

datatype action = FetchConfig | RunCommand string | ApplyPolicies "PolicyUpdate list"

definition heartbeat_actions :: "handlers \<Rightarrow> HeartbeatResponse \<Rightarrow> action list" where
  "heartbeat_actions hs resp =
     (if hr_ConfigUpdated resp \<and> hd_onConfigUpdate hs then [FetchConfig] else [])
     @ (if hr_Command resp \<noteq> [] \<and> hd_onCommand hs then [RunCommand (hr_Command resp)] else [])
     @ (if hr_Policies resp \<noteq> [] \<and> hd_onPolicyUpdate hs then [ApplyPolicies (hr_Policies resp)] else [])"

text \<open>The loop ends at the first failed heartbeat, or when there is none left to answer.\<close>

fun heartbeatLoop :: "handlers \<Rightarrow> HeartbeatResponse res list \<Rightarrow> action list" where
  "heartbeatLoop hs [] = []"
| "heartbeatLoop hs (Inl e # rs) = []"
| "heartbeatLoop hs (Inr resp # rs) = heartbeat_actions hs resp @ heartbeatLoop hs rs"

definition fetchAndApplyConfig :: "(bytes \<Rightarrow> Config res) \<Rightarrow> bytes res \<Rightarrow> Config option" where
  "fetchAndApplyConfig unmarshal resp = (case res_bind resp unmarshal of Inl e \<Rightarrow> None | Inr cfg \<Rightarrow> Some cfg)"

definition cl_Stop :: "ControlClient \<Rightarrow> ControlClient" where
  "cl_Stop c = c\<lparr>cl_cancelled := True, cl_conn := False\<rparr>"

section \<open>Reconnecting\<close>

record conn_round =
  ro_dial :: "error option"
  ro_register :: "string res"
  ro_beats :: "HeartbeatResponse res list"
  ro_stopped :: bool

definition second :: int where "second = 10 ^ 9"

definition connect_round :: "conn_round \<Rightarrow> int \<times> ControlClient \<Rightarrow> action list \<times> int \<times> ControlClient" where
  "connect_round r bc = (case bc of (backoff, c) \<Rightarrow>
     let c = c\<lparr>cl_conn := False\<rparr> in
     case ro_dial r of
       Some e \<Rightarrow> ([], backoff, c)
     | None \<Rightarrow> (case register (ro_register r) (c\<lparr>cl_conn := True\<rparr>) of
         (Some e, c') \<Rightarrow> ([], backoff, c')
       | (None, c') \<Rightarrow> (heartbeatLoop (cl_handlers c') (ro_beats r), second, c')))"

definition next_backoff :: "int \<Rightarrow> int" where
  "next_backoff b = (let b2 = int64 (b * 2) in if 60 * second < b2 then 60 * second else b2)"

text \<open>
  The loop over the rounds of a run: the waits it makes, what it does, and whether it returned. A
  run that is not stopped goes on after the last round given.
\<close>

fun reconnectLoop :: "conn_round list \<Rightarrow> int \<Rightarrow> ControlClient \<Rightarrow> int list \<times> action list \<times> bool \<times> ControlClient" where
  "reconnectLoop [] backoff c = ([], [], False, c)"
| "reconnectLoop (r # rs) backoff c = (case connect_round r (backoff, c) of (acts, b, c1) \<Rightarrow>
     if ro_stopped r then ([], acts, True, c1)
     else (case reconnectLoop rs (next_backoff b) c1 of (ws, acts2, fin, c2) \<Rightarrow> (b # ws, acts @ acts2, fin, c2)))"

definition control_Start :: "conn_round list \<Rightarrow> ControlClient \<Rightarrow> int list \<times> action list \<times> bool \<times> ControlClient" where
  "control_Start rs c = reconnectLoop rs (1 * second) c"

section \<open>Properties\<close>

definition registered :: "conn_round \<Rightarrow> bool" where
  "registered r \<longleftrightarrow> ro_dial r = None \<and> isl (ro_register r) = False"

definition in_backoff :: "int \<Rightarrow> bool" where
  "in_backoff b \<longleftrightarrow> second \<le> b \<and> b \<le> 60 * second"

lemma next_backoff_range: "in_backoff b \<Longrightarrow> in_backoff (next_backoff b) \<and> next_backoff b = min (2 * b) (60 * second)"
proof -
  assume b: "in_backoff b"
  then have "int64 (b * 2) = b * 2" by (intro int64_id) (simp add: in_backoff_def in_int64_def second_def)
  with b show ?thesis by (auto simp: next_backoff_def in_backoff_def Let_def second_def)
qed

lemma connect_round_backoff:
  assumes "connect_round r (b, c) = (acts, b', c')"
  shows "b' = (if registered r then second else b) \<and> (registered r \<longrightarrow> cl_token c' = projr (ro_register r))
    \<and> (\<not> registered r \<longrightarrow> acts = [] \<and> cl_token c' = cl_token c)"
  using assms by (auto simp: connect_round_def registered_def register_def Let_def isl_def split: option.splits sum.splits)

lemma reconnect_waits:
  assumes "reconnectLoop rs b c = (ws, acts, fin, c')" "in_backoff b" "i < length ws"
  shows "i < length rs \<and> in_backoff (ws ! i)
    \<and> ws ! i = (if registered (rs ! i) then second else if i = 0 then b else min (2 * ws ! (i - 1)) (60 * second))"
  using assms
proof (induction rs b c arbitrary: ws acts fin c' i rule: reconnectLoop.induct)
  case (2 r rs b c)
  obtain as b1 c1 where cr: "connect_round r (b, c) = (as, b1, c1)" by (metis prod.exhaust)
  have b1: "b1 = (if registered r then second else b)" "in_backoff b1"
    using connect_round_backoff [OF cr] 2(3) by (auto simp: in_backoff_def second_def)
  have ns: "\<not> ro_stopped r" using 2(2,4) cr by auto
  obtain ws2 as2 f2 c2 where rec: "reconnectLoop rs (next_backoff b1) c1 = (ws2, as2, f2, c2)" by (metis prod.exhaust)
  have ws: "ws = b1 # ws2" using 2(2) cr ns rec by simp
  show ?case
  proof (cases i)
    case 0
    with ws b1 show ?thesis by simp
  next
    case (Suc j)
    then have jl: "j < length ws2" using 2(4) ws by simp
    have "j < length rs \<and> in_backoff (ws2 ! j)
      \<and> ws2 ! j = (if registered (rs ! j) then second else if j = 0 then next_backoff b1 else min (2 * ws2 ! (j - 1)) (60 * second))"
      by (rule 2(1) [OF cr [symmetric] refl ns rec conjunct1 [OF next_backoff_range [OF b1(2)]] jl])
    then show ?thesis using ws Suc next_backoff_range [OF b1(2)] by (cases j) auto
  qed
qed simp

text \<open>
  C33: The client backs off exponentially between one second and one minute. In every run, each wait
  lies in that range; it is one second after a successful registration, and otherwise twice the
  previous wait, capped at one minute, starting from one second.
\<close>

theorem reconnect_backoff:
  assumes "control_Start rs c = (ws, acts, fin, c')" "i < length ws"
  shows "second \<le> ws ! i \<and> ws ! i \<le> 60 * second
    \<and> ws ! i = (if registered (rs ! i) \<or> i = 0 then second else min (2 * ws ! (i - 1)) (60 * second))"
  using reconnect_waits [of rs second c ws acts fin c' i] assms by (auto simp: control_Start_def in_backoff_def second_def)

definition demo_round :: "bool \<Rightarrow> conn_round" where
  "demo_round ok = \<lparr>ro_dial = None, ro_register = (if ok then Inr ''tok'' else Inl EOF), ro_beats = [Inl EOF], ro_stopped = False\<rparr>"

definition demo_controller :: ControllerConfig where
  "demo_controller = \<lparr>cc_Enabled = True, cc_Address = ''192.0.2.1:9000'', cc_Insecure = False, cc_CertFile = ''c'', cc_KeyFile = ''k'', cc_CAFile = ''a''\<rparr>"

theorem reconnect_backoff_witness:
  "\<exists>ws acts fin c'. control_Start [demo_round False, demo_round False, demo_round True] (NewControlClient demo_controller ''n'' ''relay'') = (ws, acts, fin, c')
    \<and> ws ! 1 = 2 * second \<and> ws ! 2 = second"
proof -
  obtain ws acts fin c' where r: "control_Start [demo_round False, demo_round False, demo_round True] (NewControlClient demo_controller ''n'' ''relay'')
      = (ws, acts, fin, c')" by (metis prod.exhaust)
  then have "length ws = 3" by (auto simp: control_Start_def connect_round_def register_def demo_round_def Let_def)
  with reconnect_backoff [OF r, of 0] reconnect_backoff [OF r, of 1] reconnect_backoff [OF r, of 2] r
  show ?thesis by (simp add: registered_def demo_round_def second_def)
qed

text \<open>What the controller asked for in a round: the answers before the first failed heartbeat.\<close>

definition round_actions :: "handlers \<Rightarrow> conn_round \<Rightarrow> action list" where
  "round_actions hs r = (if registered r then concat (map (\<lambda>x. heartbeat_actions hs (projr x)) (takeWhile (\<lambda>x. \<not> isl x) (ro_beats r))) else [])"

lemma heartbeatLoop_spec: "heartbeatLoop hs rs = concat (map (\<lambda>x. heartbeat_actions hs (projr x)) (takeWhile (\<lambda>x. \<not> isl x) rs))"
  by (induction hs rs rule: heartbeatLoop.induct) simp_all

lemma connect_round_actions: "connect_round r (b, c) = (acts, b', c') \<Longrightarrow> acts = round_actions (cl_handlers c) r"
  by (auto simp: connect_round_def round_actions_def registered_def register_def heartbeatLoop_spec Let_def isl_def
      split: option.splits sum.splits)

lemma connect_round_ids: "connect_round r (b, c) = (acts, b', c') \<Longrightarrow> cl_nodeID c' = cl_nodeID c \<and> cl_cfg c' = cl_cfg c \<and> cl_handlers c' = cl_handlers c"
  by (auto simp: connect_round_def register_def Let_def split: option.splits sum.splits)

text \<open>
  C32: The client does what the controller says and nothing else. Over a run, its actions are those
  asked for, and for which there is a callback, in the heartbeat answers of the rounds that registered, in order, up to the first
  failed heartbeat of each; the loop returns exactly when a round finds the client stopped; and
  afterwards the client uses the token of its last registration.
\<close>

theorem control_actions:
  assumes "reconnectLoop rs b c = (ws, acts, fin, c')"
  shows "acts = concat (map (round_actions (cl_handlers c)) (take (length ws + (if fin then 1 else 0)) rs))
    \<and> (fin \<longleftrightarrow> (\<exists>r \<in> set rs. ro_stopped r)) \<and> length ws = length (takeWhile (\<lambda>r. \<not> ro_stopped r) rs)
    \<and> cl_nodeID c' = cl_nodeID c
    \<and> cl_token c' = (case filter registered (take (length ws + (if fin then 1 else 0)) rs) of [] \<Rightarrow> cl_token c | ys \<Rightarrow> projr (ro_register (last ys)))"
  using assms
proof (induction rs b c arbitrary: ws acts fin c' rule: reconnectLoop.induct)
  case (2 r rs b c)
  obtain as b1 c1 where cr: "connect_round r (b, c) = (as, b1, c1)" by (metis prod.exhaust)
  note a = connect_round_actions [OF cr] connect_round_ids [OF cr] connect_round_backoff [OF cr]
  show ?case
  proof (cases "ro_stopped r")
    case True
    then show ?thesis using 2(2) cr a by auto
  next
    case False
    obtain ws2 as2 f2 c2 where rec: "reconnectLoop rs (next_backoff b1) c1 = (ws2, as2, f2, c2)" by (metis prod.exhaust)
    have eq: "ws = b1 # ws2" "acts = as @ as2" "fin = f2" "c' = c2" using 2(2) cr False rec by simp_all
    show ?thesis using 2(1) [OF cr [symmetric] refl False rec] False a eq by (auto split: list.splits)
  qed
qed simp

theorem control_actions_witness:
  "\<exists>ws acts fin c'. reconnectLoop [demo_round False, (demo_round True)\<lparr>ro_beats := [Inr \<lparr>hr_ConfigUpdated = True, hr_Command = ''shutdown'', hr_Policies = []\<rparr>, Inl EOF]\<rparr>]
      second (SetHandlers True True False (NewControlClient demo_controller ''n'' ''relay'')) = (ws, acts, fin, c')
    \<and> acts = [FetchConfig, RunCommand ''shutdown''] \<and> cl_token c' = ''tok''"
proof -
  let ?rs = "[demo_round False, (demo_round True)\<lparr>ro_beats := [Inr \<lparr>hr_ConfigUpdated = True, hr_Command = ''shutdown'', hr_Policies = []\<rparr>, Inl EOF]\<rparr>]"
  obtain ws acts fin c' where r: "reconnectLoop ?rs second (SetHandlers True True False (NewControlClient demo_controller ''n'' ''relay'')) = (ws, acts, fin, c')" by (metis prod.exhaust)
  with control_actions [OF r] show ?thesis
    by (auto simp: round_actions_def registered_def demo_round_def heartbeat_actions_def SetHandlers_def)
qed

end
