(* ===== verification/Agent.thy ===== *)
theory Agent
  imports HTTP_Inbound UDP_Inbounds Resolver Transport Control
begin

text \<open>
  The agent (\<^verbatim>\<open>internal/agent/agent.go\<close>, \<^verbatim>\<open>udp_manager.go\<close>, \<^verbatim>\<open>datagram_router.go\<close>): its state and
  every operation. The agent owns the router and the resolver: the router keeps a
  pointer to the resolver, so its resolver field only says that there is one, and routing looks at
  the agent's. The router is nil until \<^verbatim>\<open>Start\<close> creates it; the model has an empty one from the
  beginning, which nothing uses before. Association lists stand for Go maps; their order is not observable.
\<close>

section \<open>Tables by session id\<close>

text \<open>The contract of the agent's two tables, and what follows for a sequence of entries.\<close>

locale registry =
  fixes empty :: 't and add :: "string \<Rightarrow> 'v \<Rightarrow> 't \<Rightarrow> 't" and get :: "string \<Rightarrow> 't \<Rightarrow> 'v option"
    and remove :: "string \<Rightarrow> 't \<Rightarrow> 't"
  assumes get_empty: "get k empty = None"
    and get_add: "get k (add k' v t) = (if k = k' then Some v else get k t)"
    and get_remove: "get k (remove k' t) = (if k = k' then None else get k t)"
begin

lemma last_add_wins: "get k (fold (\<lambda>(k, v). add k v) kvs t) = (case map_of (rev kvs) k of Some v \<Rightarrow> Some v | None \<Rightarrow> get k t)"
  by (induction kvs arbitrary: t) (auto simp: get_add split: option.splits prod.splits)

end

record UDPSession =
  ud_Conn :: string
  ud_ClientAddr :: string

type_synonym udp_table = "(string \<times> UDPSession) list"

definition udp_New :: udp_table where
  "udp_New = []"

definition udp_Add :: "string \<Rightarrow> UDPSession \<Rightarrow> udp_table \<Rightarrow> udp_table" where
  "udp_Add sessionID session m = AList.update sessionID session m"

definition udp_Get :: "string \<Rightarrow> udp_table \<Rightarrow> UDPSession option" where
  "udp_Get sessionID m = map_of m sessionID"

definition udp_Remove :: "string \<Rightarrow> udp_table \<Rightarrow> udp_table" where
  "udp_Remove sessionID m = AList.delete sessionID m"

interpretation ut: registry udp_New udp_Add udp_Get udp_Remove
  by unfold_locales (auto simp: udp_New_def udp_Add_def udp_Get_def udp_Remove_def AList.update_conv' AList.delete_conv')

definition NewDatagramRouter :: "(string \<times> 'c) list" where
  "NewDatagramRouter = []"

definition dg_Register :: "string \<Rightarrow> 'c \<Rightarrow> (string \<times> 'c) list \<Rightarrow> (string \<times> 'c) list" where
  "dg_Register sessionID conn r = AList.update sessionID conn r"

definition dg_Get :: "string \<Rightarrow> (string \<times> 'c) list \<Rightarrow> 'c option" where
  "dg_Get sessionID r = map_of r sessionID"

definition dg_Unregister :: "string \<Rightarrow> (string \<times> 'c) list \<Rightarrow> (string \<times> 'c) list" where
  "dg_Unregister sessionID r = AList.delete sessionID r"

interpretation dg: registry NewDatagramRouter dg_Register dg_Get dg_Unregister
  by unfold_locales (auto simp: NewDatagramRouter_def dg_Register_def dg_Get_def dg_Unregister_def AList.update_conv' AList.delete_conv')

section \<open>State\<close>

datatype InboundHandler =
  InSocks5 Socks5Handler
| InHTTP HTTPProxyHandler
| InTCPForward TCPForwardHandler
| InTCPBalance TCPBalanceHandler
| InUDPForward UDPForwardHandler
| InUDPRange UDPRangeHandler
| InRedirect RedirectHandler
| InTProxy TProxyHandler

record Agent =
  ag_cm :: ConfigManager
  ag_state :: int
  ag_stopped :: bool
  ag_activeInbounds :: "(string \<times> InboundHandler) list"
  ag_router :: "unit BaseRouter"
  ag_dns :: "SmartResolver option"
  ag_control :: "ControlClient option"
  ag_certManager :: "(bytes, bytes) CertManager option"
  ag_quicServer :: "(string \<times> ObfsConfig) option"
  ag_adminServer :: "string option"
  ag_limiterManager :: LimiterManager
  ag_quotaManager :: QuotaManager
  ag_udpSessions :: udp_table

definition agent_New :: "Config \<Rightarrow> Agent" where
  "agent_New cfg = \<lparr>ag_cm = NewConfigManager cfg, ag_state = 0, ag_stopped = False, ag_activeInbounds = [], ag_router = NewRouter,
     ag_dns = None, ag_control = None, ag_certManager = None, ag_quicServer = None, ag_adminServer = None,
     ag_limiterManager = NewLimiterManager (li_PerUserBandwidthMBps (cf_Limits cfg)), ag_quotaManager = NewQuotaManager,
     ag_udpSessions = udp_New\<rparr>"

text \<open>Routing as the inbounds see it.\<close>

definition agent_Route :: "((string \<times> OutboundHandler) list \<Rightarrow> (string \<times> OutboundHandler) list) \<Rightarrow> Agent \<Rightarrow> session_meta \<Rightarrow> OutboundHandler res" where
  "agent_Route ord a meta = Route ord (\<lambda>_ ip. case ag_dns a of None \<Rightarrow> Inl (GoPanic ''nil pointer dereference'') | Some d \<Rightarrow> ResolveFakeIP d ip) (ag_router a) meta"

section \<open>Applying a configuration\<close>

text \<open>The handler of one outbound; asking a missing certificate manager for a configuration panics.\<close>

definition outbound_of :: "bool \<Rightarrow> OutboundConfig \<Rightarrow> OutboundHandler option res" where
  "outbound_of haveCerts c =
     (if oo_Protocol c = ''direct'' then Inr (Some (Direct (NewDirectHandler (oo_Name c) (oo_Group c))))
      else if oo_Protocol c = ''npchain'' \<and> oo_Transport c = ''quic'' then
        (if haveCerts then Inr (Some (NPChain (NewNPChainHandler (oo_Name c) (oo_Group c) (oo_Address c) (oo_Transport c) (oo_Obfuscation c) (oo_MultiPath c))))
         else Inl (GoPanic ''nil pointer dereference''))
      else Inr None)"

fun add_outbounds :: "bool \<Rightarrow> OutboundConfig list \<Rightarrow> 'r BaseRouter \<Rightarrow> 'r BaseRouter res" where
  "add_outbounds haveCerts [] r = Inr r"
| "add_outbounds haveCerts (c # cs) r = res_bind (outbound_of haveCerts c) (\<lambda>h.
     add_outbounds haveCerts cs (case h of None \<Rightarrow> r | Some handler \<Rightarrow> AddOutbound handler r))"

definition applyConfigToRouter :: "Config \<Rightarrow> Agent \<Rightarrow> Agent res" where
  "applyConfigToRouter cfg a = res_bind (add_outbounds (ag_certManager a \<noteq> None) (cf_Outbounds cfg) (ag_router a)) (\<lambda>r.
     Inr (a\<lparr>ag_router := UpdateRules (rc_Rules (cf_Routing cfg)) r\<rparr>))"

definition inbound_key :: "InboundConfig \<Rightarrow> string" where
  "inbound_key c = ic_Protocol c @ ''-'' @ ic_Listen c"

definition newInboundMap :: "Config \<Rightarrow> (string \<times> InboundConfig) list" where
  "newInboundMap cfg = fold (\<lambda>c m. AList.update (inbound_key c) c m) (cf_Inbounds cfg) []"

definition target_setting :: "InboundConfig \<Rightarrow> string" where
  "target_setting c = (case map_of (ic_Settings c) ''target'' of Some (SString s) \<Rightarrow> s | _ \<Rightarrow> [])"

fun string_items :: "setting list \<Rightarrow> string list" where
  "string_items [] = []"
| "string_items (SString s # xs) = s # string_items xs"
| "string_items (x # xs) = string_items xs"

definition targets_setting :: "InboundConfig \<Rightarrow> string list" where
  "targets_setting c = (case map_of (ic_Settings c) ''targets'' of Some (SList xs) \<Rightarrow> string_items xs | _ \<Rightarrow> [])"

definition make_inbound :: "InboundConfig \<Rightarrow> InboundHandler option" where
  "make_inbound c = (let p = ic_Protocol c in
     if p = ''socks5'' then Some (InSocks5 (NewSocks5Handler (ic_Listen c) (ic_ProxyProtocol c) (ic_Auth c)))
     else if p = ''http'' then Some (InHTTP (NewHTTPProxyHandler (ic_Listen c) (ic_ProxyProtocol c) (ic_Auth c)))
     else if p = ''tcp-forward'' then Some (InTCPForward (NewTCPForwardHandler (ic_Listen c) (ic_ProxyProtocol c) (target_setting c)))
     else if p = ''tcp-balance'' then Some (InTCPBalance (NewTCPBalanceHandler (ic_Listen c) (ic_ProxyProtocol c) (targets_setting c)))
     else if p = ''udp-forward'' then Some (InUDPForward (NewUDPForwardHandler (ic_Listen c) (target_setting c)))
     else if p = ''udp-range'' then Some (InUDPRange (NewUDPRangeHandler (ic_Listen c) (target_setting c)))
     else if p = ''redirect'' then Some (InRedirect (NewRedirectHandler (ic_Listen c) (ic_ProxyProtocol c)))
     else if p = ''tproxy'' then Some (InTProxy (NewTProxyHandler (ic_Listen c) (ic_ProxyProtocol c)))
     else None)"

text \<open>Starting the new inbounds: the handlers started, and the active ones.\<close>

fun start_inbounds :: "(string \<times> InboundConfig) list \<Rightarrow> (string \<times> InboundHandler) list \<Rightarrow> InboundHandler list \<times> (string \<times> InboundHandler) list" where
  "start_inbounds [] active = ([], active)"
| "start_inbounds ((key, c) # cs) active = (case (map_of active key, make_inbound c) of
     (None, Some h) \<Rightarrow> (case start_inbounds cs (AList.update key h active) of (hs, active') \<Rightarrow> (h # hs, active'))
   | _ \<Rightarrow> start_inbounds cs active)"

text \<open>\<^verbatim>\<open>syncInbounds\<close>: the handlers stopped, those started, and the new state.\<close>

definition syncInbounds :: "Config \<Rightarrow> Agent \<Rightarrow> (InboundHandler list \<times> InboundHandler list) \<times> Agent" where
  "syncInbounds cfg a =
     (let new = newInboundMap cfg;
          kept = filter (\<lambda>e. map_of new (fst e) \<noteq> None) (ag_activeInbounds a);
          stopped = map snd (filter (\<lambda>e. map_of new (fst e) = None) (ag_activeInbounds a)) in
      case start_inbounds new kept of (started, active) \<Rightarrow> ((stopped, started), a\<lparr>ag_activeInbounds := active\<rparr>))"

text \<open>The callback that runs after every update of the configuration.\<close>

definition on_update :: "Config \<Rightarrow> Agent \<Rightarrow> Agent res" where
  "on_update cfg a = res_bind (applyConfigToRouter cfg a) (\<lambda>a. Inr (snd (syncInbounds cfg a)))"

definition ApplyConfig :: "Config \<Rightarrow> Agent \<Rightarrow> (error option \<times> (nat \<times> Config) list) \<times> Agent" where
  "ApplyConfig cfg a = (case cm_Update cfg (ag_cm a) of (r, cm) \<Rightarrow> (r, a\<lparr>ag_cm := cm\<rparr>))"

section \<open>Starting and stopping\<close>

text \<open>\<^verbatim>\<open>Start\<close> drops the error of \<^verbatim>\<open>EnableFakeIP\<close>, but not its panic.\<close>

definition start_fakeip :: "FakeIPConfig \<Rightarrow> SmartResolver \<Rightarrow> SmartResolver res" where
  "start_fakeip fi d =
     (if \<not> fi_Enabled fi then Inr d
      else case EnableFakeIP (if fi_Range fi = [] then ''198.18.0.0/16'' else fi_Range fi) d of
        (Some (GoPanic s), _) \<Rightarrow> Inl (GoPanic s)
      | (_, d') \<Rightarrow> Inr d')"

definition start_dns :: "Config \<Rightarrow> SmartResolver res" where
  "start_dns cfg = res_bind (start_fakeip (rc_FakeIP (cf_Routing cfg)) NewSmartResolver) (\<lambda>d.
     let d = fold (AddUpstreamByString ''local'') (rc_DNSUpstreams (cf_Routing cfg)) d in
     Inr (AddUpstreamByString ''remote'' ''https://dns.google/dns-query'' (AddUpstreamByString ''remote'' ''8.8.8.8:53'' d)))"

definition startHTTPServices :: "Config \<Rightarrow> Agent \<Rightarrow> Agent" where
  "startHTTPServices cfg a =
     (if nc_AdminAddr (cf_Node cfg) = [] then a else a\<lparr>ag_adminServer := Some (nc_AdminAddr (cf_Node cfg))\<rparr>)"

definition start_control :: "Config \<Rightarrow> Agent \<Rightarrow> Agent res" where
  "start_control cfg a =
     (if \<not> cc_Enabled (cf_Controller cfg) then Inr a
      else if ag_certManager a = None then Inl (GoPanic ''nil pointer dereference'')
      else Inr (a\<lparr>ag_control := Some (SetHandlers True True True (NewControlClient (cf_Controller cfg) (nc_ID (cf_Node cfg)) (nc_Type (cf_Node cfg))))\<rparr>))"

definition relay_obfs :: "Config \<Rightarrow> ObfsConfig" where
  "relay_obfs cfg = (case find (\<lambda>c. ic_Protocol c = ''npchain'') (cf_Inbounds cfg) of
     Some c \<Rightarrow> ic_Obfuscation c | None \<Rightarrow> \<lparr>oc_Type = [], oc_MaxPad = 0, oc_Interval = 0, oc_DummySize = 0\<rparr>)"

definition start_quic :: "Config \<Rightarrow> Agent \<Rightarrow> Agent" where
  "start_quic cfg a =
     (if nc_Type (cf_Node cfg) \<in> {''relay'', ''egress'', ''ingress''} then
        a\<lparr>ag_quicServer := Some (case cf_Inbounds cfg of [] \<Rightarrow> ''0.0.0.0:443'' | c # _ \<Rightarrow> ic_Listen c, relay_obfs cfg)\<rparr>
      else a)"

text \<open>\<open>certs\<close> is the result of \<^verbatim>\<open>NewCertManager\<close>, whose error is dropped.\<close>

definition agent_Start :: "(bytes, bytes) CertManager res \<Rightarrow> Agent \<Rightarrow> (error option \<times> Agent) res" where
  "agent_Start certs a =
     (if ag_state a \<noteq> 0 then Inr (Some (New ''agent already running''), a)
      else
        let cfg = cm_Get (ag_cm a) in
        res_bind (start_dns cfg) (\<lambda>dns.
        let a1 = a\<lparr>ag_state := 1, ag_certManager := (case certs of Inl e \<Rightarrow> None | Inr cm \<Rightarrow> Some cm),
              ag_router := SetResolver () NewRouter, ag_dns := Some dns\<rparr> in
        res_bind (applyConfigToRouter cfg a1) (\<lambda>a2.
        let a3 = startHTTPServices cfg (snd (syncInbounds cfg a2));
            a4 = a3\<lparr>ag_cm := cm_Subscribe (ag_cm a3)\<rparr> in
        res_bind (start_control cfg a4) (\<lambda>a5. Inr (None, start_quic cfg a5)))))"

text \<open>\<^verbatim>\<open>Stop\<close> calls the cancel function that \<^verbatim>\<open>Start\<close> stores.\<close>

definition agent_Stop :: "Agent \<Rightarrow> Agent res" where
  "agent_Stop a =
     (if ag_state a = 0 then Inl (GoPanic ''nil pointer dereference'')
      else Inr (a\<lparr>ag_stopped := True, ag_control := map_option cl_Stop (ag_control a), ag_adminServer := None\<rparr>))"

section \<open>Remote control\<close>

definition handleRemoteCommand :: "string \<Rightarrow> Agent \<Rightarrow> Agent res" where
  "handleRemoteCommand cmd a = (if cmd = ''shutdown'' then agent_Stop a else Inr a)"

definition policy_one :: "PolicyUpdate \<Rightarrow> Agent \<Rightarrow> Agent" where
  "policy_one p a =
     (if pu_Revoke p then a
      else
        let a1 = (if 0 < pu_BandwidthMbps p then a\<lparr>ag_limiterManager := lm_Update (pu_UserId p) (pu_BandwidthMbps p) (ag_limiterManager a)\<rparr> else a) in
        if 0 < pu_QuotaMb p then a1\<lparr>ag_quotaManager := SetLimit (pu_UserId p) (int64 (pu_QuotaMb p * 1024 * 1024)) (ag_quotaManager a1)\<rparr> else a1)"

fun handlePolicyUpdate :: "PolicyUpdate list \<Rightarrow> Agent \<Rightarrow> Agent" where
  "handlePolicyUpdate [] a = a"
| "handlePolicyUpdate (p # ps) a = handlePolicyUpdate ps (policy_one p a)"

text \<open>A datagram that arrives at the QUIC server: the packet written to a client, if any.\<close>

definition handle_datagram :: "(bytes \<Rightarrow> string) \<Rightarrow> bytes \<Rightarrow> Agent \<Rightarrow> (string \<times> string \<times> bytes) option" where
  "handle_datagram ustr dat a = (case UnpackDatagram ustr dat of
     Inl e \<Rightarrow> None
   | Inr (sid, payload) \<Rightarrow> map_option (\<lambda>s. (ud_Conn s, ud_ClientAddr s, payload)) (udp_Get sid (ag_udpSessions a)))"

section \<open>Administration\<close>

text \<open>The paths the admin server handles.\<close>

definition admin_paths :: "string list" where
  "admin_paths = [''/status'', ''/config'', ''/connections'', ''/connections/close'', ''/users/kick'', ''/dns/flush'',
     ''/users/quota/reset'', ''/logs'', ''/metrics'']"

record admin_status =
  as_node_id :: string
  as_node_type :: string
  as_version :: string
  as_active_sessions :: int
  as_total_bytes_in :: int
  as_total_bytes_out :: int
  as_state :: int

definition handleAdminStatus :: "metrics \<Rightarrow> Agent \<Rightarrow> admin_status" where
  "handleAdminStatus mt a = (let cfg = cm_Get (ag_cm a) in
     \<lparr>as_node_id = nc_ID (cf_Node cfg), as_node_type = nc_Type (cf_Node cfg), as_version = ''2.0'', as_active_sessions = GetActiveSessions mt,
      as_total_bytes_in = mt_totalBytesIn mt, as_total_bytes_out = mt_totalBytesOut mt, as_state = ag_state a\<rparr>)"

text \<open>
  A response: its status and its body; kicking returns the sessions whose context is cancelled.
  \<^verbatim>\<open>http.Error\<close> ends its text with a line break.
\<close>

definition http_Error :: "string \<Rightarrow> nat \<Rightarrow> nat \<times> string" where
  "http_Error msg code = (code, msg @ [char_of (10 :: nat)])"

definition handleAdminKick :: "string \<Rightarrow> session_map \<Rightarrow> (nat \<times> string) \<times> string list" where
  "handleAdminKick sid m = (case map_of m sid of
     Some s \<Rightarrow> ((200, ''Session closed''), [sid]) | None \<Rightarrow> (http_Error ''Session not found'' 404, []))"

definition handleAdminKickUser :: "string \<Rightarrow> session_map \<Rightarrow> (nat \<times> string) \<times> string list" where
  "handleAdminKickUser userID m =
     ((200, ''User connections closed''), map fst (filter (\<lambda>e. si_UserID (snd e) = userID) m))"

definition handleAdminConnections :: "session_map \<Rightarrow> SessionInfo list" where
  "handleAdminConnections m = map snd m"

definition handleAdminDNSFlush :: "Agent \<Rightarrow> (nat \<times> string) \<times> Agent" where
  "handleAdminDNSFlush a = (case ag_dns a of
     Some d \<Rightarrow> ((200, ''DNS cache flushed''), a\<lparr>ag_dns := Some (Flush d)\<rparr>)
   | None \<Rightarrow> (http_Error ''DNS resolver not initialized'' 500, a))"

definition handleAdminQuotaReset :: "string \<Rightarrow> Agent \<Rightarrow> (nat \<times> string) \<times> Agent" where
  "handleAdminQuotaReset userID a = ((200, ''Quota reset''), a\<lparr>ag_quotaManager := quota_Reset userID (ag_quotaManager a)\<rparr>)"

definition handleAdminLogs :: "fsys \<Rightarrow> Agent \<Rightarrow> nat \<times> string" where
  "handleAdminLogs fs a = (let logPath = lc_Path (ob_Logging (cf_Observability (cm_Get (ag_cm a)))) in
     if logPath = [] then http_Error ''Log path not configured'' 404
     else (case map_of (fs_files fs) logPath of
         None \<Rightarrow> http_Error (''Failed to read logs: open '' @ logPath @ '': no such file or directory'') 500
       | Some d \<Rightarrow> let lines = Split (string_of_bytes d) [char_of (10 :: nat)] in
           (200, Join (drop (length lines - 100) lines) [char_of (10 :: nat)])))"

definition handleAdminConfig :: "Agent \<Rightarrow> Config" where
  "handleAdminConfig a = cm_Get (ag_cm a)"

section \<open>What an update leaves behind\<close>

lemma find_rev_Cons: "find P (rev (x # xs)) = (case find P (rev xs) of Some y \<Rightarrow> Some y | None \<Rightarrow> if P x then Some x else None)"
proof -
  have "find P (ys @ [x]) = (case find P ys of Some y \<Rightarrow> Some y | None \<Rightarrow> if P x then Some x else None)" for ys
    by (induction ys) auto
  then show ?thesis by simp
qed

lemma fold_update_lookup:
  "map_of (fold (\<lambda>c m. AList.update (key c) c m) cs m) k
    = (case find (\<lambda>c. key c = k) (rev cs) of Some c \<Rightarrow> Some c | None \<Rightarrow> map_of m k)"
proof (induction cs arbitrary: m)
  case (Cons c cs)
  then show ?case by (auto simp: find_rev_Cons AList.update_conv' split: option.splits simp del: rev.simps)
qed simp

lemma newInboundMap_lookup: "map_of (newInboundMap cfg) k = find (\<lambda>c. inbound_key c = k) (rev (cf_Inbounds cfg))"
  by (simp add: newInboundMap_def fold_update_lookup split: option.splits)

lemma newInboundMap_distinct: "distinct (map fst (newInboundMap cfg))"
proof -
  have "distinct (map fst m) \<Longrightarrow> distinct (map fst (fold (\<lambda>c m. AList.update (inbound_key c) c m) cs m))" for cs m
    by (induction cs arbitrary: m) (auto simp: distinct_update)
  then show ?thesis by (simp add: newInboundMap_def)
qed

lemma map_of_filter_key: "map_of (filter (\<lambda>e. P (fst e)) xs) k = (if P k then map_of xs k else None)"
  by (induction xs) auto

lemma start_inbounds_lookup:
  assumes "distinct (map fst cs)"
  shows "map_of (snd (start_inbounds cs active)) k = (case map_of active k of
      Some h \<Rightarrow> Some h | None \<Rightarrow> (case map_of cs k of Some c \<Rightarrow> make_inbound c | None \<Rightarrow> None))"
  using assms
proof (induction cs arbitrary: active)
  case (Cons x cs)
  obtain key c where x: "x = (key, c)" by (cases x)
  have nk: "map_of cs key = None" using Cons.prems x by (simp add: map_of_eq_None_iff)
  have d: "distinct (map fst cs)" using Cons.prems by simp
  show ?case
  proof (cases "map_of active key = None \<and> make_inbound c \<noteq> None")
    case True
    then obtain h where h: "make_inbound c = Some h" "map_of active key = None" by blast
    then have "snd (start_inbounds (x # cs) active) = snd (start_inbounds cs (AList.update key h active))"
      by (simp add: x split: prod.splits)
    then show ?thesis using Cons.IH [OF d, of "AList.update key h active"] h nk
      by (cases "k = key") (simp_all add: x AList.update_conv' cong: option.case_cong)
  next
    case False
    then have "snd (start_inbounds (x # cs) active) = snd (start_inbounds cs active)" by (auto simp: x split: option.splits)
    then show ?thesis using Cons.IH [OF d, of active] False nk by (cases "k = key") (auto simp: x split: option.splits)
  qed
qed (simp split: option.splits)

lemma syncInbounds_lookup:
  "map_of (ag_activeInbounds (snd (syncInbounds cfg a))) k = (case find (\<lambda>c. inbound_key c = k) (rev (cf_Inbounds cfg)) of
     None \<Rightarrow> None
   | Some c \<Rightarrow> (case map_of (ag_activeInbounds a) k of Some h \<Rightarrow> Some h | None \<Rightarrow> make_inbound c))"
proof -
  let ?kept = "filter (\<lambda>e. map_of (newInboundMap cfg) (fst e) \<noteq> None) (ag_activeInbounds a)"
  have "ag_activeInbounds (snd (syncInbounds cfg a)) = snd (start_inbounds (newInboundMap cfg) ?kept)"
    by (simp add: syncInbounds_def Let_def split: prod.splits)
  moreover have "map_of ?kept k = (if map_of (newInboundMap cfg) k \<noteq> None then map_of (ag_activeInbounds a) k else None)"
    by (rule map_of_filter_key)
  ultimately show ?thesis
    using start_inbounds_lookup [OF newInboundMap_distinct [of cfg], of ?kept k]
    by (cases "find (\<lambda>c. inbound_key c = k) (rev (cf_Inbounds cfg))") (simp_all add: newInboundMap_lookup cong: option.case_cong)
qed

lemma syncInbounds_frame: "ag_router (snd (syncInbounds cfg a)) = ag_router a" "ag_cm (snd (syncInbounds cfg a)) = ag_cm a"
    "ag_certManager (snd (syncInbounds cfg a)) = ag_certManager a" "ag_state (snd (syncInbounds cfg a)) = ag_state a"
    "ag_dns (snd (syncInbounds cfg a)) = ag_dns a"
  by (simp_all add: syncInbounds_def Let_def split: prod.splits)

definition supported :: "OutboundConfig \<Rightarrow> bool" where
  "supported c \<longleftrightarrow> oo_Protocol c = ''direct'' \<or> oo_Protocol c = ''npchain'' \<and> oo_Transport c = ''quic''"

definition configured :: "OutboundConfig \<Rightarrow> OutboundHandler" where
  "configured c = (if oo_Protocol c = ''direct'' then Direct (NewDirectHandler (oo_Name c) (oo_Group c))
     else NPChain (NewNPChainHandler (oo_Name c) (oo_Group c) (oo_Address c) (oo_Transport c) (oo_Obfuscation c) (oo_MultiPath c)))"

lemma outbound_of_cases:
  "outbound_of certs c = (if supported c then if certs \<or> oo_Protocol c = ''direct'' then Inr (Some (configured c))
     else Inl (GoPanic ''nil pointer dereference'') else Inr None)"
  by (auto simp: outbound_of_def supported_def configured_def)

lemma configured_name: "out_Name (configured c) = oo_Name c"
  by (simp add: configured_def NewDirectHandler_def NewNPChainHandler_def)

lemma add_outbounds_lookup:
  assumes "add_outbounds certs cs r = Inr r'"
  shows "map_of (br_outbounds r') n = (case find (\<lambda>c. oo_Name c = n \<and> supported c) (rev cs) of
      Some c \<Rightarrow> Some (configured c) | None \<Rightarrow> map_of (br_outbounds r) n)
    \<and> br_geoip r' = br_geoip r \<and> br_resolver r' = br_resolver r"
  using assms
proof (induction certs cs r rule: add_outbounds.induct)
  case (2 certs c cs r)
  then obtain h where h: "outbound_of certs c = Inr h" by (cases "outbound_of certs c") auto
  show ?case
    using 2(1) [of h] 2(2) h
    by (auto simp: find_rev_Cons outbound_of_cases AddOutbound_def AList.update_conv' configured_name
        split: option.splits if_splits simp del: rev.simps)
qed simp

lemma add_outbounds_err: "add_outbounds certs cs r = Inl e \<Longrightarrow> \<exists>s. e = GoPanic s"
  by (induction cs arbitrary: r) (auto simp: outbound_of_def split: if_splits)

lemma add_outbounds_crash:
  assumes "c \<in> set cs" "oo_Protocol c = ''npchain''" "oo_Transport c = ''quic''"
  shows "\<exists>s. add_outbounds False cs r = Inl (GoPanic s)"
  using assms(1)
proof (induction cs arbitrary: r)
  case (Cons d cs)
  show ?case
  proof (cases "outbound_of False d")
    case (Inl e)
    then show ?thesis by (auto simp: outbound_of_def split: if_splits)
  next
    case (Inr h)
    then have "d \<noteq> c" using assms(2,3) by (auto simp: outbound_of_def)
    with Cons Inr show ?thesis by auto
  qed
qed simp

lemma update_inbounds_lookup:
  assumes "on_update cfg a = Inr a'"
  shows "map_of (ag_activeInbounds a') k = (case find (\<lambda>c. inbound_key c = k) (rev (cf_Inbounds cfg)) of
     None \<Rightarrow> None
   | Some c \<Rightarrow> (case map_of (ag_activeInbounds a) k of Some h \<Rightarrow> Some h | None \<Rightarrow> make_inbound c))"
proof -
  obtain a1 where a1: "applyConfigToRouter cfg a = Inr a1" "a' = snd (syncInbounds cfg a1)"
    using assms by (auto simp: on_update_def res_bind_def split: sum.splits)
  then have act: "ag_activeInbounds a1 = ag_activeInbounds a"
    by (auto simp: applyConfigToRouter_def res_bind_def split: sum.splits)
  show ?thesis unfolding a1(2) syncInbounds_lookup act by (rule refl)
qed

lemma update_router_lookup:
  assumes "on_update cfg a = Inr a'"
  shows "br_rules (ag_router a') = rc_Rules (cf_Routing cfg)
    \<and> map_of (br_outbounds (ag_router a')) n = (case find (\<lambda>c. oo_Name c = n \<and> supported c) (rev (cf_Outbounds cfg)) of
        Some c \<Rightarrow> Some (configured c) | None \<Rightarrow> map_of (br_outbounds (ag_router a)) n)"
proof -
  obtain r where r: "add_outbounds (ag_certManager a \<noteq> None) (cf_Outbounds cfg) (ag_router a) = Inr r"
      "ag_router a' = UpdateRules (rc_Rules (cf_Routing cfg)) r"
    using assms by (auto simp: on_update_def applyConfigToRouter_def res_bind_def syncInbounds_frame split: sum.splits)
  with add_outbounds_lookup [OF r(1), of n] show ?thesis by (simp add: UpdateRules_def)
qed

section \<open>Properties\<close>

text \<open>
  Which inbounds run after an update. For every key \<open>protocol-listen\<close>: nothing runs when the new
  configuration has no such inbound; a handler that was running goes on as it is, so a changed
  user list, target or obfuscation of the same listener is not applied; otherwise the handler of
  the last inbound configured with that key is started.
\<close>

theorem agent_update_inbounds:
  assumes "on_update cfg a = Inr a'"
  shows "map_of (ag_activeInbounds a') k = (case find (\<lambda>c. inbound_key c = k) (rev (cf_Inbounds cfg)) of
     None \<Rightarrow> None
   | Some c \<Rightarrow> (case map_of (ag_activeInbounds a) k of Some h \<Rightarrow> Some h | None \<Rightarrow> make_inbound c))"
  by (rule update_inbounds_lookup [OF assms])

text \<open>
  What routing looks like after an update. The rules are exactly the configured ones; an outbound
  name leads to the last supported outbound configured with it; and a name that is no longer
  configured keeps its old handler, so removed outbounds stay reachable.
\<close>

theorem agent_update_router:
  assumes "on_update cfg a = Inr a'"
  shows "br_rules (ag_router a') = rc_Rules (cf_Routing cfg)
    \<and> map_of (br_outbounds (ag_router a')) n = (case find (\<lambda>c. oo_Name c = n \<and> supported c) (rev (cf_Outbounds cfg)) of
        Some c \<Rightarrow> Some (configured c) | None \<Rightarrow> map_of (br_outbounds (ag_router a)) n)"
  by (rule update_router_lookup [OF assms])

definition demo_inbound :: "string \<Rightarrow> InboundConfig" where
  "demo_inbound user = \<lparr>ic_Protocol = ''socks5'', ic_Listen = ''127.0.0.1:1080'', ic_Transport = [], ic_ProxyProtocol = False, ic_Obfuscation = demo_obfs,
     ic_Auth = \<lparr>au_Enabled = True, au_Users = [\<lparr>ua_Username = user, ua_Password = ''pw''\<rparr>]\<rparr>, ic_WSPath = [], ic_WSHeader = [], ic_Settings = []\<rparr>"

definition demo_outbound :: "string \<Rightarrow> string \<Rightarrow> OutboundConfig" where
  "demo_outbound name proto = \<lparr>oo_Name = name, oo_Protocol = proto, oo_Group = ''g'', oo_Address = ''192.0.2.9:443'', oo_Transport = ''quic'', oo_Obfuscation = demo_obfs,
     oo_MultiPath = False, oo_TLSSNI = [], oo_WSPath = [], oo_WSHeader = [], oo_Settings = []\<rparr>"

definition demo_cfg :: "InboundConfig list \<Rightarrow> OutboundConfig list \<Rightarrow> Config" where
  "demo_cfg ins outs = (demo_config ''n1'')\<lparr>cf_Inbounds := ins, cf_Outbounds := outs\<rparr>"

lemma demo_cfg_simps [simp]: "cf_Inbounds (demo_cfg ins outs) = ins" "cf_Outbounds (demo_cfg ins outs) = outs"
  "rc_Rules (cf_Routing (demo_cfg ins outs)) = []" "cc_Enabled (cf_Controller (demo_cfg ins outs)) = False"
  "fi_Enabled (rc_FakeIP (cf_Routing (demo_cfg ins outs))) = False"
  by (simp_all add: demo_cfg_def demo_config_def)

lemma on_update_direct:
  assumes "\<forall>c \<in> set (cf_Outbounds cfg). oo_Protocol c \<noteq> ''npchain''"
  shows "\<exists>a'. on_update cfg a = Inr a'"
proof -
  have "\<exists>r'. add_outbounds certs cs r = Inr r'" if "\<forall>c \<in> set cs. oo_Protocol c \<noteq> ''npchain''" for certs cs and r :: "unit BaseRouter"
    using that by (induction cs arbitrary: r) (auto simp: outbound_of_def)
  then obtain r' where "add_outbounds (ag_certManager a \<noteq> None) (cf_Outbounds cfg) (ag_router a) = Inr r'" using assms by blast
  then show ?thesis by (simp add: on_update_def applyConfigToRouter_def)
qed

text \<open>The user list of a running listener is replaced in the configuration, and the old one stays in force.\<close>

theorem agent_update_inbounds_witness:
  "\<exists>a1 a2. on_update (demo_cfg [demo_inbound ''ann''] []) (agent_New (demo_config ''n1'')) = Inr a1 \<and> on_update (demo_cfg [demo_inbound ''bob''] []) a1 = Inr a2
    \<and> map_of (ag_activeInbounds a2) ''socks5-127.0.0.1:1080'' = make_inbound (demo_inbound ''ann'')"
proof -
  have u: "\<exists>a'. on_update (demo_cfg [demo_inbound x] []) a = Inr a'" for x a by (rule on_update_direct) simp
  obtain a1 where a1: "on_update (demo_cfg [demo_inbound ''ann''] []) (agent_New (demo_config ''n1'')) = Inr a1" using u by blast
  obtain a2 where a2: "on_update (demo_cfg [demo_inbound ''bob''] []) a1 = Inr a2" using u by blast
  have k: "inbound_key (demo_inbound x) = ''socks5-127.0.0.1:1080''" for x by (simp add: inbound_key_def demo_inbound_def)
  have "make_inbound (demo_inbound ''ann'') \<noteq> None" by (simp add: make_inbound_def demo_inbound_def)
  moreover have "map_of (ag_activeInbounds (agent_New (demo_config ''n1''))) x = None" for x by (simp add: agent_New_def)
  ultimately have "map_of (ag_activeInbounds a2) ''socks5-127.0.0.1:1080'' = make_inbound (demo_inbound ''ann'')"
    using agent_update_inbounds [OF a1, of "''socks5-127.0.0.1:1080''"] agent_update_inbounds [OF a2, of "''socks5-127.0.0.1:1080''"] by (auto simp: k)
  with a1 a2 show ?thesis by blast
qed

theorem agent_update_router_witness:
  "\<exists>a1 a2. on_update (demo_cfg [] [demo_outbound ''gone'' ''direct'']) (agent_New (demo_config ''n1'')) = Inr a1
    \<and> on_update (demo_cfg [] []) a1 = Inr a2
    \<and> map_of (br_outbounds (ag_router a2)) ''gone'' = Some (configured (demo_outbound ''gone'' ''direct''))"
proof -
  obtain a1 where a1: "on_update (demo_cfg [] [demo_outbound ''gone'' ''direct'']) (agent_New (demo_config ''n1'')) = Inr a1"
    using on_update_direct [of "demo_cfg [] [demo_outbound ''gone'' ''direct'']"] by (auto simp: demo_outbound_def)
  obtain a2 where a2: "on_update (demo_cfg [] []) a1 = Inr a2" using on_update_direct [of "demo_cfg [] []"] by auto
  have "oo_Name (demo_outbound ''gone'' ''direct'') = ''gone''" "supported (demo_outbound ''gone'' ''direct'')" by (simp_all add: demo_outbound_def supported_def)
  then have "map_of (br_outbounds (ag_router a2)) ''gone'' = Some (configured (demo_outbound ''gone'' ''direct''))"
    using agent_update_router [OF a1, of "''gone''"] agent_update_router [OF a2, of "''gone''"] by simp
  with a1 a2 show ?thesis by blast
qed

lemma start_dns_err: "start_dns cfg = Inl e \<Longrightarrow> \<exists>s. e = GoPanic s"
  by (auto simp: start_dns_def start_fakeip_def res_bind_def Let_def split: if_splits prod.splits option.splits error.splits sum.splits)

lemma fold_upstreams_fakeip: "sr_fakeIPEnabled (fold (AddUpstreamByString g) us d) = sr_fakeIPEnabled d"
  by (induction us arbitrary: d) (simp_all add: AddUpstreamByString_def Let_def)

lemma start_dns_plain:
  assumes "\<not> fi_Enabled (rc_FakeIP (cf_Routing cfg))"
  shows "\<exists>d. start_dns cfg = Inr d \<and> (\<forall>ip. ResolveFakeIP d ip = Inr None)"
  using assms fold_upstreams_fakeip [of "''local''" "rc_DNSUpstreams (cf_Routing cfg)" NewSmartResolver]
  by (simp add: start_dns_def start_fakeip_def ResolveFakeIP_def AddUpstreamByString_def NewSmartResolver_def Let_def)

text \<open>
  A node without certificates does not report an error but crashes. The error of loading the
  certificates is dropped; when the configuration enables the controller or has a QUIC NP-Chain
  outbound, starting the agent then dereferences a nil certificate manager.
\<close>

theorem agent_start_needs_certs:
  assumes "ag_state a = 0"
    and "cc_Enabled (cf_Controller (cm_Get (ag_cm a)))
      \<or> (\<exists>c \<in> set (cf_Outbounds (cm_Get (ag_cm a))). oo_Protocol c = ''npchain'' \<and> oo_Transport c = ''quic'')"
  shows "\<exists>s. agent_Start (Inl e) a = Inl (GoPanic s)"
proof -
  let ?cfg = "cm_Get (ag_cm a)"
  show ?thesis
  proof (cases "start_dns ?cfg")
    case (Inl err)
    then show ?thesis using assms(1) start_dns_err [OF Inl] by (auto simp: agent_Start_def Let_def)
  next
    case dns: (Inr d)
    show ?thesis
    proof (cases "add_outbounds False (cf_Outbounds ?cfg) (SetResolver () NewRouter)")
      case (Inl err)
      moreover have "\<exists>s. err = GoPanic s" by (rule add_outbounds_err [OF Inl])
      ultimately show ?thesis using assms(1) dns by (auto simp: agent_Start_def applyConfigToRouter_def Let_def)
    next
      case (Inr r)
      then have "cc_Enabled (cf_Controller ?cfg)" using assms(2) add_outbounds_crash [of _ "cf_Outbounds ?cfg" "SetResolver () NewRouter"] by auto
      then show ?thesis using assms(1) dns Inr
        by (auto simp: agent_Start_def applyConfigToRouter_def start_control_def startHTTPServices_def syncInbounds_frame Let_def)
    qed
  qed
qed

theorem agent_start_needs_certs_witness:
  "\<exists>s. agent_Start (Inl EOF) (agent_New (demo_cfg [] [demo_outbound ''px'' ''npchain''])) = Inl (GoPanic s)"
proof -
  have "ag_state (agent_New x) = 0" "cm_Get (ag_cm (agent_New x)) = x" for x by (simp_all add: agent_New_def cm_Get_def NewConfigManager_def)
  then show ?thesis using agent_start_needs_certs [of "agent_New (demo_cfg [] [demo_outbound ''px'' ''npchain''])" EOF]
    by (simp add: demo_outbound_def)
qed

lemma agent_Start_New:
  assumes "agent_Start certs (agent_New cfg) = Inr (e, a)"
  shows "\<exists>d a1. start_dns cfg = Inr d
    \<and> on_update cfg ((agent_New cfg)\<lparr>ag_state := 1, ag_certManager := (case certs of Inl e \<Rightarrow> None | Inr cm \<Rightarrow> Some cm),
      ag_router := SetResolver () NewRouter, ag_dns := Some d\<rparr>) = Inr a1
    \<and> e = None \<and> ag_activeInbounds a = ag_activeInbounds a1 \<and> ag_router a = ag_router a1 \<and> ag_state a = 1
    \<and> ag_dns a = Some d \<and> ag_cm a = cm_Subscribe (NewConfigManager cfg)"
proof -
  have c: "ag_state (agent_New cfg) = 0" "cm_Get (ag_cm (agent_New cfg)) = cfg" "ag_cm (agent_New cfg) = NewConfigManager cfg"
    by (simp_all add: agent_New_def cm_Get_def NewConfigManager_def)
  obtain d where d: "start_dns cfg = Inr d"
    using assms c by (cases "start_dns cfg") (auto simp: agent_Start_def Let_def)
  let ?a1 = "(agent_New cfg)\<lparr>ag_state := 1, ag_certManager := (case certs of Inl e \<Rightarrow> None | Inr cm \<Rightarrow> Some cm),
      ag_router := SetResolver () NewRouter, ag_dns := Some d\<rparr>"
  obtain a2 where a2: "applyConfigToRouter cfg ?a1 = Inr a2"
    using assms c d by (cases "applyConfigToRouter cfg ?a1") (auto simp: agent_Start_def Let_def)
  let ?a3 = "startHTTPServices cfg (snd (syncInbounds cfg a2))"
  have "res_bind (start_control cfg (?a3\<lparr>ag_cm := cm_Subscribe (ag_cm ?a3)\<rparr>)) (\<lambda>a5. Inr (None, start_quic cfg a5)) = Inr (e, a)"
    using assms c d a2 by (simp add: agent_Start_def Let_def)
  then obtain a5 where a5: "start_control cfg (?a3\<lparr>ag_cm := cm_Subscribe (ag_cm ?a3)\<rparr>) = Inr a5" "e = None" "a = start_quic cfg a5"
    by (cases "start_control cfg (?a3\<lparr>ag_cm := cm_Subscribe (ag_cm ?a3)\<rparr>)") auto
  have 2: "ag_cm a2 = NewConfigManager cfg" "ag_state a2 = 1" "ag_dns a2 = Some d"
    using a2 c by (auto simp: applyConfigToRouter_def res_bind_def split: sum.splits)
  have 3: "ag_cm ?a3 = NewConfigManager cfg" "ag_state ?a3 = 1" "ag_dns ?a3 = Some d"
      "ag_router ?a3 = ag_router (snd (syncInbounds cfg a2))" "ag_activeInbounds ?a3 = ag_activeInbounds (snd (syncInbounds cfg a2))"
    using 2 by (simp_all add: startHTTPServices_def syncInbounds_frame)
  have "ag_cm a = cm_Subscribe (NewConfigManager cfg)" "ag_state a = 1" "ag_dns a = Some d"
      "ag_router a = ag_router ?a3" "ag_activeInbounds a = ag_activeInbounds ?a3"
    using a5 3(1-3) by (auto simp: start_control_def start_quic_def split: if_splits)
  with d a2 a5(2) 3 show ?thesis by (simp add: on_update_def)
qed

text \<open>
  C28: A started agent runs its configuration. When \<^verbatim>\<open>Start\<close> returns, it returned no error; the rules are
  the configured ones, every outbound name leads to the last supported outbound configured with it
  and to nothing otherwise, exactly the supported inbounds run, one subscriber waits for updates,
  and a second \<^verbatim>\<open>Start\<close> is refused without any effect.
\<close>

theorem agent_start_applies_config:
  assumes "agent_Start certs (agent_New cfg) = Inr (e, a)"
  shows "e = None \<and> br_rules (ag_router a) = rc_Rules (cf_Routing cfg) \<and> cm_subs (ag_cm a) = 1
    \<and> map_of (br_outbounds (ag_router a)) n = map_option configured (find (\<lambda>c. oo_Name c = n \<and> supported c) (rev (cf_Outbounds cfg)))
    \<and> map_of (ag_activeInbounds a) k = (case find (\<lambda>c. inbound_key c = k) (rev (cf_Inbounds cfg)) of None \<Rightarrow> None | Some c \<Rightarrow> make_inbound c)
    \<and> agent_Start certs' a = Inr (Some (New ''agent already running''), a)"
proof -
  let ?a0 = "\<lambda>d. (agent_New cfg)\<lparr>ag_state := 1, ag_certManager := (case certs of Inl e \<Rightarrow> None | Inr cm \<Rightarrow> Some cm),
      ag_router := SetResolver () NewRouter, ag_dns := Some d\<rparr>"
  obtain d a1 where a1: "on_update cfg (?a0 d) = Inr a1" "e = None" "ag_activeInbounds a = ag_activeInbounds a1" "ag_router a = ag_router a1"
      "ag_state a = 1" "ag_cm a = cm_Subscribe (NewConfigManager cfg)"
    using agent_Start_New [OF assms] by blast
  have "map_of (ag_activeInbounds (?a0 d)) k = None" "map_of (br_outbounds (ag_router (?a0 d))) n = None"
    by (simp_all add: agent_New_def NewRouter_def SetResolver_def)
  then show ?thesis
    using a1 update_inbounds_lookup [OF a1(1), of k] update_router_lookup [OF a1(1), of n]
    by (auto simp: agent_Start_def cm_Subscribe_def NewConfigManager_def split: option.splits)
qed

theorem agent_start_applies_config_witness:
  "\<exists>a. agent_Start (Inl EOF) (agent_New (demo_cfg [demo_inbound ''ann''] [demo_outbound ''d'' ''direct''])) = Inr (None, a)
    \<and> map_of (ag_activeInbounds a) ''socks5-127.0.0.1:1080'' = make_inbound (demo_inbound ''ann'')
    \<and> map_of (br_outbounds (ag_router a)) ''d'' = Some (configured (demo_outbound ''d'' ''direct''))"
proof -
  let ?cfg = "demo_cfg [demo_inbound ''ann''] [demo_outbound ''d'' ''direct'']"
  have c: "ag_state (agent_New ?cfg) = 0" "cm_Get (ag_cm (agent_New ?cfg)) = ?cfg" by (simp_all add: agent_New_def cm_Get_def NewConfigManager_def)
  have o1: "oo_Name (demo_outbound ''d'' ''direct'') = ''d''" "supported (demo_outbound ''d'' ''direct'')" "oo_Protocol (demo_outbound ''d'' ''direct'') = ''direct''"
    by (simp_all add: demo_outbound_def supported_def)
  obtain e a where s: "agent_Start (Inl EOF) (agent_New ?cfg) = Inr (e, a)"
    using c o1 start_dns_plain [of ?cfg]
    by (auto simp: agent_Start_def applyConfigToRouter_def outbound_of_def start_control_def Let_def)
  have k: "inbound_key (demo_inbound ''ann'') = ''socks5-127.0.0.1:1080''" by (simp add: inbound_key_def demo_inbound_def)
  show ?thesis
    using agent_start_applies_config [OF s, of "''d''" "''socks5-127.0.0.1:1080''"] s k o1 by simp
qed

section \<open>Policies, logs and datagrams\<close>

lemma GetOrCreate_Update:
  "u \<noteq> [] \<Longrightarrow> fst (GetOrCreate u (lm_Update v mbps m)) = (if u = v then NewBandwidthLimiter (int64 (mbps * 1024 * 1024)) else fst (GetOrCreate u m))"
  by (auto simp: GetOrCreate_def lm_Update_def AList.update_conv' Let_def split: option.splits)

lemma policy_one_quota: "GetStatus u (ag_quotaManager (policy_one p a)) = (fst (GetStatus u (ag_quotaManager a)),
    if pu_UserId p = u \<and> \<not> pu_Revoke p \<and> 0 < pu_QuotaMb p then int64 (pu_QuotaMb p * 1024 * 1024) else snd (GetStatus u (ag_quotaManager a)))"
  by (auto simp: policy_one_def GetStatus_def SetLimit_def Let_def)

lemma policy_one_limiter: "u \<noteq> [] \<Longrightarrow> fst (GetOrCreate u (ag_limiterManager (policy_one p a)))
    = (if pu_UserId p = u \<and> \<not> pu_Revoke p \<and> 0 < pu_BandwidthMbps p then NewBandwidthLimiter (int64 (pu_BandwidthMbps p * 1024 * 1024))
       else fst (GetOrCreate u (ag_limiterManager a)))"
  by (auto simp: policy_one_def GetOrCreate_Update Let_def)

text \<open>
  What policies from the controller change. For every user, the traffic limit is the last positive
  quota among the policies for that user that do not revoke, and the old limit without one; the
  limiter for new sessions follows the last positive bandwidth in the same way; usage is never
  changed. A policy that revokes a user changes nothing at all.
\<close>

theorem agent_policy_update:
  assumes "u \<noteq> []"
  shows "snd (GetStatus u (ag_quotaManager (handlePolicyUpdate ps a)))
      = (case find (\<lambda>p. pu_UserId p = u \<and> \<not> pu_Revoke p \<and> 0 < pu_QuotaMb p) (rev ps) of
          Some p \<Rightarrow> int64 (pu_QuotaMb p * 1024 * 1024) | None \<Rightarrow> snd (GetStatus u (ag_quotaManager a)))
    \<and> fst (GetOrCreate u (ag_limiterManager (handlePolicyUpdate ps a)))
      = (case find (\<lambda>p. pu_UserId p = u \<and> \<not> pu_Revoke p \<and> 0 < pu_BandwidthMbps p) (rev ps) of
          Some p \<Rightarrow> NewBandwidthLimiter (int64 (pu_BandwidthMbps p * 1024 * 1024)) | None \<Rightarrow> fst (GetOrCreate u (ag_limiterManager a)))
    \<and> fst (GetStatus u (ag_quotaManager (handlePolicyUpdate ps a))) = fst (GetStatus u (ag_quotaManager a))"
proof (induction ps arbitrary: a)
  case (Cons p ps)
  show ?case unfolding handlePolicyUpdate.simps find_rev_Cons
    using Cons.IH [of "policy_one p a"] policy_one_quota [of u p a] policy_one_limiter [OF assms, of p a]
    by (auto split: option.splits if_splits)
qed simp

theorem agent_policy_update_witness:
  "snd (GetStatus ''ann'' (ag_quotaManager (handlePolicyUpdate
     [\<lparr>pu_UserId = ''ann'', pu_BandwidthMbps = 0, pu_QuotaMb = 5, pu_Revoke = False\<rparr>, \<lparr>pu_UserId = ''ann'', pu_BandwidthMbps = 1, pu_QuotaMb = 9, pu_Revoke = True\<rparr>]
     (agent_New (demo_config ''n1''))))) = 5 * 1024 * 1024"
  using agent_policy_update [of "''ann''" "[\<lparr>pu_UserId = ''ann'', pu_BandwidthMbps = 0, pu_QuotaMb = 5, pu_Revoke = False\<rparr>,
      \<lparr>pu_UserId = ''ann'', pu_BandwidthMbps = 1, pu_QuotaMb = 9, pu_Revoke = True\<rparr>]" "agent_New (demo_config ''n1'')"]
  by (simp add: int64_id in_int64_def)

lemma Join_Cons: "xs \<noteq> [] \<Longrightarrow> Join (x # xs) sep = x @ sep @ Join xs sep"
  by (cases xs) simp_all

lemma split_on_ne: "split_on [c] acc s \<noteq> []"
  by (induction "[c]" acc s rule: split_on.induct) simp_all

lemma split_on_Join: "Join (split_on [c] acc s) [c] = rev acc @ s"
proof (induction "[c]" acc s rule: split_on.induct)
  case (2 acc x xs)
  then show ?case by (auto simp: HasPrefix_def Join_Cons split_on_ne)
qed simp

lemma split_on_sep_free: "x \<in> set (split_on [c] acc s) \<Longrightarrow> c \<notin> set acc \<Longrightarrow> c \<notin> set x"
  by (induction "[c]" acc s arbitrary: x rule: split_on.induct) (auto simp: HasPrefix_def split: if_splits)

lemma Join_drop_suffix: "\<exists>pre. Join xs sep = pre @ Join (drop n xs) sep"
proof (induction xs arbitrary: n)
  case (Cons x xs)
  show ?case
  proof (cases n)
    case (Suc k)
    obtain pre where "Join xs sep = pre @ Join (drop k xs) sep" using Cons by blast
    then show ?thesis using Suc by (cases "xs = []") (auto simp: Join_Cons)
  qed auto
qed simp

text \<open>
  The log page shows the end of the log. When the log can be read, the answer is a suffix of the
  file of at most 100 lines, and exactly the whole file when it has no more.
\<close>

theorem admin_logs_tail:
  assumes "lc_Path (ob_Logging (cf_Observability (cm_Get (ag_cm a)))) = path" "path \<noteq> []" "map_of (fs_files fs) path = Some d"
  shows "\<exists>body pre. handleAdminLogs fs a = (200, body) \<and> string_of_bytes d = pre @ body
    \<and> length (Split body [char_of (10 :: nat)]) = min 100 (length (Split (string_of_bytes d) [char_of (10 :: nat)]))"
proof -
  let ?c = "char_of (10 :: nat)" and ?s = "string_of_bytes d"
  let ?lines = "Split ?s [?c]"
  let ?tail = "drop (length ?lines - 100) ?lines"
  have ne: "?lines \<noteq> []" unfolding Split_def by (rule split_on_ne)
  have "?s = Join ?lines [?c]" by (simp add: Split_def split_on_Join)
  then obtain pre where pre: "?s = pre @ Join ?tail [?c]" using Join_drop_suffix by metis
  have "0 < length ?lines" using ne by blast
  then have "?tail \<noteq> []" unfolding drop_eq_Nil by linarith
  moreover have "?c \<notin> set x" if "x \<in> set ?tail" for x
    using that split_on_sep_free [of x ?c "[]" ?s] in_set_dropD [OF that] by (simp add: Split_def)
  ultimately have "Split (Join ?tail [?c]) [?c] = ?tail" by (rule Split_Join)
  moreover have "handleAdminLogs fs a = (200, Join ?tail [?c])" using assms by (simp add: handleAdminLogs_def Let_def)
  ultimately show ?thesis using pre by (intro exI [of _ "Join ?tail [?c]"] exI [of _ pre]) (simp add: min_def)
qed

definition demo_log_agent :: Agent where
  "demo_log_agent = agent_New ((demo_config ''n1'')\<lparr>cf_Observability := (cf_Observability (demo_config ''n1''))\<lparr>ob_Logging := \<lparr>lc_Level = [], lc_Format = [], lc_Path = ''np.log''\<rparr>\<rparr>\<rparr>)"

theorem admin_logs_tail_witness:
  "\<exists>body. handleAdminLogs \<lparr>fs_files = [(''np.log'', bytes_of_string ''started'')], fs_dirs = []\<rparr> demo_log_agent = (200, body)"
  using admin_logs_tail [of demo_log_agent "''np.log''" "\<lparr>fs_files = [(''np.log'', bytes_of_string ''started'')], fs_dirs = []\<rparr>"]
  by (auto simp: demo_log_agent_def agent_New_def cm_Get_def NewConfigManager_def)

text \<open>
  C23: The way back of a UDP session. When a packet of a client starts a session and the agent records
  it, a datagram the next node packs for that session id is written to exactly that client, on
  the socket its packet came in on, with the payload unchanged; datagrams of unknown sessions and
  truncated ones are dropped.
\<close>

theorem udp_return_path:
  assumes "uf_packet sv en dat client quota lm h = ((res, Some sid), quota', lm', h')"
    and "PackDatagram uparse sid payload = Inr raw" "uparse sid = Some i" "length i = 16" "ustr i = sid"
  shows "handle_datagram ustr raw (a\<lparr>ag_udpSessions := udp_Add sid \<lparr>ud_Conn = uf_listenAddr h, ud_ClientAddr = client\<rparr> (ag_udpSessions a)\<rparr>)
      = Some (uf_listenAddr h, client, payload)
    \<and> sid = sv_uuid sv \<and> (length short < 16 \<longrightarrow> handle_datagram ustr short a = None)
    \<and> (udp_Get (ustr j) (ag_udpSessions a) = None \<and> length j = 16 \<longrightarrow> handle_datagram ustr (j @ payload) a = None)"
proof -
  have "raw = i @ payload" using assms(2,3) by (simp add: PackDatagram_def)
  moreover have "sid = sv_uuid sv"
    using assms(1) by (auto simp: uf_packet_def udp_packet_def sm_GetOrCreate_def sm_insert_def Let_def
        split: prod.splits sum.splits error.splits option.splits if_splits)
  ultimately show ?thesis
    using assms(4,5) by (auto simp: handle_datagram_def UnpackDatagram_def ut.get_add)
qed

theorem udp_return_path_witness:
  "\<exists>sid lm' h'. uf_packet direct_services demo_entropy [1, 2] ''10.0.0.1:5000'' None (NewLimiterManager 1) (NewUDPForwardHandler ''0.0.0.0:53'' ''192.0.2.7:53'')
      = ((SentWrite None, Some sid), None, lm', h')
    \<and> handle_datagram string_of_bytes (bytes_of_string sid @ [7])
        ((agent_New (demo_config ''n1''))\<lparr>ag_udpSessions := udp_Add sid \<lparr>ud_Conn = ''0.0.0.0:53'', ud_ClientAddr = ''10.0.0.1:5000''\<rparr> []\<rparr>)
      = Some (''0.0.0.0:53'', ''10.0.0.1:5000'', [7])"
proof -
  let ?h = "NewUDPForwardHandler ''0.0.0.0:53'' ''192.0.2.7:53''"
  have route: "sv_route direct_services m = Inr (Direct (NewDirectHandler ''direct'' ''g''))" and uuid: "sv_uuid direct_services = ''0123456789abcdef''" for m
    by (simp_all add: direct_services_def demo_services_def)
  have "map_of (sm_sessions (uf_sm ?h)) ''10.0.0.1:5000'' = None" "quota_check ''anonymous'' (length [1, 2 :: byte]) None = (False, None)"
    by (simp_all add: NewUDPForwardHandler_def NewUDPSessionManager_def quota_check_def)
  note new = udp_packet_new [OF this route demo_direct_dial]
  have "net_write demo_entropy [1, 2] (Inl (peer_sends [])) = (None, Inl ((peer_sends [])\<lparr>outq := [1, 2]\<rparr>))"
    by (simp add: conn_write_def peer_sends_def)
  from new [OF _ this, of "''192.0.2.7:53''" "''10.0.0.1:5000''" "''0.0.0.0:53''" False] obtain m' where
    "udp_packet direct_services demo_entropy ''10.0.0.1:5000'' ''192.0.2.7:53'' ''10.0.0.1:5000'' ''0.0.0.0:53'' False ''anonymous'' [1, 2] None (uf_sm ?h)
      = ((SentWrite None, Some ''0123456789abcdef''), None, m')" by (auto simp: uuid)
  then have p: "\<exists>lm' h'. uf_packet direct_services demo_entropy [1, 2] ''10.0.0.1:5000'' None (NewLimiterManager 1) ?h
      = ((SentWrite None, Some ''0123456789abcdef''), None, lm', h')"
    by (simp add: uf_packet_def NewUDPForwardHandler_def)
  then obtain lm' h' where h': "uf_packet direct_services demo_entropy [1, 2] ''10.0.0.1:5000'' None (NewLimiterManager 1) ?h
      = ((SentWrite None, Some ''0123456789abcdef''), None, lm', h')" by blast
  have up: "demo_uparse ''0123456789abcdef'' = Some (bytes_of_string ''0123456789abcdef'')" by (simp add: demo_uparse_def)
  then have pk: "PackDatagram demo_uparse ''0123456789abcdef'' [7] = Inr (bytes_of_string ''0123456789abcdef'' @ [7])" by (simp add: PackDatagram_def)
  have "length (bytes_of_string ''0123456789abcdef'') = 16" by simp
  note r = conjunct1 [OF udp_return_path [where ustr = string_of_bytes and a = "agent_New (demo_config ''n1'')", OF h' pk up this string_bytes_inverse]]
  have "ag_udpSessions (agent_New (demo_config ''n1'')) = []" "uf_listenAddr ?h = ''0.0.0.0:53''"
    by (simp_all add: agent_New_def udp_New_def NewUDPForwardHandler_def)
  from r [unfolded this] h' show ?thesis by blast
qed

end
