(* ===== verification/Npctl.thy ===== *)
theory Npctl
  imports Agent
begin

text \<open>
  The command line client (\<^verbatim>\<open>cmd/npctl/main.go\<close>): the request each command sends to the admin
  server of an agent, and the configuration file it can generate.
\<close>

section \<open>Commands\<close>

datatype npctl_call =
  GetCall string
| PostCall string
| InitConfig string
| UsageExit string
| UnknownExit string

definition npctl_main :: "string \<Rightarrow> string \<Rightarrow> string \<Rightarrow> string \<Rightarrow> npctl_call" where
  "npctl_main addr cmd arg out =
     (if cmd = ''status'' then GetCall (addr @ ''/status'')
      else if cmd = ''config'' then GetCall (addr @ ''/config'')
      else if cmd = ''metrics'' then GetCall (addr @ ''/metrics'')
      else if cmd = ''logs'' then GetCall (addr @ ''/logs'')
      else if cmd = ''connections'' then GetCall (addr @ ''/connections'')
      else if cmd = ''kick'' then (if arg = [] then UsageExit ''Usage: npctl --cmd kick --id <session_id>'' else PostCall (addr @ ''/connections/close?id='' @ arg))
      else if cmd = ''kick-user'' then (if arg = [] then UsageExit ''Usage: npctl --cmd kick-user --id <user_id>'' else PostCall (addr @ ''/users/kick?user_id='' @ arg))
      else if cmd = ''dns-flush'' then PostCall (addr @ ''/dns/flush'')
      else if cmd = ''quota-reset'' then (if arg = [] then UsageExit ''Usage: npctl --cmd quota-reset --id <user_id>'' else PostCall (addr @ ''/users/quota/reset?user_id='' @ arg))
      else if cmd = ''init-config'' then InitConfig out
      else UnknownExit (''Unknown command: '' @ cmd))"

section \<open>The generated configuration\<close>

definition no_auth :: AuthConfig where "no_auth = \<lparr>au_Enabled = False, au_Users = []\<rparr>"

definition init_inbound :: InboundConfig where
  "init_inbound = \<lparr>ic_Protocol = ''socks5'', ic_Listen = ''127.0.0.1:1080'', ic_Transport = [], ic_ProxyProtocol = False,
     ic_Obfuscation = \<lparr>oc_Type = [], oc_MaxPad = 0, oc_Interval = 0, oc_DummySize = 0\<rparr>, ic_Auth = no_auth, ic_WSPath = [], ic_WSHeader = [], ic_Settings = []\<rparr>"

definition init_outbound :: "string \<Rightarrow> string \<Rightarrow> string \<Rightarrow> string \<Rightarrow> string \<Rightarrow> OutboundConfig" where
  "init_outbound name proto grp address transport = \<lparr>oo_Name = name, oo_Protocol = proto, oo_Group = grp, oo_Address = address, oo_Transport = transport,
     oo_Obfuscation = \<lparr>oc_Type = [], oc_MaxPad = 0, oc_Interval = 0, oc_DummySize = 0\<rparr>, oo_MultiPath = False, oo_TLSSNI = [], oo_WSPath = [],
     oo_WSHeader = [], oo_Settings = []\<rparr>"

definition init_rules :: "routing_rule list" where
  "init_rules = map (\<lambda>r. \<lparr>r_Type = r_Type r, r_Pattern = r_Pattern r, r_Outbound = r_Outbound r, r_OutboundGroup = [], r_Strategy = []\<rparr>)
     (GenerateDefaultSplitConfig ''proxy-node'')"

definition init_config :: Config where
  "init_config = \<lparr>cf_Version = ''2.0'', cf_Node = \<lparr>nc_ID = ''agent-auto'', nc_Type = ''ingress'', nc_AdminAddr = [], nc_Tags = []\<rparr>,
     cf_Controller = \<lparr>cc_Enabled = False, cc_Address = [], cc_Insecure = False, cc_CertFile = [], cc_KeyFile = [], cc_CAFile = []\<rparr>,
     cf_Inbounds = [init_inbound],
     cf_Outbounds = [init_outbound ''direct'' ''direct'' ''default'' [] [],
       init_outbound ''proxy-node'' ''np-chain'' [] ''YOUR_RELAY_IP:443'' ''quic''],
     cf_Routing = \<lparr>rc_Rules = init_rules, rc_DNSUpstreams = [], rc_DNSIsolationThreshold = 0, rc_FakeIP = \<lparr>fi_Enabled = False, fi_Range = []\<rparr>\<rparr>,
     cf_Observability = \<lparr>ob_Tracing = \<lparr>tc_Enabled = False, tc_Endpoint = [], tc_SampleRate = ''0''\<rparr>,
       ob_Metrics = \<lparr>mc_Enabled = True, mc_Listen = ''0.0.0.0:9090''\<rparr>, ob_Logging = \<lparr>lc_Level = ''info'', lc_Format = ''console'', lc_Path = []\<rparr>\<rparr>,
     cf_Limits = \<lparr>li_MaxBandwidthMBps = 0, li_PerUserBandwidthMBps = 0, li_SessionTrafficThreshold = 0\<rparr>\<rparr>"

text \<open>The file is written with the errors of marshalling and writing dropped.\<close>

definition generateInitConfig :: "(Config \<Rightarrow> bytes) \<Rightarrow> (string \<Rightarrow> string) \<Rightarrow> string \<Rightarrow> fsys \<Rightarrow> fsys" where
  "generateInitConfig marshal dirOf path fs = snd (WriteFile dirOf path (marshal init_config) fs)"

section \<open>Properties\<close>

text \<open>Every request of the client goes to a path the admin server handles.\<close>

lemma npctl_calls_known_paths:
  "npctl_main addr cmd arg out = GetCall url \<or> npctl_main addr cmd arg out = PostCall url
    \<Longrightarrow> \<exists>path \<in> set admin_paths. \<exists>query. url = addr @ path @ query"
  by (auto simp: npctl_main_def admin_paths_def split: if_splits)

lemma init_rules_eq: "init_rules = GenerateDefaultSplitConfig ''proxy-node''"
  by (simp add: init_rules_def GenerateDefaultSplitConfig_def split_rule_def)

lemma init_config_fields:
  "cf_Inbounds init_config = [init_inbound]" "rc_Rules (cf_Routing init_config) = init_rules" "cc_Enabled (cf_Controller init_config) = False"
  "cf_Outbounds init_config = [init_outbound ''direct'' ''direct'' ''default'' [] [], init_outbound ''proxy-node'' ''np-chain'' [] ''YOUR_RELAY_IP:443'' ''quic'']"
  "rc_FakeIP (cf_Routing init_config) = \<lparr>fi_Enabled = False, fi_Range = []\<rparr>" "rc_DNSUpstreams (cf_Routing init_config) = []"
  by (simp_all add: init_config_def)

lemma init_supported:
  "supported (init_outbound ''direct'' ''direct'' ''default'' [] [])" "\<not> supported (init_outbound ''proxy-node'' ''np-chain'' [] ''YOUR_RELAY_IP:443'' ''quic'')"
  "oo_Name (init_outbound n p g ad t) = n" "oo_Protocol (init_outbound n p g ad t) = p"
  by (simp_all add: init_outbound_def supported_def)

lemma init_dns: "\<exists>d. start_dns init_config = Inr d \<and> (\<forall>ip. ResolveFakeIP d ip = Inr None)"
  by (rule start_dns_plain) (simp add: init_config_fields)

text \<open>
  The generated configuration does not reach the proxy. An agent started with it comes up, with or
  without certificates; IPv4 targets in the three private blocks go direct, and every other one
  is refused with \<^verbatim>\<open>no available outbound\<close>, because the file names the protocol \<open>np-chain\<close> and the
  agent only knows \<open>npchain\<close>.
\<close>

theorem init_config_unroutable:
  assumes "m_Target meta = JoinHostPort (IP_String [a, b, c, d]) (nat_to_dec port)"
  shows "\<exists>ag. agent_Start certs (agent_New init_config) = Inr (None, ag)
    \<and> agent_Route ord ag meta = (if a = 127 \<or> a = 10 \<or> (a = 192 \<and> b = 168) then Inr (Direct (NewDirectHandler ''direct'' ''default'')) else Inl ErrNoAvailableOutbound)"
proof -
  have c: "ag_state (agent_New init_config) = 0" "cm_Get (ag_cm (agent_New init_config)) = init_config"
    by (simp_all add: agent_New_def cm_Get_def NewConfigManager_def)
  obtain dns where d: "start_dns init_config = Inr dns" "\<And>ip. ResolveFakeIP dns ip = Inr None" using init_dns by blast
  obtain e ag where s: "agent_Start certs (agent_New init_config) = Inr (e, ag)"
    by (simp add: agent_Start_def c d(1) applyConfigToRouter_def init_config_fields outbound_of_def init_supported start_control_def Let_def)
  obtain a1 where a1: "on_update init_config ((agent_New init_config)\<lparr>ag_state := 1, ag_certManager := (case certs of Inl e \<Rightarrow> None | Inr cm \<Rightarrow> Some cm),
        ag_router := SetResolver () NewRouter, ag_dns := Some dns\<rparr>) = Inr a1" "e = None" "ag_router ag = ag_router a1" "ag_dns ag = Some dns"
    using agent_Start_New [OF s] d(1) by auto
  note r = update_router_lookup [OF a1(1)]
  have rules: "br_rules (ag_router ag) = GenerateDefaultSplitConfig ''proxy-node''" using r by (simp add: a1(3) init_config_fields init_rules_eq)
  have dir: "map_of (br_outbounds (ag_router ag)) ''direct'' = Some (Direct (NewDirectHandler ''direct'' ''default''))"
    using r [of "''direct''"] by (simp add: a1(3) init_config_fields init_supported configured_def) (simp add: init_outbound_def)
  have px: "map_of (br_outbounds (ag_router ag)) ''proxy-node'' = None"
    using r [of "''proxy-node''"] by (simp add: a1(3) init_config_fields init_supported SetResolver_def NewRouter_def)
  have geo: "br_geoip (ag_router ag) = None"
    using a1(1,3) by (auto simp: on_update_def applyConfigToRouter_def res_bind_def syncInbounds_frame UpdateRules_def SetResolver_def NewRouter_def
        dest!: add_outbounds_lookup split: sum.splits)
  have host: "split_host (m_Target meta) = IP_String [a, b, c, d]" using assms IP_String_plain by (simp add: split_host_Join)
  have "restore_target (\<lambda>_ ip. ResolveFakeIP dns ip) (ag_router ag) (m_Target meta) = Inr (m_Target meta)"
    by (simp add: restore_target_def d(2) split: option.splits)
  then have route: "agent_Route ord ag meta = route_rules ord (ag_router ag) meta"
    by (simp add: agent_Route_def Route_def a1(4))
  have "route_rules ord (ag_router ag) meta = (if a = 127 \<or> a = 10 \<or> (a = 192 \<and> b = 168) then Inr (Direct (NewDirectHandler ''direct'' ''default'')) else Inl ErrNoAvailableOutbound)"
    using dir px by (simp add: route_rules_def rules geo GenerateDefaultSplitConfig_def private_v4_match [OF host] no_outbound_def)
      (simp add: split_rule_def)
  with s a1(2) route show ?thesis by simp
qed

theorem init_config_unroutable_witness:
  "\<exists>ag. agent_Start (Inl EOF) (agent_New init_config) = Inr (None, ag)
    \<and> agent_Route id ag (meta0\<lparr>m_Target := JoinHostPort (IP_String [8, 8, 8, 8]) (nat_to_dec 443)\<rparr>) = Inl ErrNoAvailableOutbound"
  using init_config_unroutable [of "meta0\<lparr>m_Target := JoinHostPort (IP_String [8, 8, 8, 8]) (nat_to_dec 443)\<rparr>" 8 8 8 8 443 "Inl EOF" id] by simp

end
