(* ===== verification/Admin.thy ===== *)
theory Admin
  imports Npctl
begin

text \<open>
  Administration end to end: a command of \<^verbatim>\<open>cmd/npctl/main.go\<close>, the request it sends, the dispatch of
  the admin server (\<^verbatim>\<open>startHTTPServices\<close> in \<^verbatim>\<open>internal/agent/agent.go\<close>), the handler, and what the
  command prints. The part of \<^verbatim>\<open>net/url\<close> and \<^verbatim>\<open>net/http\<close> between them is modelled for the URLs the
  command builds; the JSON and YAML encoders are parameters.
\<close>

section \<open>Queries\<close>

definition hex_val :: "char \<Rightarrow> nat option" where
  "hex_val c = (let n = (of_char c :: nat) in
     if 48 \<le> n \<and> n \<le> 57 then Some (n - 48)
     else if 97 \<le> n \<and> n \<le> 102 then Some (n - 87)
     else if 65 \<le> n \<and> n \<le> 70 then Some (n - 55)
     else None)"

text \<open>\<^verbatim>\<open>url.QueryUnescape\<close>.\<close>

fun QueryUnescape :: "string \<Rightarrow> string option" where
  "QueryUnescape [] = Some []"
| "QueryUnescape (c # s) =
     (if c = CHR ''%'' then
        (case s of
           a # b # r \<Rightarrow> (case (hex_val a, hex_val b) of
             (Some x, Some y) \<Rightarrow> map_option ((#) (char_of (16 * x + y))) (QueryUnescape r)
           | _ \<Rightarrow> None)
         | _ \<Rightarrow> None)
      else map_option ((#) (if c = CHR ''+'' then CHR '' '' else c)) (QueryUnescape s))"

text \<open>
  \<^verbatim>\<open>r.URL.Query()\<close>: the pairs between \<open>&\<close>; empty ones, those with a semicolon and those that do not
  unescape are left out. \<^verbatim>\<open>Get\<close> returns the first value of a key, or the empty string.
\<close>

definition query_pair :: "string \<Rightarrow> (string \<times> string) option" where
  "query_pair seg =
     (if seg = [] \<or> CHR '';'' \<in> set seg then None
      else
        let k = takeWhile (\<lambda>c. c \<noteq> CHR ''='') seg; v = drop 1 (dropWhile (\<lambda>c. c \<noteq> CHR ''='') seg) in
        (case (QueryUnescape k, QueryUnescape v) of (Some k', Some v') \<Rightarrow> Some (k', v') | _ \<Rightarrow> None))"

definition query_Get :: "string \<Rightarrow> string \<Rightarrow> string" where
  "query_Get key q = (case map_of (List.map_filter query_pair (Split q ''&'')) key of Some v \<Rightarrow> v | None \<Rightarrow> [])"

text \<open>The path and the query the server sees of a URL that starts with the address; the fragment is not sent.\<close>

definition url_request :: "string \<Rightarrow> string \<Rightarrow> string \<times> string" where
  "url_request addr url = (let r = drop (length addr) (takeWhile (\<lambda>c. c \<noteq> CHR ''#'') url) in
     (takeWhile (\<lambda>c. c \<noteq> CHR ''?'') r, drop 1 (dropWhile (\<lambda>c. c \<noteq> CHR ''?'') r)))"

section \<open>The admin server\<close>

record http_resp =
  hr_status :: nat
  hr_type :: string
  hr_body :: string

record admin_world =
  aw_agent :: Agent
  aw_sessions :: session_map
  aw_metrics :: metrics
  aw_fs :: fsys

text \<open>The encoders of the responses and the handler of the Prometheus library.\<close>

record encoders =
  ec_status :: "admin_status \<Rightarrow> string"
  ec_sessions :: "SessionInfo list \<Rightarrow> string"
  ec_config :: "Config \<Rightarrow> string"
  ec_metrics :: string

definition plain :: "nat \<times> string \<Rightarrow> http_resp" where
  "plain r = \<lparr>hr_status = fst r, hr_type = ''text/plain; charset=utf-8'', hr_body = snd r\<rparr>"

text \<open>
  One request: the response, the sessions whose context it cancels, and the new state. The mux
  does not look at the method.
\<close>

definition admin_serve :: "encoders \<Rightarrow> string \<Rightarrow> string \<Rightarrow> admin_world \<Rightarrow> http_resp \<times> string list \<times> admin_world" where
  "admin_serve ec path query w =
     (let a = aw_agent w in
      if path = ''/status'' then
        (\<lparr>hr_status = 200, hr_type = ''application/json'', hr_body = ec_status ec (handleAdminStatus (aw_metrics w) a)\<rparr>, [], w)
      else if path = ''/config'' then
        (\<lparr>hr_status = 200, hr_type = ''application/yaml'', hr_body = ec_config ec (handleAdminConfig a)\<rparr>, [], w)
      else if path = ''/connections'' then
        (\<lparr>hr_status = 200, hr_type = ''application/json'', hr_body = ec_sessions ec (handleAdminConnections (aw_sessions w))\<rparr>, [], w)
      else if path = ''/connections/close'' then
        (case handleAdminKick (query_Get ''id'' query) (aw_sessions w) of (r, cs) \<Rightarrow> (plain r, cs, w))
      else if path = ''/users/kick'' then
        (case handleAdminKickUser (query_Get ''user_id'' query) (aw_sessions w) of (r, cs) \<Rightarrow> (plain r, cs, w))
      else if path = ''/dns/flush'' then
        (case handleAdminDNSFlush a of (r, a') \<Rightarrow> (plain r, [], w\<lparr>aw_agent := a'\<rparr>))
      else if path = ''/users/quota/reset'' then
        (case handleAdminQuotaReset (query_Get ''user_id'' query) a of (r, a') \<Rightarrow> (plain r, [], w\<lparr>aw_agent := a'\<rparr>))
      else if path = ''/logs'' then
        (case handleAdminLogs (aw_fs w) a of (st, body) \<Rightarrow>
           (\<lparr>hr_status = st, hr_type = (if st = 200 then ''text/plain'' else ''text/plain; charset=utf-8''), hr_body = body\<rparr>, [], w))
      else if path = ''/metrics'' then (\<lparr>hr_status = 200, hr_type = ''text/plain; version=0.0.4'', hr_body = ec_metrics ec\<rparr>, [], w)
      else (plain (http_Error ''404 page not found'' 404), [], w))"

section \<open>The command\<close>

text \<open>
  Sending a request: control characters are refused by the client, a blank makes the request line
  malformed, and without an admin server there is nobody to answer.
\<close>

definition http_send :: "encoders \<Rightarrow> string \<Rightarrow> string \<Rightarrow> admin_world \<Rightarrow> http_resp res \<times> string list \<times> admin_world" where
  "http_send ec addr url w =
     (if list_ex (\<lambda>c. (of_char c :: nat) < 32 \<or> (of_char c :: nat) = 127) url then (Inl (New ''invalid control character in URL''), [], w)
      else if ag_adminServer (aw_agent w) = None then (Inl (New ''connection refused''), [], w)
      else if CHR '' '' \<in> set url then (Inr \<lparr>hr_status = 400, hr_type = ''text/plain; charset=utf-8'', hr_body = ''400 Bad Request''\<rparr>, [], w)
      else (case url_request addr url of (path, query) \<Rightarrow> (case admin_serve ec path query w of (r, cs, w') \<Rightarrow> (Inr r, cs, w'))))"

definition Println :: "string \<Rightarrow> string" where
  "Println s = s @ [char_of (10 :: nat)]"

definition printResp :: "(string \<Rightarrow> string) \<Rightarrow> http_resp \<Rightarrow> string" where
  "printResp indent r = Println (if hr_type r = ''application/json'' then indent (hr_body r) else hr_body r)"

definition callAPI :: "(error \<Rightarrow> string) \<Rightarrow> (string \<Rightarrow> string) \<Rightarrow> http_resp res \<Rightarrow> string" where
  "callAPI errText indent resp = (case resp of Inl e \<Rightarrow> Println (''Error: '' @ errText e) | Inr r \<Rightarrow> printResp indent r)"

definition postAPI :: "(error \<Rightarrow> string) \<Rightarrow> (string \<Rightarrow> string) \<Rightarrow> http_resp res \<Rightarrow> string" where
  "postAPI errText indent resp = (case resp of
     Inl e \<Rightarrow> Println (''Error: '' @ errText e)
   | Inr r \<Rightarrow> if 200 \<le> hr_status r \<and> hr_status r < 300 then Println ''Success'' else printResp indent r)"

text \<open>A run of the program: what it prints, its exit status, and its effect on the agent.\<close>

definition npctl_run :: "encoders \<Rightarrow> (error \<Rightarrow> string) \<Rightarrow> (string \<Rightarrow> string) \<Rightarrow> (Config \<Rightarrow> bytes) \<Rightarrow> (string \<Rightarrow> string)
     \<Rightarrow> string \<Rightarrow> string \<Rightarrow> string \<Rightarrow> string \<Rightarrow> admin_world \<Rightarrow> (string \<times> nat) \<times> string list \<times> admin_world" where
  "npctl_run ec errText indent marshal dirOf addr cmd arg out w = (case npctl_main addr cmd arg out of
     GetCall url \<Rightarrow> (case http_send ec addr url w of (r, cs, w') \<Rightarrow> ((callAPI errText indent r, 0), cs, w'))
   | PostCall url \<Rightarrow> (case http_send ec addr url w of (r, cs, w') \<Rightarrow> ((postAPI errText indent r, 0), cs, w'))
   | InitConfig path \<Rightarrow> ((Println (''Default configuration generated at: '' @ path), 0), [], w\<lparr>aw_fs := generateInitConfig marshal dirOf path (aw_fs w)\<rparr>)
   | UsageExit msg \<Rightarrow> ((Println msg, 1), [], w)
   | UnknownExit msg \<Rightarrow> ((Println msg, 1), [], w))"

section \<open>Lemmas\<close>

text \<open>Characters that mean themselves in a query, and in an address.\<close>

definition url_char :: "char \<Rightarrow> bool" where
  "url_char c \<longleftrightarrow> 33 \<le> (of_char c :: nat) \<and> (of_char c :: nat) \<noteq> 127 \<and> c \<noteq> CHR ''#''"

definition query_char :: "char \<Rightarrow> bool" where
  "query_char c \<longleftrightarrow> url_char c \<and> c \<notin> {CHR ''&'', CHR ''%'', CHR ''+'', CHR '';''}"

lemma url_char_facts: "url_char c \<Longrightarrow> \<not> ((of_char c :: nat) < 32 \<or> (of_char c :: nat) = 127)" "\<not> url_char (CHR '' '')" "\<not> url_char (CHR ''#'')"
  by (simp_all add: url_char_def)

lemma unescape_plain: "CHR ''%'' \<notin> set s \<Longrightarrow> QueryUnescape s = Some (map (\<lambda>c. if c = CHR ''+'' then CHR '' '' else c) s)"
  by (induction s) auto

lemma takeWhile_stop: "c \<notin> set p \<Longrightarrow> takeWhile (\<lambda>x. x \<noteq> c) (p @ c # s) = p" "c \<notin> set p \<Longrightarrow> dropWhile (\<lambda>x. x \<noteq> c) (p @ c # s) = c # s"
  by (induction p) auto

text \<open>A query of one pair: its value, with \<open>+\<close> read as a blank.\<close>

lemma query_one:
  assumes "set arg \<inter> {CHR ''&'', CHR ''%'', CHR '';''} = {}" "set key \<inter> {CHR ''&'', CHR ''%'', CHR '';'', CHR ''+'', CHR ''=''} = {}" "key \<noteq> []"
  shows "query_Get key (key @ CHR ''='' # arg) = map (\<lambda>c. if c = CHR ''+'' then CHR '' '' else c) arg"
proof -
  let ?seg = "key @ CHR ''='' # arg"
  have n: "CHR ''&'' \<notin> set key" "CHR ''&'' \<notin> set arg" "CHR '';'' \<notin> set key" "CHR '';'' \<notin> set arg" "CHR ''%'' \<notin> set key" "CHR ''%'' \<notin> set arg"
      "CHR ''='' \<notin> set key" "CHR ''+'' \<notin> set key"
    using assms(1,2) by blast+
  have "CHR ''&'' \<notin> set ?seg" using n(1,2) by simp
  then have s: "Split (key @ CHR ''='' # arg) ''&'' = [key @ CHR ''='' # arg]" by (rule Split_single)
  have k: "map (\<lambda>c. if c = CHR ''+'' then CHR '' '' else c) key = key" using n(8) by (intro map_idI) metis
  have tw: "takeWhile (\<lambda>c. c \<noteq> CHR ''='') ?seg = key" "drop 1 (dropWhile (\<lambda>c. c \<noteq> CHR ''='') ?seg) = arg"
    using takeWhile_stop [OF n(7), of arg] by simp_all
  have g: "(?seg = [] \<or> CHR '';'' \<in> set ?seg) = False" using n(3,4) by simp
  have "query_pair ?seg = Some (key, map (\<lambda>c. if c = CHR ''+'' then CHR '' '' else c) arg)"
    unfolding query_pair_def Let_def tw g unescape_plain [OF n(5)] unescape_plain [OF n(6)] k by (simp only: if_False prod.case option.case)
  then show ?thesis by (simp add: query_Get_def s List.map_filter_simps)
qed

lemma query_one_plain:
  assumes "list_all query_char arg" "set key \<inter> {CHR ''&'', CHR ''%'', CHR '';'', CHR ''+'', CHR ''=''} = {}" "key \<noteq> []"
  shows "query_Get key (key @ CHR ''='' # arg) = arg"
proof -
  have "set arg \<inter> {CHR ''&'', CHR ''%'', CHR '';''} = {}" using assms(1) by (auto simp: list_all_iff query_char_def)
  note q = query_one [OF this assms(2,3)]
  have "map (\<lambda>c. if c = CHR ''+'' then CHR '' '' else c) arg = arg"
    using assms(1) by (intro map_idI) (auto simp: list_all_iff query_char_def)
  with q show ?thesis by simp
qed

text \<open>A request for a path and a query of plain characters reaches that path with that query.\<close>

lemma send_plain:
  assumes "list_all url_char addr" "list_all url_char path" "CHR ''?'' \<notin> set path" "list_all url_char query" "ag_adminServer (aw_agent w) \<noteq> None"
  shows "http_send ec addr (addr @ path @ CHR ''?'' # query) w = (case admin_serve ec path query w of (r, cs, w') \<Rightarrow> (Inr r, cs, w'))"
proof -
  let ?url = "addr @ path @ CHR ''?'' # query"
  have q: "url_char (CHR ''?'')" by (simp add: url_char_def)
  have u: "url_char c" if "c \<in> set ?url" for c
    using that assms(1,2,4) q unfolding list_all_iff set_append list.set by blast
  have "(list_ex (\<lambda>c. (of_char c :: nat) < 32 \<or> (of_char c :: nat) = 127) ?url) = False" "(CHR '' '' \<in> set ?url) = False" "CHR ''#'' \<notin> set ?url"
    using u url_char_facts unfolding list_ex_iff by blast+
  note f = this
  have frag: "takeWhile (\<lambda>c. c \<noteq> CHR ''#'') ?url = ?url" using f(3) unfolding takeWhile_eq_all_conv by metis
  have d: "drop (length addr) ?url = path @ CHR ''?'' # query" by simp
  have tw: "takeWhile (\<lambda>c. c \<noteq> CHR ''?'') (path @ CHR ''?'' # query) = path" "dropWhile (\<lambda>c. c \<noteq> CHR ''?'') (path @ CHR ''?'' # query) = CHR ''?'' # query"
    using takeWhile_stop [OF assms(3)] by blast+
  have r: "url_request addr ?url = (path, query)" unfolding url_request_def Let_def frag d tw by simp
  have a: "(ag_adminServer (aw_agent w) = None) = False" using assms(5) by simp
  show ?thesis unfolding http_send_def f(1,2) a r by (simp only: if_False prod.case)
qed

lemma path_chars: "list_all url_char ''/connections/close''" "list_all url_char ''/users/kick''" "list_all url_char ''/users/quota/reset''"
    "list_all url_char ''id=''" "list_all url_char ''user_id=''"
  by (simp_all add: url_char_def)

lemma list_all_query_url: "list_all query_char s \<Longrightarrow> list_all url_char s"
  by (auto simp: list_all_iff query_char_def)

lemma list_all_append_intro: "list_all P xs \<Longrightarrow> list_all P ys \<Longrightarrow> list_all P (xs @ ys)"
  by simp

text \<open>What a command with an id posts: one path, one key, and the id as it was given.\<close>

lemma post_plain:
  assumes "list_all url_char addr" "list_all url_char path" "CHR ''?'' \<notin> set path" "list_all url_char key" "list_all url_char arg"
    and "ag_adminServer (aw_agent w) \<noteq> None"
  shows "http_send ec addr (addr @ path @ CHR ''?'' # key @ CHR ''='' # arg) w
    = (case admin_serve ec path (key @ CHR ''='' # arg) w of (r, cs, w') \<Rightarrow> (Inr r, cs, w'))"
proof -
  have "list_all url_char (key @ CHR ''='' # arg)" using assms(4,5) by (simp add: url_char_def)
  then show ?thesis by (rule send_plain [OF assms(1-3) _ assms(6)])
qed

lemma admin_keys:
  "set ''id'' \<inter> {CHR ''&'', CHR ''%'', CHR '';'', CHR ''+'', CHR ''=''} = {}" "set ''user_id'' \<inter> {CHR ''&'', CHR ''%'', CHR '';'', CHR ''+'', CHR ''=''} = {}"
  "list_all url_char ''id''" "list_all url_char ''user_id''"
  "CHR ''?'' \<notin> set ''/connections/close''" "CHR ''?'' \<notin> set ''/users/kick''" "CHR ''?'' \<notin> set ''/users/quota/reset''"
  by (simp_all add: url_char_def)

lemma npctl_main_posts:
  assumes "arg \<noteq> []"
  shows "npctl_main addr ''kick'' arg out = PostCall (addr @ ''/connections/close'' @ CHR ''?'' # ''id'' @ CHR ''='' # arg)"
    "npctl_main addr ''kick-user'' arg out = PostCall (addr @ ''/users/kick'' @ CHR ''?'' # ''user_id'' @ CHR ''='' # arg)"
    "npctl_main addr ''quota-reset'' arg out = PostCall (addr @ ''/users/quota/reset'' @ CHR ''?'' # ''user_id'' @ CHR ''='' # arg)"
  using assms by (simp_all add: npctl_main_def)

lemma serve_posts:
  "admin_serve ec ''/connections/close'' q w = (case handleAdminKick (query_Get ''id'' q) (aw_sessions w) of (r, cs) \<Rightarrow> (plain r, cs, w))"
  "admin_serve ec ''/users/kick'' q w = (case handleAdminKickUser (query_Get ''user_id'' q) (aw_sessions w) of (r, cs) \<Rightarrow> (plain r, cs, w))"
  "admin_serve ec ''/users/quota/reset'' q w
    = (case handleAdminQuotaReset (query_Get ''user_id'' q) (aw_agent w) of (r, a') \<Rightarrow> (plain r, [], w\<lparr>aw_agent := a'\<rparr>))"
  by (simp_all add: admin_serve_def Let_def)

section \<open>Properties\<close>


definition demo_sessions :: session_map where
  "demo_sessions = [(''s1'', \<lparr>si_ID = ''s1'', si_UserID = ''ann'', si_Src = [], si_Dst = [], si_StartTime = 0, si_BytesSent = 0\<rparr>),
     (''s2'', \<lparr>si_ID = ''s2'', si_UserID = ''a b'', si_Src = [], si_Dst = [], si_StartTime = 0, si_BytesSent = 0\<rparr>)]"

definition demo_admin :: admin_world where
  "demo_admin = \<lparr>aw_agent = (agent_New (demo_config ''n1''))\<lparr>ag_adminServer := Some ''127.0.0.1:8081''\<rparr>, aw_sessions = demo_sessions,
     aw_metrics = metrics0, aw_fs = \<lparr>fs_files = [], fs_dirs = []\<rparr>\<rparr>"

definition demo_encoders :: encoders where
  "demo_encoders = \<lparr>ec_status = (\<lambda>s. []), ec_sessions = (\<lambda>s. []), ec_config = (\<lambda>c. []), ec_metrics = []\<rparr>"


text \<open>
  An id is not escaped. A plus sign in a user name is read as a blank by the server: \<open>kick-user\<close>
  for the user \<open>a+b\<close> cancels the sessions of the user \<open>a b\<close> and still prints \<open>Success\<close>.
\<close>

theorem npctl_plus_misread:
  assumes "list_all url_char addr" "ag_adminServer (aw_agent w) \<noteq> None"
  shows "npctl_run ec et ind ma dr addr ''kick-user'' ''a+b'' out w
    = ((Println ''Success'', 0), map fst (filter (\<lambda>e. si_UserID (snd e) = ''a b'') (aw_sessions w)), w)"
proof -
  have u: "list_all url_char ''a+b''" "set ''a+b'' \<inter> {CHR ''&'', CHR ''%'', CHR '';''} = {}" by (simp_all add: url_char_def)
  have q: "query_Get ''user_id'' (''user_id'' @ CHR ''='' # ''a+b'') = ''a b''"
    using query_one [OF u(2) admin_keys(2)] by simp
  have "http_send ec addr (addr @ ''/users/kick'' @ CHR ''?'' # ''user_id'' @ CHR ''='' # ''a+b'') w
      = (case handleAdminKickUser ''a b'' (aw_sessions w) of (r, cs) \<Rightarrow> (Inr (plain r), cs, w))"
    unfolding post_plain [OF assms(1) path_chars(2) admin_keys(6,4) u(1) assms(2)] serve_posts q by (simp split: prod.splits)
  moreover have "''a+b'' \<noteq> []" by simp
  ultimately show ?thesis unfolding npctl_run_def npctl_main_posts [OF \<open>''a+b'' \<noteq> []\<close>] npctl_call.case
    by (simp only: prod.case) (simp add: handleAdminKickUser_def postAPI_def plain_def)
qed

theorem npctl_plus_misread_witness:
  "fst (snd (npctl_run demo_encoders (\<lambda>e. []) id (\<lambda>c. []) id ''http://127.0.0.1:8081'' ''kick-user'' ''a+b'' [] demo_admin)) = [''s2'']"
proof -
  have "list_all url_char ''http://127.0.0.1:8081''" by (simp add: url_char_def)
  from npctl_plus_misread [OF this, of demo_admin] show ?thesis by (simp add: demo_admin_def demo_sessions_def)
qed

end
