(* ===== verification/Lifecycle.thy ===== *)
theory Lifecycle
  imports HTTP_Inbound UDP_Inbounds
begin

text \<open>
  The life of an inbound: the methods \<^verbatim>\<open>Start\<close>, \<^verbatim>\<open>Stop\<close> and \<^verbatim>\<open>Addr\<close> of the handlers under
  \<^verbatim>\<open>internal/inbound/\<close>, the interface \<^verbatim>\<open>InboundHandler\<close> of \<^verbatim>\<open>common/types.go\<close>. A handler's struct
  has a field for its listener or socket, nil until \<^verbatim>\<open>Start\<close> has opened it; here that field stands
  beside the handler's record. Locale \<open>closable\<close> is what \<^verbatim>\<open>Stop\<close> promises, locale \<open>inbound_life\<close>
  adds \<^verbatim>\<open>Start\<close>; every handler is an instance.
\<close>

section \<open>Sockets and handlers\<close>

record socket =
  so_addr :: string
  so_open :: bool

definition sock_Close :: "socket \<Rightarrow> error option \<times> socket" where
  "sock_Close s = (if so_open s then None else Some ErrClosed, s\<lparr>so_open := False\<rparr>)"

record 'h live =
  lv_handler :: 'h
  lv_sock :: "socket option"

definition not_started :: "'h \<Rightarrow> 'h live" where
  "not_started h = \<lparr>lv_handler = h, lv_sock = None\<rparr>"

text \<open>The first statement of the \<^verbatim>\<open>Start\<close> methods: on an error the field is nil again and \<^verbatim>\<open>Start\<close> returns.\<close>

definition start_listen :: "socket res \<Rightarrow> 'h live \<Rightarrow> error option \<times> 'h live" where
  "start_listen r h = (case r of Inl e \<Rightarrow> (Some e, h\<lparr>lv_sock := None\<rparr>) | Inr s \<Rightarrow> (None, h\<lparr>lv_sock := Some s\<rparr>))"

text \<open>\<^verbatim>\<open>Stop\<close> of the handlers with one listener or socket.\<close>

definition stop_live :: "'h live \<Rightarrow> error option \<times> 'h live" where
  "stop_live h = (case lv_sock h of None \<Rightarrow> (None, h) | Some s \<Rightarrow> (case sock_Close s of (e, s') \<Rightarrow> (e, h\<lparr>lv_sock := Some s'\<rparr>)))"

text \<open>\<^verbatim>\<open>Addr\<close>: most handlers dereference the listener without a check.\<close>

definition live_addr :: "'h live \<Rightarrow> string res" where
  "live_addr h = (case lv_sock h of None \<Rightarrow> Inl (GoPanic ''nil pointer dereference'') | Some s \<Rightarrow> Inr (so_addr s))"

section \<open>The handlers\<close>

definition tf_Stop :: "TCPForwardHandler live \<Rightarrow> error option \<times> TCPForwardHandler live" where "tf_Stop = stop_live"
definition tb_Stop :: "TCPBalanceHandler live \<Rightarrow> error option \<times> TCPBalanceHandler live" where "tb_Stop = stop_live"
definition rd_Stop :: "RedirectHandler live \<Rightarrow> error option \<times> RedirectHandler live" where "rd_Stop = stop_live"
definition tp_Stop :: "TProxyHandler live \<Rightarrow> error option \<times> TProxyHandler live" where "tp_Stop = stop_live"
definition s5_Stop :: "Socks5Handler live \<Rightarrow> error option \<times> Socks5Handler live" where "s5_Stop = stop_live"
definition hp_Stop :: "HTTPProxyHandler live \<Rightarrow> error option \<times> HTTPProxyHandler live" where "hp_Stop = stop_live"
definition uf_Stop :: "UDPForwardHandler live \<Rightarrow> error option \<times> UDPForwardHandler live" where "uf_Stop = stop_live"

definition tf_Addr :: "TCPForwardHandler live \<Rightarrow> string res" where "tf_Addr = live_addr"
definition tb_Addr :: "TCPBalanceHandler live \<Rightarrow> string res" where "tb_Addr = live_addr"
definition rd_Addr :: "RedirectHandler live \<Rightarrow> string res" where "rd_Addr = live_addr"
definition tp_Addr :: "TProxyHandler live \<Rightarrow> string res" where "tp_Addr = live_addr"
definition hp_Addr :: "HTTPProxyHandler live \<Rightarrow> string res" where "hp_Addr = live_addr"
definition uf_Addr :: "UDPForwardHandler live \<Rightarrow> string res" where "uf_Addr = live_addr"

text \<open>Only the SOCKS5 handler checks; its \<^verbatim>\<open>Start\<close> wraps the error of listening.\<close>

definition s5_Addr :: "Socks5Handler live \<Rightarrow> string option" where
  "s5_Addr h = map_option so_addr (lv_sock h)"

definition s5_listen :: "socket res \<Rightarrow> Socks5Handler live \<Rightarrow> error option \<times> Socks5Handler live" where
  "s5_listen r h = start_listen (map_sum (Wrap ''socks5 listen failed'') id r) h"

definition tp_listen :: "socket res \<Rightarrow> TProxyHandler live \<Rightarrow> error option \<times> TProxyHandler live" where
  "tp_listen r h = start_listen (map_sum (Wrap ''failed to listen tproxy'') id r) h"

text \<open>The port range has a socket per port and reports no errors.\<close>

definition ur_Stop :: "UDPRangeHandler \<times> socket list \<Rightarrow> error option \<times> UDPRangeHandler \<times> socket list" where
  "ur_Stop h = (None, fst h, map (\<lambda>s. snd (sock_Close s)) (snd h))"

definition ur_Addr :: "UDPRangeHandler \<times> socket list \<Rightarrow> string option" where "ur_Addr h = None"

text \<open>The tunnel's inbound has no listener of its own: the QUIC server accepts for it.\<close>

definition ni_Start :: "NPChainInboundHandler \<Rightarrow> error option" where "ni_Start h = None"
definition ni_Stop :: "NPChainInboundHandler \<Rightarrow> error option" where "ni_Stop h = None"
definition ni_Addr :: "NPChainInboundHandler \<Rightarrow> string option" where "ni_Addr h = None"

text \<open>The stubs for other platforms (\<^verbatim>\<open>tproxy_others.go\<close>, \<^verbatim>\<open>original_dst_others.go\<close>).\<close>

definition NewTProxyHandler_others :: "string \<Rightarrow> bool \<Rightarrow> TProxyHandler" where
  "NewTProxyHandler_others listen useProxyProto = \<lparr>tp_listenAddr = listen, tp_useProxyProto = useProxyProto\<rparr>"

definition tp_Start_others :: "TProxyHandler \<Rightarrow> error option" where
  "tp_Start_others h = Some (New ''TPROXY is only supported on Linux'')"

definition tp_Stop_others :: "TProxyHandler \<Rightarrow> error option" where "tp_Stop_others h = None"
definition tp_Addr_others :: "TProxyHandler \<Rightarrow> string option" where "tp_Addr_others h = None"

definition getOriginalDst_others :: "conn \<Rightarrow> string res" where
  "getOriginalDst_others c = Inl (New ''transparent proxy (REDIRECT) is only supported on Linux'')"

section \<open>Serving\<close>

text \<open>
  \<^verbatim>\<open>http.Server.Serve\<close>: for every call of \<^verbatim>\<open>Accept\<close>, whether the server has been closed and what it
  returns. Temporary errors are retried; any other one ends the loop. The result is the
  connections served and the error \<^verbatim>\<open>Serve\<close> returned, if it has.
\<close>

fun http_Serve :: "(error \<Rightarrow> bool) \<Rightarrow> (bool \<times> 'c res) list \<Rightarrow> 'c list \<times> error option" where
  "http_Serve temporary [] = ([], None)"
| "http_Serve temporary ((closed, Inr c) # evs) = (case http_Serve temporary evs of (cs, r) \<Rightarrow> (c # cs, r))"
| "http_Serve temporary ((closed, Inl e) # evs) =
     (if closed then ([], Some (New ''http: Server closed''))
      else if temporary e then http_Serve temporary evs
      else ([], Some e))"

definition hp_Start :: "(error \<Rightarrow> bool) \<Rightarrow> HTTPProxyHandler \<Rightarrow> error option \<Rightarrow> (bool \<times> conn res) list
     \<Rightarrow> error + (conn + ProxyProtoConn) list \<times> error option" where
  "hp_Start temporary h listenErr evs = (case listenErr of
     Some e \<Rightarrow> Inl e
   | None \<Rightarrow> Inr (http_Serve temporary (map (\<lambda>(closed, r). (closed, listener_Accept (hp_useProxyProto h) r)) evs)))"

text \<open>
  \<^verbatim>\<open>UDPForwardHandler.Start\<close>: an error when the address cannot be resolved or bound, then the packet
  loop: for every \<^verbatim>\<open>ReadFromUDP\<close>, whether the context is done, and the packet with the services of
  that time or an error. The result lists what was done with each packet, and whether \<^verbatim>\<open>Start\<close> has
  returned.
\<close>

fun uf_loop :: "entropy \<Rightarrow> (bool \<times> (services \<times> bytes \<times> string) res) list \<Rightarrow> QuotaManager option \<Rightarrow> LimiterManager \<Rightarrow> UDPForwardHandler
     \<Rightarrow> ((udp_sent \<times> string option) list \<times> bool) \<times> QuotaManager option \<times> LimiterManager \<times> UDPForwardHandler" where
  "uf_loop en [] quota lm h = (([], False), quota, lm, h)"
| "uf_loop en ((ctxDone, Inl e) # evs) quota lm h = (if ctxDone then (([], True), quota, lm, h) else uf_loop en evs quota lm h)"
| "uf_loop en ((ctxDone, Inr (sv, dat, caddr)) # evs) quota lm h = (case uf_packet sv en dat caddr quota lm h of
     (r, quota', lm', h') \<Rightarrow> (case uf_loop en evs quota' lm' h' of ((rs, done), st) \<Rightarrow> ((r # rs, done), st)))"

definition uf_Start :: "error option \<Rightarrow> entropy \<Rightarrow> (bool \<times> (services \<times> bytes \<times> string) res) list \<Rightarrow> QuotaManager option \<Rightarrow> LimiterManager
     \<Rightarrow> UDPForwardHandler \<Rightarrow> error + ((udp_sent \<times> string option) list \<times> bool) \<times> QuotaManager option \<times> LimiterManager \<times> UDPForwardHandler" where
  "uf_Start listenErr en evs quota lm h = (case listenErr of Some e \<Rightarrow> Inl e | None \<Rightarrow> Inr (uf_loop en evs quota lm h))"

section \<open>The contract\<close>

text \<open>What \<^verbatim>\<open>Stop\<close> promises: nothing of the handler is open afterwards, and stopping again changes nothing.\<close>

locale closable =
  fixes stop :: "'s \<Rightarrow> error option \<times> 's" and opened :: "'s \<Rightarrow> nat"
  assumes stop_closes: "opened (snd (stop s)) = 0"
    and stop_idle: "opened s = 0 \<Longrightarrow> snd (stop s) = s"
begin

lemma stop_twice: "snd (stop (snd (stop s))) = snd (stop s)"
  by (rule stop_idle) (rule stop_closes)

end

text \<open>
  What \<^verbatim>\<open>Start\<close> adds: a successful listen opens one socket, a failed one none. So a handler serves
  after its last \<^verbatim>\<open>Start\<close>, and is quiet after its last \<^verbatim>\<open>Stop\<close>.
\<close>

datatype life_event = Listen "socket res" | StopCall

locale inbound_life = closable +
  fixes listen :: "socket res \<Rightarrow> 's \<Rightarrow> error option \<times> 's" and fresh :: 's
  assumes fresh_closed: "opened fresh = 0" and fresh_stop: "stop fresh = (None, fresh)"
    and listen_ok: "so_open k \<Longrightarrow> opened (snd (listen (Inr k) s)) = 1" and listen_ok_err: "fst (listen (Inr k) s) = None"
    and listen_fails: "opened (snd (listen (Inl e) s)) = 0" "fst (listen (Inl e) s) \<noteq> None"
begin

fun life :: "life_event list \<Rightarrow> 's \<Rightarrow> 's" where
  "life [] s = s"
| "life (Listen r # es) s = life es (snd (listen r s))"
| "life (StopCall # es) s = life es (snd (stop s))"

lemma life_append: "life (xs @ ys) s = life ys (life xs s)"
  by (induction xs s rule: life.induct) simp_all

lemma stopped_last: "opened (life (es @ [StopCall]) s) = 0"
  by (simp add: life_append stop_closes)

lemma started_last: "so_open k \<Longrightarrow> opened (life (es @ [Listen (Inr k)]) s) = 1"
  by (simp add: life_append listen_ok)

text \<open>A \<^verbatim>\<open>Stop\<close> that comes before the \<^verbatim>\<open>Start\<close> it is meant for is lost.\<close>

lemma early_stop_lost: "so_open k \<Longrightarrow> fst (stop fresh) = None \<and> opened (life [StopCall, Listen (Inr k)] fresh) = 1"
  by (simp add: fresh_stop listen_ok)

end

definition live_opened :: "'h live \<Rightarrow> nat" where
  "live_opened h = (case lv_sock h of Some s \<Rightarrow> if so_open s then 1 else 0 | None \<Rightarrow> 0)"

definition range_opened :: "UDPRangeHandler \<times> socket list \<Rightarrow> nat" where
  "range_opened h = length (filter so_open (snd h))"

lemmas live_defs = stop_live_def start_listen_def live_opened_def not_started_def sock_Close_def

interpretation ll: inbound_life stop_live live_opened start_listen "not_started h"
  by unfold_locales (auto simp: live_defs split: option.splits sum.splits if_splits)

interpretation tf: inbound_life tf_Stop live_opened start_listen "not_started (NewTCPForwardHandler l pp t)"
  unfolding tf_Stop_def by (rule ll.inbound_life_axioms)

interpretation tb: inbound_life tb_Stop live_opened start_listen "not_started (NewTCPBalanceHandler l pp ts)"
  unfolding tb_Stop_def by (rule ll.inbound_life_axioms)

interpretation rd: inbound_life rd_Stop live_opened start_listen "not_started (NewRedirectHandler l pp)"
  unfolding rd_Stop_def by (rule ll.inbound_life_axioms)

interpretation hp: inbound_life hp_Stop live_opened start_listen "not_started (NewHTTPProxyHandler l pp auth)"
  unfolding hp_Stop_def by (rule ll.inbound_life_axioms)

interpretation uf: inbound_life uf_Stop live_opened start_listen "not_started (NewUDPForwardHandler l t)"
  unfolding uf_Stop_def by (rule ll.inbound_life_axioms)

interpretation s5: inbound_life s5_Stop live_opened s5_listen "not_started (NewSocks5Handler l pp auth)"
  by unfold_locales (auto simp: s5_Stop_def s5_listen_def live_defs split: option.splits sum.splits if_splits)

interpretation tp: inbound_life tp_Stop live_opened tp_listen "not_started (NewTProxyHandler l pp)"
  by unfold_locales (auto simp: tp_Stop_def tp_listen_def live_defs split: option.splits sum.splits if_splits)

lemma close_all_idle: "filter so_open xs = [] \<Longrightarrow> map (so_open_update (\<lambda>_. False)) xs = xs"
  by (induction xs) (auto split: if_splits)

interpretation ur: closable ur_Stop range_opened
  by unfold_locales (auto simp: ur_Stop_def range_opened_def sock_Close_def prod_eq_iff filter_map o_def intro: close_all_idle)

end
