(* ===== verification/QUIC.thy ===== *)
theory QUIC
  imports Transport
begin

text \<open>
  QUIC endpoints: the dialer and its TLS configuration from files (\<^verbatim>\<open>internal/transport/quic.go\<close>),
  the server's loops (\<^verbatim>\<open>quic_server.go\<close>), the pool's \<^verbatim>\<open>Get\<close> when several goroutines call it
  (\<^verbatim>\<open>pool.go\<close>) and the ACME manager (\<^verbatim>\<open>acme.go\<close>). The QUIC library is a parameter: what its
  calls return is an input of the loops. A TLS handshake is what Go's \<^verbatim>\<open>crypto/tls\<close> documents for
  the fields the program sets, with the verification of a certificate against a pool as a parameter.
\<close>

section \<open>Configurations\<close>

record quic_config =
  qq_MaxIdleTimeout :: int
  qq_KeepAlivePeriod :: int
  qq_EnableDatagrams :: bool
  qq_MaxStreamReceiveWindow :: nat
  qq_MaxConnectionReceiveWindow :: nat

text \<open>The same literal stands in the dialer and in the server; times are nanoseconds.\<close>

definition node_quic_config :: quic_config where
  "node_quic_config = \<lparr>qq_MaxIdleTimeout = 30 * 10 ^ 9, qq_KeepAlivePeriod = 10 * 10 ^ 9, qq_EnableDatagrams = True,
     qq_MaxStreamReceiveWindow = 16 * 1024 * 1024, qq_MaxConnectionReceiveWindow = 32 * 1024 * 1024\<rparr>"

text \<open>The certificate is read once: later reloads do not change it, and no minimal version is set.\<close>

definition NewClientTLSConfig :: "(string \<Rightarrow> string \<Rightarrow> 'cert res) \<Rightarrow> (string \<Rightarrow> bytes res) \<Rightarrow> (bytes \<Rightarrow> 'pool)
     \<Rightarrow> string \<Rightarrow> string \<Rightarrow> string \<Rightarrow> string \<Rightarrow> bool \<Rightarrow> ('cert, 'pool) tls_config res" where
  "NewClientTLSConfig loadPair readFile poolOf certFile keyFile caFile serverName insecure =
     res_bind (loadPair certFile keyFile) (\<lambda>cert. res_bind (readFile caFile) (\<lambda>caCert.
       Inr \<lparr>tl_cert = (\<lambda>_. cert), tl_pool = poolOf caCert, tl_serverName = serverName, tl_verifyClient = False,
         tl_insecure = insecure, tl_minVersion = 0, tl_nextProtos = [''nodepass-2.0'']\<rparr>))"

definition NewServerTLSConfig :: "(string \<Rightarrow> string \<Rightarrow> 'cert res) \<Rightarrow> (string \<Rightarrow> bytes res) \<Rightarrow> (bytes \<Rightarrow> 'pool)
     \<Rightarrow> string \<Rightarrow> string \<Rightarrow> string \<Rightarrow> ('cert, 'pool) tls_config res" where
  "NewServerTLSConfig loadPair readFile poolOf certFile keyFile caFile =
     res_bind (loadPair certFile keyFile) (\<lambda>cert. res_bind (readFile caFile) (\<lambda>caCert.
       Inr \<lparr>tl_cert = (\<lambda>_. cert), tl_pool = poolOf caCert, tl_serverName = [], tl_verifyClient = True,
         tl_insecure = False, tl_minVersion = 0, tl_nextProtos = [''nodepass-2.0'']\<rparr>))"

record ('cert, 'pool) QUICDialer =
  qd_tlsConfig :: "('cert, 'pool) tls_config"
  qd_quicConfig :: quic_config

definition NewQUICDialerWithTLS :: "('cert, 'pool) tls_config \<Rightarrow> ('cert, 'pool) QUICDialer" where
  "NewQUICDialerWithTLS tlsCfg = \<lparr>qd_tlsConfig = tlsCfg, qd_quicConfig = node_quic_config\<rparr>"

definition NewQUICDialer :: "(string \<Rightarrow> string \<Rightarrow> 'cert res) \<Rightarrow> (string \<Rightarrow> bytes res) \<Rightarrow> (bytes \<Rightarrow> 'pool)
     \<Rightarrow> string \<Rightarrow> string \<Rightarrow> string \<Rightarrow> string \<Rightarrow> bool \<Rightarrow> ('cert, 'pool) QUICDialer res" where
  "NewQUICDialer loadPair readFile poolOf certFile keyFile caFile serverName insecure =
     res_bind (NewClientTLSConfig loadPair readFile poolOf certFile keyFile caFile serverName insecure) (\<lambda>tlsCfg.
       Inr (NewQUICDialerWithTLS tlsCfg))"

text \<open>The manager may be missing, so the server's TLS configuration may be nil.\<close>

record ('cert, 'pool) QUICServer =
  qs_listenAddr :: string
  qs_tlsConfig :: "('cert, 'pool) tls_config option"
  qs_quicConfig :: quic_config

definition NewQUICServerWithTLS :: "string \<Rightarrow> ('cert, 'pool) tls_config option \<Rightarrow> ('cert, 'pool) QUICServer" where
  "NewQUICServerWithTLS listenAddr tlsCfg = \<lparr>qs_listenAddr = listenAddr, qs_tlsConfig = tlsCfg, qs_quicConfig = node_quic_config\<rparr>"

record acme_manager =
  am_hosts :: "string list"
  am_cacheDir :: string

definition NewACMECertManager :: "(string \<Rightarrow> string) \<Rightarrow> string \<Rightarrow> string list \<Rightarrow> fsys \<Rightarrow> acme_manager \<times> fsys" where
  "NewACMECertManager dirOf cacheDir domains fs =
     (let dir = (if cacheDir = [] then ''configs/certs/acme'' else cacheDir) in
      (\<lparr>am_hosts = domains, am_cacheDir = dir\<rparr>, MkdirAll dirOf dir fs))"

section \<open>Handshakes\<close>

text \<open>
  Whether a client with \<open>c\<close>, whose certificates come from \<open>cm1\<close>, and a server with \<open>s\<close> and \<open>cm2\<close>
  get a connection: a common protocol, a server certificate the client accepts for its server
  name unless it skips that check, and a client certificate the server accepts when it asks for one.
\<close>

definition handshake :: "('pool \<Rightarrow> 'cert \<Rightarrow> string \<Rightarrow> bool) \<Rightarrow> ('pool \<Rightarrow> 'cert \<Rightarrow> bool)
     \<Rightarrow> ('cert, 'pool) CertManager \<Rightarrow> ('cert, 'pool) tls_config \<Rightarrow> ('cert, 'pool) CertManager \<Rightarrow> ('cert, 'pool) tls_config \<Rightarrow> bool" where
  "handshake serverOK clientOK cm1 c cm2 s \<longleftrightarrow>
     list_ex (\<lambda>p. p \<in> set (tl_nextProtos s)) (tl_nextProtos c)
     \<and> (tl_insecure c \<or> serverOK (tl_pool c) (tl_cert s cm2) (tl_serverName c))
     \<and> (tl_verifyClient s \<longrightarrow> clientOK (tl_pool s) (tl_cert c cm1))"

section \<open>The server\<close>

text \<open>\<^verbatim>\<open>QUICServer.Start\<close>: as for the other listeners, an error of \<^verbatim>\<open>Accept\<close> ends it once the context is done.\<close>

definition quic_Start :: "error option \<Rightarrow> (bool \<times> 'c res) list \<Rightarrow> error + 'c list \<times> bool" where
  "quic_Start listenErr evs = (case listenErr of Some e \<Rightarrow> Inl e | None \<Rightarrow> Inr (accept_loop evs))"

text \<open>
  \<^verbatim>\<open>handleConnection\<close>: one goroutine reads datagrams and calls the datagram handler in turn, the
  other accepts streams and starts a goroutine for each; both end at the first error. The two
  queues are what the library will return; the flags say that a loop still runs.
\<close>

record 's quic_conn =
  qc_datagrams :: "bytes res list"
  qc_streams :: "'s res list"
  qc_dloop :: bool
  qc_sloop :: bool

text \<open>
  The server with its connections, and the calls of the two handlers so far, each with the
  index of its connection.
\<close>

record 's quic_world =
  qw_conns :: "'s quic_conn list"
  qw_dcalls :: "(nat \<times> bytes) list"
  qw_scalls :: "(nat \<times> 's) list"
  qw_done :: bool

definition new_quic_conn :: "bytes res list \<Rightarrow> 's res list \<Rightarrow> 's quic_conn" where
  "new_quic_conn ds ss = \<lparr>qc_datagrams = ds, qc_streams = ss, qc_dloop = True, qc_sloop = True\<rparr>"

text \<open>
  One round of each loop. An exhausted queue blocks the loop; once the context is done, the calls
  fail whatever would still arrive.
\<close>

definition datagram_round :: "nat \<Rightarrow> 's quic_world \<Rightarrow> 's quic_world" where
  "datagram_round i w = (let c = qw_conns w ! i; stop = w\<lparr>qw_conns := (qw_conns w)[i := c\<lparr>qc_dloop := False\<rparr>]\<rparr> in
     if \<not> qc_dloop c then w
     else if qw_done w then stop
     else (case qc_datagrams c of
         [] \<Rightarrow> w
       | Inl e # ds \<Rightarrow> stop
       | Inr d # ds \<Rightarrow> w\<lparr>qw_conns := (qw_conns w)[i := c\<lparr>qc_datagrams := ds\<rparr>], qw_dcalls := qw_dcalls w @ [(i, d)]\<rparr>))"

definition stream_round :: "nat \<Rightarrow> 's quic_world \<Rightarrow> 's quic_world" where
  "stream_round i w = (let c = qw_conns w ! i; stop = w\<lparr>qw_conns := (qw_conns w)[i := c\<lparr>qc_sloop := False\<rparr>]\<rparr> in
     if \<not> qc_sloop c then w
     else if qw_done w then stop
     else (case qc_streams c of
         [] \<Rightarrow> w
       | Inl e # ss \<Rightarrow> stop
       | Inr s # ss \<Rightarrow> w\<lparr>qw_conns := (qw_conns w)[i := c\<lparr>qc_streams := ss\<rparr>], qw_scalls := qw_scalls w @ [(i, s)]\<rparr>))"

inductive quic_step :: "'s quic_world \<Rightarrow> 's quic_world \<Rightarrow> bool" where
  Accepted: "\<not> qw_done w \<Longrightarrow> quic_step w (w\<lparr>qw_conns := qw_conns w @ [new_quic_conn ds ss]\<rparr>)"
| Datagram: "i < length (qw_conns w) \<Longrightarrow> quic_step w (datagram_round i w)"
| Stream: "i < length (qw_conns w) \<Longrightarrow> quic_step w (stream_round i w)"
| Cancelled: "quic_step w (w\<lparr>qw_done := True\<rparr>)"

inductive_cases quic_stepE: "quic_step w w'"

definition quic_world0 :: "'s quic_world" where
  "quic_world0 = \<lparr>qw_conns = [], qw_dcalls = [], qw_scalls = [], qw_done = False\<rparr>"

section \<open>The pool under concurrency\<close>

text \<open>\<^verbatim>\<open>Get\<close> releases the lock between its lookup and the store: \<open>qp_store\<close> is the part after a successful dial.\<close>

definition qp_lookup :: "string \<Rightarrow> 'c QUICPool \<Rightarrow> 'c option" where
  "qp_lookup addr p = (case qp_conns p of None \<Rightarrow> None | Some m \<Rightarrow> map_of m addr)"

definition qp_store :: "string \<Rightarrow> 'c \<Rightarrow> 'c QUICPool \<Rightarrow> 'c res \<times> 'c QUICPool" where
  "qp_store addr c p = (case qp_conns p of
     None \<Rightarrow> (Inl (GoPanic ''assignment to entry in nil map''), p)
   | Some m \<Rightarrow> (Inr c, p\<lparr>qp_conns := Some (AList.update addr c m)\<rparr>))"

lemma qp_Get_parts: "qp_Get dialAddr addr p = (case qp_lookup addr p of
     Some c \<Rightarrow> (Inr c, p)
   | None \<Rightarrow> (case dialAddr addr of Inl e \<Rightarrow> (Inl e, p) | Inr c \<Rightarrow> qp_store addr c p))"
  by (simp add: qp_Get_def qp_lookup_def qp_store_def split: option.splits sum.splits)

section \<open>Properties\<close>

text \<open>
  A rotation of the CA cuts nodes off. When both nodes reload certificates of a new authority, the
  configurations they handed out at start present the new certificates and check the old pools: a
  handshake between them needs the old authority to accept the new certificates. Where it does
  not, the nodes no longer connect, not even with \<^verbatim>\<open>insecure\<close>, although freshly made
  configurations would.
\<close>

theorem ca_rotation_cuts_off:
  assumes "load_certs loadPair readFile poolOf (ct_certFile cm1) (ct_keyFile cm1) (ct_caFile cm1) = Inr (cert1, pool1)"
    and "load_certs loadPair' readFile' poolOf (ct_certFile cm2) (ct_keyFile cm2) (ct_caFile cm2) = Inr (cert2, pool2)"
    and "Reload loadPair readFile poolOf cm1 = (e1, cm1')" "Reload loadPair' readFile' poolOf cm2 = (e2, cm2')"
    and "clientOK pool2 cert1" "serverOK pool1 cert2 sn" "\<not> clientOK (ct_caCertPool cm2) cert1"
  shows "handshake serverOK clientOK cm1' (GetTLSConfigClient sn cm1') cm2' (GetTLSConfigServer cm2')
    \<and> \<not> handshake serverOK clientOK cm1' (GetTLSConfigClient sn cm1) cm2' (GetTLSConfigServer cm2)
    \<and> \<not> handshake serverOK clientOK cm1' (GetTLSConfigClient sn cm1') cm2' (GetTLSConfigServer cm2)"
  using assms by (simp add: Reload_def handshake_def GetTLSConfigClient_def GetTLSConfigServer_def) auto

theorem ca_rotation_cuts_off_witness:
  "let cm = \<lparr>ct_cert = 1 :: nat, ct_caCertPool = [1 :: byte], ct_certFile = ''c'', ct_keyFile = ''k'', ct_caFile = ''a'', ct_insecure = True\<rparr>;
       cm' = snd (Reload (\<lambda>c k. Inr 2) (\<lambda>f. Inr [2]) id cm); ok = (\<lambda>pool cert. [of_nat cert] = pool) in
   handshake (\<lambda>pool cert n. ok pool cert) ok cm' (GetTLSConfigClient ''localhost'' cm') cm' (GetTLSConfigServer cm')
   \<and> \<not> handshake (\<lambda>pool cert n. ok pool cert) ok cm' (GetTLSConfigClient ''localhost'' cm) cm' (GetTLSConfigServer cm)"
proof -
  let ?cm = "\<lparr>ct_cert = 1 :: nat, ct_caCertPool = [1 :: byte], ct_certFile = ''c'', ct_keyFile = ''k'', ct_caFile = ''a'', ct_insecure = True\<rparr>"
  let ?ok = "\<lambda>(pool :: bytes) cert. [of_nat cert] = pool"
  obtain e cm' where r: "Reload (\<lambda>c k. Inr 2) (\<lambda>f. Inr [2]) id ?cm = (e, cm')" by (metis prod.exhaust)
  have l: "load_certs (\<lambda>c k. Inr 2) (\<lambda>f. Inr [2]) id (ct_certFile ?cm) (ct_keyFile ?cm) (ct_caFile ?cm) = Inr (2 :: nat, [2 :: byte])"
    by (simp add: load_certs_def)
  have "?ok [2] 2" "\<not> ?ok (ct_caCertPool ?cm) 2" by simp_all
  from ca_rotation_cuts_off [OF l l r r, of ?ok "\<lambda>pool cert n. ?ok pool cert" "''localhost''"] this r show ?thesis by (simp add: Let_def)
qed

text \<open>What of a queue a loop can hand on: everything before the first error.\<close>

fun before_error :: "'a res list \<Rightarrow> 'a list" where
  "before_error [] = []"
| "before_error (Inl e # xs) = []"
| "before_error (Inr x # xs) = x # before_error xs"

definition calls_of :: "nat \<Rightarrow> (nat \<times> 'a) list \<Rightarrow> 'a list" where
  "calls_of i cs = map snd (filter (\<lambda>c. fst c = i) cs)"

lemma calls_of_simps [simp]: "calls_of i [] = []" "calls_of i (xs @ [(j, x)]) = calls_of i xs @ (if i = j then [x] else [])"
  by (simp_all add: calls_of_def)

text \<open>
  The invariant of one connection, for the queues \<open>ds\<close> and \<open>ss\<close> it was accepted with: the calls so
  far and what is left make up the queue, and a loop only stops at an error or when the context is
  done.
\<close>

definition conn_calls :: "bytes res list \<Rightarrow> 's res list \<Rightarrow> nat \<Rightarrow> 's quic_world \<Rightarrow> bool" where
  "conn_calls ds ss i w \<longleftrightarrow> i < length (qw_conns w)
     \<and> calls_of i (qw_dcalls w) @ before_error (qc_datagrams (qw_conns w ! i)) = before_error ds
     \<and> calls_of i (qw_scalls w) @ before_error (qc_streams (qw_conns w ! i)) = before_error ss
     \<and> (qw_done w \<or> qc_dloop (qw_conns w ! i) \<or> before_error (qc_datagrams (qw_conns w ! i)) = [])
     \<and> (qw_done w \<or> qc_sloop (qw_conns w ! i) \<or> before_error (qc_streams (qw_conns w ! i)) = [])"

definition calls_known :: "'s quic_world \<Rightarrow> bool" where
  "calls_known w \<longleftrightarrow> (\<forall>c \<in> set (qw_dcalls w). fst c < length (qw_conns w)) \<and> (\<forall>c \<in> set (qw_scalls w). fst c < length (qw_conns w))"

lemma calls_known_step: "quic_step w w' \<Longrightarrow> calls_known w \<Longrightarrow> calls_known w'"
proof (induction rule: quic_step.induct)
  case (Accepted w ds ss)
  then show ?case by (auto simp: calls_known_def intro: less_SucI)
qed (auto simp: calls_known_def datagram_round_def stream_round_def Let_def split: list.splits sum.splits)

lemma calls_known_reach: "quic_step\<^sup>*\<^sup>* quic_world0 w \<Longrightarrow> calls_known w"
proof (induction rule: rtranclp_induct)
  case base
  show ?case by (simp add: calls_known_def quic_world0_def)
qed (rule calls_known_step)

lemma conn_calls_step:
  assumes "quic_step w w'" "conn_calls ds ss i w"
  shows "conn_calls ds ss i w'"
  using assms
proof (cases rule: quic_step.cases)
  case (Datagram j)
  with assms(2) show ?thesis
    by (cases "i = j") (auto simp: conn_calls_def datagram_round_def Let_def nth_list_update split: list.splits sum.splits)
next
  case (Stream j)
  with assms(2) show ?thesis
    by (cases "i = j") (auto simp: conn_calls_def stream_round_def Let_def nth_list_update split: list.splits sum.splits)
qed (auto simp: conn_calls_def nth_append)

lemma conn_calls_reach: "quic_step\<^sup>*\<^sup>* w w' \<Longrightarrow> conn_calls ds ss i w \<Longrightarrow> conn_calls ds ss i w'"
  by (induction rule: rtranclp_induct) (auto intro: conn_calls_step)

text \<open>A loop that makes no progress has handed on everything before the first error.\<close>

lemma datagram_round_stuck:
  assumes "datagram_round i w = w" "\<not> qw_done w" "qc_dloop (qw_conns w ! i)"
  shows "before_error (qc_datagrams (qw_conns w ! i)) = []"
proof (cases "qc_datagrams (qw_conns w ! i)")
  case (Cons r ds)
  have "qw_dcalls (datagram_round i w) = qw_dcalls w" using assms(1) by simp
  then show ?thesis using Cons assms(2,3) by (cases r) (simp_all add: datagram_round_def)
qed simp

lemma stream_round_stuck:
  assumes "stream_round i w = w" "\<not> qw_done w" "qc_sloop (qw_conns w ! i)"
  shows "before_error (qc_streams (qw_conns w ! i)) = []"
proof (cases "qc_streams (qw_conns w ! i)")
  case (Cons r ss)
  have "qw_scalls (stream_round i w) = qw_scalls w" using assms(1) by simp
  then show ?thesis using Cons assms(2,3) by (cases r) (simp_all add: stream_round_def)
qed simp



text \<open>
  \<^verbatim>\<open>Start\<close> of the server ends exactly with the agent's context. After any accepted connections, while
  the context lives it does not return however often accepting fails, and it returns at the
  first failure after the context is done; every connection accepted before is handed on.
\<close>

theorem quic_server_stops:
  "quic_Start None (map (\<lambda>c. (False, Inr c)) cs @ replicate k (False, Inl e)) = Inr (cs, False)
    \<and> quic_Start None (map (\<lambda>c. (False, Inr c)) cs @ replicate k (False, Inl e) @ (True, Inl e) # rest) = Inr (cs, True)
    \<and> quic_Start (Some e) evs = Inl e"
proof -
  have a: "accept_loop (map (\<lambda>c. (False, Inr c)) cs @ evs) = (cs @ fst (accept_loop evs), snd (accept_loop evs))" for cs :: "'a list" and evs
    by (induction cs) (simp_all split: prod.splits)
  have b: "accept_loop (replicate k (False, Inl e) @ evs) = accept_loop evs" for k e and evs :: "(bool \<times> 'a res) list" by (induction k) auto
  show ?thesis using b [of k e "[]"] by (simp add: quic_Start_def a b)
qed

text \<open>
  Two goroutines that dial the same address through the pool leave a connection behind. When both
  have missed the address before either stores its connection, the pool keeps the second one;
  the first is in use, is not closed by \<^verbatim>\<open>Close\<close>, and is never handed out again.
\<close>

theorem quic_pool_race:
  assumes "qp_lookup addr p = None" "qp_conns p = Some m" "c1 \<notin> snd ` set m" "c1 \<noteq> c2"
    and "qp_store addr c1 p = (r1, p1)" "qp_store addr c2 p1 = (r2, p2)"
  shows "r1 = Inr c1 \<and> r2 = Inr c2 \<and> qp_lookup addr p2 = Some c2 \<and> (\<forall>a. qp_lookup a p2 \<noteq> Some c1)
    \<and> c1 \<notin> set (fst (qp_Close p2)) \<and> c2 \<in> set (fst (qp_Close p2))"
proof -
  have new: "addr \<notin> fst ` set m" using assms(1,2) by (simp add: qp_lookup_def map_of_eq_None_iff)
  have p2: "r1 = Inr c1" "r2 = Inr c2" "qp_conns p2 = Some (AList.update addr c2 (AList.update addr c1 m))"
    using assms(2,5,6) by (auto simp: qp_store_def)
  have "AList.update addr c2 (AList.update addr c1 m) = m @ [(addr, c2)]"
  proof -
    have "AList.update addr c1 m = m @ [(addr, c1)]" using new by (rule update_new)
    moreover have "AList.update addr c2 (m @ [(addr, c1)]) = m @ [(addr, c2)]" using new by (induction m) auto
    ultimately show ?thesis by simp
  qed
  then have m2: "qp_conns p2 = Some (m @ [(addr, c2)])" using p2(3) by simp
  have "map_of (m @ [(addr, c2)]) a \<noteq> Some c1" for a
    using assms(3,4) by (auto dest!: map_of_SomeD intro: rev_image_eqI split: if_splits)
  moreover have "map_of (m @ [(addr, c2)]) addr = Some c2" using new by (simp add: map_add_Some_iff map_of_eq_None_iff)
  ultimately show ?thesis using p2(1,2) m2 assms(3,4) by (auto simp: qp_lookup_def qp_Close_def)
qed

theorem quic_pool_race_witness:
  "qp_lookup ''n:443'' (snd (qp_store ''n:443'' 2 (snd (qp_store ''n:443'' (1 :: nat) NewQUICPool)))) = Some 2"
proof -
  let ?p1 = "snd (qp_store ''n:443'' (1 :: nat) NewQUICPool)"
  have "qp_lookup ''n:443'' NewQUICPool = (None :: nat option)" "qp_conns NewQUICPool = Some ([] :: (string \<times> nat) list)"
    by (simp_all add: qp_lookup_def NewQUICPool_def)
  from quic_pool_race [OF this, of 1 2 "fst (qp_store ''n:443'' 1 NewQUICPool)" ?p1 "fst (qp_store ''n:443'' 2 ?p1)" "snd (qp_store ''n:443'' 2 ?p1)"]
  show ?thesis by simp
qed

end
