(* ===== verification/Node.thy ===== *)
theory Node
  imports Agent Lifecycle QUIC
begin

text \<open>
  A running node: the agent together with the goroutines it starts. A configuration update starts
  a goroutine that first changes the router and then, under a lock, the inbounds
  (\<^verbatim>\<open>ConfigManager.Update\<close>, \<^verbatim>\<open>Agent.Start\<close>); every inbound runs its \<^verbatim>\<open>Start\<close> in a goroutine of its own
  (\<^verbatim>\<open>Agent.syncInbounds\<close>). \<open>node_step\<close> interleaves them with policies, administration, logins, traffic,
  dials, name lookups, health probes and UDP sessions. With \<open>orderly\<close>, an update only comes when none is in progress, and inbounds are
  only changed when every inbound started before has opened its socket.
\<close>

section \<open>State\<close>

text \<open>An inbound handler object: whether its \<^verbatim>\<open>Start\<close> has run, whether the agent dropped it, and its sockets.\<close>

record in_obj =
  io_key :: string
  io_handler :: InboundHandler
  io_ran :: bool
  io_dropped :: bool
  io_socks :: "socket list"

definition new_obj :: "string \<times> InboundHandler \<Rightarrow> in_obj" where
  "new_obj e = \<lparr>io_key = fst e, io_handler = snd e, io_ran = False, io_dropped = False, io_socks = []\<rparr>"

text \<open>\<^verbatim>\<open>handler.Stop()\<close>, by the kind of the handler.\<close>

definition stop_one :: "('h live \<Rightarrow> error option \<times> 'h live) \<Rightarrow> 'h \<Rightarrow> socket list \<Rightarrow> socket list" where
  "stop_one stop h socks = (case socks of [] \<Rightarrow> [] | s # _ \<Rightarrow>
     (case lv_sock (snd (stop \<lparr>lv_handler = h, lv_sock = Some s\<rparr>)) of None \<Rightarrow> [] | Some s' \<Rightarrow> [s']))"

fun in_Stop :: "InboundHandler \<Rightarrow> socket list \<Rightarrow> socket list" where
  "in_Stop (InSocks5 h) socks = stop_one s5_Stop h socks"
| "in_Stop (InHTTP h) socks = stop_one hp_Stop h socks"
| "in_Stop (InTCPForward h) socks = stop_one tf_Stop h socks"
| "in_Stop (InTCPBalance h) socks = stop_one tb_Stop h socks"
| "in_Stop (InUDPForward h) socks = stop_one uf_Stop h socks"
| "in_Stop (InUDPRange h) socks = snd (snd (ur_Stop (h, socks)))"
| "in_Stop (InRedirect h) socks = stop_one rd_Stop h socks"
| "in_Stop (InTProxy h) socks = stop_one tp_Stop h socks"

text \<open>
  Updates whose goroutine has not started, those between the router and the inbounds, and all
  configurations accepted so far.
\<close>

record node =
  nd_agent :: Agent
  nd_objs :: "in_obj list"
  nd_pending :: "Config list"
  nd_mid :: "Config list"
  nd_history :: "Config list"

definition node_start :: "Config \<Rightarrow> Agent \<Rightarrow> node" where
  "node_start cfg a = \<lparr>nd_agent = a, nd_objs = map new_obj (ag_activeInbounds a), nd_pending = [], nd_mid = [], nd_history = [cfg]\<rparr>"

definition quiet :: "node \<Rightarrow> bool" where
  "quiet nd \<longleftrightarrow> nd_pending nd = [] \<and> nd_mid nd = []"

definition settled :: "node \<Rightarrow> bool" where
  "settled nd \<longleftrightarrow> list_all io_ran (nd_objs nd)"

section \<open>Steps\<close>

text \<open>\<^verbatim>\<open>syncInbounds\<close> on the objects: the removed ones are stopped, the new ones get a goroutine.\<close>

definition drop_obj :: "Config \<Rightarrow> in_obj \<Rightarrow> in_obj" where
  "drop_obj cfg ob = (if \<not> io_dropped ob \<and> map_of (newInboundMap cfg) (io_key ob) = None
     then ob\<lparr>io_dropped := True, io_socks := in_Stop (io_handler ob) (io_socks ob)\<rparr> else ob)"

definition spawned :: "Agent \<Rightarrow> Agent \<Rightarrow> in_obj list" where
  "spawned a a' = map new_obj (filter (\<lambda>e. map_of (ag_activeInbounds a) (fst e) = None) (ag_activeInbounds a'))"

definition node_sync :: "Config \<Rightarrow> node \<Rightarrow> node" where
  "node_sync cfg nd = (let a' = snd (syncInbounds cfg (nd_agent nd)) in
     nd\<lparr>nd_agent := a', nd_objs := map (drop_obj cfg) (nd_objs nd) @ spawned (nd_agent nd) a'\<rparr>)"

text \<open>A probe, a tick of the pool or a dial changes the handler the router holds a pointer to.\<close>

definition on_named :: "string \<Rightarrow> (NPChainHandler \<Rightarrow> NPChainHandler) \<Rightarrow> Agent \<Rightarrow> Agent" where
  "on_named n f a = a\<lparr>ag_router := (ag_router a)\<lparr>br_outbounds := map (\<lambda>(k, h). (k, case h of
     NPChain c \<Rightarrow> if k = n then NPChain (f c) else h | _ \<Rightarrow> h)) (br_outbounds (ag_router a))\<rparr>\<rparr>"

text \<open>The gauge a probe sets.\<close>

definition probe_gauge :: "(string \<Rightarrow> conn res) \<Rightarrow> int \<Rightarrow> NPChainHandler \<Rightarrow> metrics \<Rightarrow> metrics" where
  "probe_gauge quicDial elapsed n mt = SetNodeLatencyMs (n_name n) (n_latencyMs (probe_tick quicDial elapsed n)) mt"

definition remove_nth :: "nat \<Rightarrow> 'a list \<Rightarrow> 'a list" where
  "remove_nth i xs = take i xs @ drop (Suc i) xs"

text \<open>Steps that touch neither the configuration, the rules nor the inbounds.\<close>

inductive side_step :: "Agent \<Rightarrow> Agent \<Rightarrow> bool" where
  Policy: "side_step a (handlePolicyUpdate ps a)"
| Session: "side_step a (a\<lparr>ag_udpSessions := udp_Add sid s (ag_udpSessions a)\<rparr>)"
| Flushed: "handleAdminDNSFlush a = (r, a') \<Longrightarrow> side_step a a'"
| QuotaReset: "handleAdminQuotaReset u a = (r, a') \<Longrightarrow> side_step a a'"
| Probe: "side_step a (on_named n (probe_tick quicDial elapsed) a)"
| Pool: "side_step a (on_named n (pool_tick quicDial) a)"
| Dialed: "side_step a (on_named n (\<lambda>c. snd (getStreamConn quicDial c)) a)"
| Login: "side_step a (a\<lparr>ag_limiterManager := snd (GetOrCreate u (ag_limiterManager a))\<rparr>)"
| Usage: "side_step a (a\<lparr>ag_quotaManager := snd (AddUsage u n (ag_quotaManager a))\<rparr>)"
| Lookup: "ag_dns a = Some sr \<Longrightarrow> side_step a (a\<lparr>ag_dns := Some (snd (LookupIP lib route now now2 evs host sr))\<rparr>)"
| Stopped: "agent_Stop a = Inr a' \<Longrightarrow> side_step a a'"

inductive node_step :: "bool \<Rightarrow> node \<Rightarrow> node \<Rightarrow> bool" for orderly where
  Update: "orderly \<longrightarrow> quiet nd \<Longrightarrow> ApplyConfig cfg (nd_agent nd) = ((e, cbs), a) \<Longrightarrow>
     node_step orderly nd (nd\<lparr>nd_agent := a, nd_pending := nd_pending nd @ map snd cbs,
       nd_history := nd_history nd @ (if e = None then [cfg] else [])\<rparr>)"
| UpdateRouter: "i < length (nd_pending nd) \<Longrightarrow> applyConfigToRouter (nd_pending nd ! i) (nd_agent nd) = Inr a \<Longrightarrow>
     node_step orderly nd (nd\<lparr>nd_agent := a, nd_pending := remove_nth i (nd_pending nd), nd_mid := nd_mid nd @ [nd_pending nd ! i]\<rparr>)"
| UpdateInbounds: "orderly \<longrightarrow> settled nd \<Longrightarrow> i < length (nd_mid nd) \<Longrightarrow>
     node_step orderly nd (node_sync (nd_mid nd ! i) (nd\<lparr>nd_mid := remove_nth i (nd_mid nd)\<rparr>))"
| Opened: "i < length (nd_objs nd) \<Longrightarrow> \<not> io_ran (nd_objs nd ! i) \<Longrightarrow>
     node_step orderly nd (nd\<lparr>nd_objs := (nd_objs nd)[i := (nd_objs nd ! i)\<lparr>io_ran := True, io_socks := socks\<rparr>]\<rparr>)"
| Side: "side_step (nd_agent nd) a \<Longrightarrow> node_step orderly nd (nd\<lparr>nd_agent := a\<rparr>)"

inductive_cases node_stepE: "node_step orderly nd nd'"

section \<open>Lemmas on the operations\<close>

lemma remove_nth_set: "set (remove_nth i xs) \<subseteq> set xs"
  by (auto simp: remove_nth_def dest: in_set_takeD in_set_dropD)

text \<open>The part of an outbound that probes and pools do not change.\<close>

fun out_id :: "OutboundHandler \<Rightarrow> OutboundHandler" where
  "out_id (NPChain n) = NPChain (n\<lparr>n_conns := [], n_latencyMs := 0\<rparr>)"
| "out_id h = h"

lemma out_id_configured [simp]: "out_id (configured c) = configured c"
  by (simp add: configured_def NewNPChainHandler_def)

lemma out_id_name: "out_Name (out_id h) = out_Name h"
  by (cases h rule: out_id.cases) simp_all

text \<open>What a step of the side leaves alone.\<close>

definition outbound_ids :: "Agent \<Rightarrow> (string \<times> OutboundHandler) list" where
  "outbound_ids a = map (\<lambda>(k, h). (k, out_id h)) (br_outbounds (ag_router a))"

definition same_core :: "Agent \<Rightarrow> Agent \<Rightarrow> bool" where
  "same_core a b \<longleftrightarrow> ag_cm b = ag_cm a \<and> ag_activeInbounds b = ag_activeInbounds a \<and> ag_state b = ag_state a
     \<and> (ag_dns b = None \<longleftrightarrow> ag_dns a = None) \<and> br_rules (ag_router b) = br_rules (ag_router a)
     \<and> br_resolver (ag_router b) = br_resolver (ag_router a) \<and> outbound_ids b = outbound_ids a"

lemma same_core_refl: "same_core a a"
  by (simp add: same_core_def)

lemma policy_core: "same_core a (handlePolicyUpdate ps a)"
proof (induction ps arbitrary: a)
  case (Cons p ps)
  have "same_core a (policy_one p a)" by (simp add: same_core_def outbound_ids_def policy_one_def Let_def)
  with Cons [of "policy_one p a"] show ?case by (simp add: same_core_def)
qed (simp add: same_core_refl)

lemma on_named_core:
  assumes "\<And>c. out_id (NPChain (f c)) = out_id (NPChain c)"
  shows "same_core a (on_named n f a)"
proof -
  have "out_id (case h of NPChain c \<Rightarrow> if k = n then NPChain (f c) else h | _ \<Rightarrow> h) = out_id h" for k h
    using assms by (cases h) (simp_all del: out_id.simps)
  then show ?thesis by (simp add: same_core_def outbound_ids_def on_named_def o_def split_def)
qed

lemma side_core: "side_step a b \<Longrightarrow> same_core a b"
proof (induction rule: side_step.induct)
  case (Policy a ps)
  show ?case by (rule policy_core)
next
  case (Probe a n quicDial elapsed)
  show ?case by (rule on_named_core) (simp add: probe_tick_def split: sum.splits)
next
  case (Pool a n quicDial)
  show ?case by (rule on_named_core) (simp add: pool_tick_def split: sum.splits)
next
  case (Dialed a n quicDial)
  show ?case by (rule on_named_core) (simp add: getStreamConn_def)
qed (auto simp: same_core_def outbound_ids_def handleAdminDNSFlush_def handleAdminQuotaReset_def agent_Stop_def split: option.splits if_splits)

lemma entries_update:
  assumes "\<And>e. e \<in> set xs \<Longrightarrow> Q (fst e) (snd e)" "Q k v"
  shows "\<And>e. e \<in> set (AList.update k v xs) \<Longrightarrow> Q (fst e) (snd e)"
  using assms set_update_sub [of k v xs] by (metis fst_conv insertE snd_conv subsetD)

text \<open>Adding outbounds keeps the names unique and every property the configured outbounds have.\<close>

lemma add_outbounds_entries:
  assumes "add_outbounds certs cs r = Inr r'" "distinct (map fst (br_outbounds r))"
    and "\<And>e. e \<in> set (br_outbounds r) \<Longrightarrow> Q (fst e) (snd e)" "\<And>c. c \<in> set cs \<Longrightarrow> supported c \<Longrightarrow> Q (oo_Name c) (configured c)"
  shows "distinct (map fst (br_outbounds r')) \<and> (\<forall>e \<in> set (br_outbounds r'). Q (fst e) (snd e))"
  using assms
proof (induction certs cs r rule: add_outbounds.induct)
  case (2 certs c cs r)
  then obtain h where h: "outbound_of certs c = Inr h" by (cases "outbound_of certs c") auto
  show ?case
  proof (cases h)
    case None
    with 2 h show ?thesis by simp
  next
    case (Some g)
    then have g: "supported c" "g = configured c" using h by (auto simp: outbound_of_cases split: if_splits)
    have "add_outbounds certs cs (AddOutbound g r) = Inr r'" using 2(2) h Some by simp
    moreover have "distinct (map fst (br_outbounds (AddOutbound g r)))" using 2(3) by (simp add: AddOutbound_def distinct_update)
    moreover have "Q (fst e) (snd e)" if "e \<in> set (br_outbounds (AddOutbound g r))" for e
      by (rule entries_update [where xs = "br_outbounds r" and k = "out_Name g" and v = g])
        (use 2(4,5) that g in \<open>auto simp: AddOutbound_def configured_name\<close>)
    ultimately show ?thesis using 2(1) [OF h] Some 2(5) by simp
  qed
qed auto

lemma applyConfig_frame:
  assumes "applyConfigToRouter cfg a = Inr b"
  shows "ag_cm b = ag_cm a" "ag_activeInbounds b = ag_activeInbounds a" "ag_state b = ag_state a" "ag_dns b = ag_dns a"
    "br_rules (ag_router b) = rc_Rules (cf_Routing cfg)" "br_resolver (ag_router b) = br_resolver (ag_router a)"
proof -
  obtain r where r: "add_outbounds (ag_certManager a \<noteq> None) (cf_Outbounds cfg) (ag_router a) = Inr r"
      "b = a\<lparr>ag_router := UpdateRules (rc_Rules (cf_Routing cfg)) r\<rparr>"
    using assms by (auto simp: applyConfigToRouter_def res_bind_def split: sum.splits)
  with add_outbounds_lookup [OF r(1)]
  show "ag_cm b = ag_cm a" "ag_activeInbounds b = ag_activeInbounds a" "ag_state b = ag_state a" "ag_dns b = ag_dns a"
    "br_rules (ag_router b) = rc_Rules (cf_Routing cfg)" "br_resolver (ag_router b) = br_resolver (ag_router a)"
    by (simp_all add: UpdateRules_def)
qed

lemma applyConfig_entries:
  assumes "applyConfigToRouter cfg a = Inr b" "distinct (map fst (br_outbounds (ag_router a)))"
    and "\<And>e. e \<in> set (br_outbounds (ag_router a)) \<Longrightarrow> Q (fst e) (snd e)"
    and "\<And>c. c \<in> set (cf_Outbounds cfg) \<Longrightarrow> supported c \<Longrightarrow> Q (oo_Name c) (configured c)"
  shows "distinct (map fst (br_outbounds (ag_router b))) \<and> (\<forall>e \<in> set (br_outbounds (ag_router b)). Q (fst e) (snd e))"
proof -
  obtain r where "add_outbounds (ag_certManager a \<noteq> None) (cf_Outbounds cfg) (ag_router a) = Inr r"
      "br_outbounds (ag_router b) = br_outbounds r"
    using assms(1) by (auto simp: applyConfigToRouter_def res_bind_def UpdateRules_def split: sum.splits)
  with add_outbounds_entries [where Q = Q, OF this(1) assms(2-4)] show ?thesis by simp
qed

text \<open>The key of a handler, from its kind and its listen address.\<close>

fun in_key :: "InboundHandler \<Rightarrow> string" where
  "in_key (InSocks5 h) = ''socks5-'' @ s5_listenAddr h"
| "in_key (InHTTP h) = ''http-'' @ hp_listenAddr h"
| "in_key (InTCPForward h) = ''tcp-forward-'' @ tf_listenAddr h"
| "in_key (InTCPBalance h) = ''tcp-balance-'' @ tb_listenAddr h"
| "in_key (InUDPForward h) = ''udp-forward-'' @ uf_listenAddr h"
| "in_key (InUDPRange h) = ''udp-range-'' @ ur_listenAddr h"
| "in_key (InRedirect h) = ''redirect-'' @ rd_listenAddr h"
| "in_key (InTProxy h) = ''tproxy-'' @ tp_listenAddr h"

lemma make_inbound_key: "make_inbound c = Some h \<Longrightarrow> in_key h = inbound_key c"
  by (auto simp: make_inbound_def inbound_key_def Let_def NewSocks5Handler_def NewHTTPProxyHandler_def NewTCPForwardHandler_def
      NewTCPBalanceHandler_def NewUDPForwardHandler_def NewUDPRangeHandler_def NewRedirectHandler_def NewTProxyHandler_def split: if_splits)

lemma start_inbounds_distinct: "distinct (map fst active) \<Longrightarrow> distinct (map fst (snd (start_inbounds cs active)))"
  by (induction cs active rule: start_inbounds.induct) (auto simp: distinct_update split: option.splits prod.splits)

lemma sync_distinct:
  assumes "distinct (map fst (ag_activeInbounds a))"
  shows "distinct (map fst (ag_activeInbounds (snd (syncInbounds cfg a))))"
proof -
  have "distinct (map fst (filter P (ag_activeInbounds a)))" for P using assms by (rule distinct_map_filter)
  then show ?thesis using start_inbounds_distinct by (simp add: syncInbounds_def Let_def split: prod.splits) (metis snd_conv)
qed

text \<open>After \<^verbatim>\<open>Stop\<close> no socket of a handler is open.\<close>

lemma stop_one_closed:
  assumes "\<And>h. live_opened (snd (stop h)) = 0"
  shows "list_all (\<lambda>s. \<not> so_open s) (stop_one stop h socks)"
  using assms [of "\<lparr>lv_handler = h, lv_sock = Some (hd socks)\<rparr>"]
  by (cases socks) (auto simp: stop_one_def live_opened_def split: option.splits if_splits)

lemma in_Stop_closed: "list_all (\<lambda>s. \<not> so_open s) (in_Stop h socks)"
proof (cases h)
  case (InUDPRange u)
  then show ?thesis using ur.stop_closes [of "(u, socks)"] by (simp add: range_opened_def filter_empty_conv list_all_iff)
qed (simp_all add: stop_one_closed s5.stop_closes hp.stop_closes tf.stop_closes tb.stop_closes uf.stop_closes rd.stop_closes tp.stop_closes)

lemma map_of_inject_set: "map_of xs = map_of ys \<Longrightarrow> distinct (map fst xs) \<Longrightarrow> distinct (map fst ys) \<Longrightarrow> set xs = set ys"
  by (metis map_of_SomeD map_of_is_SomeI subrelI subset_antisym)

text \<open>Routing only returns outbounds the router knows.\<close>

lemma route_rules_known:
  assumes "\<And>xs. set (ord xs) = set xs" "route_rules ord r meta = Inr h"
  shows "h \<in> snd ` set (br_outbounds r)"
proof -
  have known: "g \<in> snd ` set (br_outbounds r)" if "map_of (br_outbounds r) n = Some g" for n g
    using map_of_SomeD [OF that] by force
  show ?thesis
  proof (cases "find (\<lambda>rule. rule_match (br_geoip r) rule meta) (br_rules r)")
    case None
    then show ?thesis using assms(2) known by (auto simp: route_rules_def no_outbound_def split: option.splits)
  next
    case (Some rule)
    let ?cs = "filter (\<lambda>h. out_Group h = r_OutboundGroup rule) (map snd (ord (br_outbounds r)))"
    show ?thesis
    proof (cases "r_Outbound rule = []")
      case True
      with Some assms(2) have "?cs \<noteq> []" "selectByStrategy ?cs (r_Strategy rule) = Inr h"
        by (auto simp: route_rules_def Let_def split: if_splits)
      then have "h \<in> set ?cs" using selectByStrategy_spec [of ?cs "r_Strategy rule"] by auto
      then show ?thesis using assms(1) by auto
    next
      case False
      with Some assms(2) known show ?thesis by (auto simp: route_rules_def no_outbound_def split: option.splits)
    qed
  qed
qed

section \<open>Well-formed nodes\<close>

text \<open>An outbound of the router goes back to a configuration the agent accepted.\<close>

definition from_config :: "Config list \<Rightarrow> string \<Rightarrow> OutboundHandler \<Rightarrow> bool" where
  "from_config hist n h \<longleftrightarrow> (\<exists>cfg \<in> set hist. \<exists>c \<in> set (cf_Outbounds cfg). supported c \<and> oo_Name c = n \<and> h = configured c)"

definition router_ok :: "Config list \<Rightarrow> Agent \<Rightarrow> bool" where
  "router_ok hist a \<longleftrightarrow> distinct (map fst (outbound_ids a)) \<and> (\<forall>e \<in> set (outbound_ids a). from_config hist (fst e) (snd e))
     \<and> (\<exists>cfg \<in> set hist. br_rules (ag_router a) = rc_Rules (cf_Routing cfg)) \<and> br_resolver (ag_router a) = Some ()
     \<and> cm_Get (ag_cm a) \<in> set hist \<and> ag_state a = 1 \<and> ag_dns a \<noteq> None"

definition live_entries :: "in_obj list \<Rightarrow> (string \<times> InboundHandler) list" where
  "live_entries objs = map (\<lambda>ob. (io_key ob, io_handler ob)) (filter (\<lambda>ob. \<not> io_dropped ob) objs)"

definition inbounds_ok :: "Agent \<Rightarrow> in_obj list \<Rightarrow> bool" where
  "inbounds_ok a objs \<longleftrightarrow> distinct (map fst (ag_activeInbounds a)) \<and> (\<forall>e \<in> set (ag_activeInbounds a). in_key (snd e) = fst e)
     \<and> distinct (map fst (live_entries objs)) \<and> map_of (live_entries objs) = map_of (ag_activeInbounds a)"

definition node_ok :: "node \<Rightarrow> bool" where
  "node_ok nd \<longleftrightarrow> router_ok (nd_history nd) (nd_agent nd) \<and> inbounds_ok (nd_agent nd) (nd_objs nd)
     \<and> set (nd_pending nd) \<union> set (nd_mid nd) \<subseteq> set (nd_history nd)"

lemma outbound_ids_keys: "map fst (outbound_ids a) = map fst (br_outbounds (ag_router a))"
  by (simp add: outbound_ids_def o_def split_def)

lemma router_ok_mono:
  assumes "router_ok hist a" "set hist \<subseteq> set hist'"
  shows "router_ok hist' a"
proof -
  have "from_config hist' n h" if "from_config hist n h" for n h using that assms(2) unfolding from_config_def by blast
  with assms show ?thesis unfolding router_ok_def by blast
qed

lemma router_ok_core: "router_ok hist a \<Longrightarrow> same_core a b \<Longrightarrow> router_ok hist b"
  by (simp add: router_ok_def same_core_def)

lemma router_ok_apply:
  assumes "applyConfigToRouter cfg a = Inr b" "cfg \<in> set hist" "distinct (map fst (outbound_ids a))"
    and "\<forall>e \<in> set (outbound_ids a). from_config hist (fst e) (snd e)"
    and "br_resolver (ag_router a) = Some ()" "cm_Get (ag_cm a) \<in> set hist" "ag_state a = 1" "ag_dns a \<noteq> None"
  shows "router_ok hist b"
proof -
  let ?Q = "\<lambda>n h. from_config hist n (out_id h)"
  have "distinct (map fst (br_outbounds (ag_router b))) \<and> (\<forall>e \<in> set (br_outbounds (ag_router b)). ?Q (fst e) (snd e))"
  proof (rule applyConfig_entries [where Q = ?Q, OF assms(1)])
    show "distinct (map fst (br_outbounds (ag_router a)))" using assms(3) by (simp add: outbound_ids_keys)
    show "?Q (fst e) (snd e)" if "e \<in> set (br_outbounds (ag_router a))" for e
      using that assms(4) by (auto simp: outbound_ids_def split_def)
    show "?Q (oo_Name c) (configured c)" if "c \<in> set (cf_Outbounds cfg)" "supported c" for c
      using that assms(2) by (auto simp: from_config_def)
  qed
  then show ?thesis using applyConfig_frame [OF assms(1)] assms
    by (auto simp: router_ok_def outbound_ids_keys) (auto simp: outbound_ids_def)
qed

lemma drop_obj_live: "live_entries (map (drop_obj cfg) objs) = filter (\<lambda>e. map_of (newInboundMap cfg) (fst e) \<noteq> None) (live_entries objs)"
  by (induction objs) (auto simp: live_entries_def drop_obj_def)

lemma new_obj_live: "live_entries (map new_obj es) = es"
  by (induction es) (auto simp: live_entries_def new_obj_def)

lemma live_entries_append: "live_entries (xs @ ys) = live_entries xs @ live_entries ys"
  by (simp add: live_entries_def)

lemma sync_keys_ok:
  assumes "\<forall>e \<in> set (ag_activeInbounds a). in_key (snd e) = fst e" "distinct (map fst (ag_activeInbounds a))"
  shows "\<forall>e \<in> set (ag_activeInbounds (snd (syncInbounds cfg a))). in_key (snd e) = fst e"
proof
  fix e
  assume "e \<in> set (ag_activeInbounds (snd (syncInbounds cfg a)))"
  then have "map_of (ag_activeInbounds (snd (syncInbounds cfg a))) (fst e) = Some (snd e)"
    using sync_distinct [OF assms(2)] by (simp add: map_of_is_SomeI)
  then consider "map_of (ag_activeInbounds a) (fst e) = Some (snd e)"
    | c where "find (\<lambda>c. inbound_key c = fst e) (rev (cf_Inbounds cfg)) = Some c" "make_inbound c = Some (snd e)"
    unfolding syncInbounds_lookup by (auto split: option.splits)
  then show "in_key (snd e) = fst e"
  proof cases
    case 1
    with assms(1) show ?thesis by (auto dest: map_of_SomeD)
  next
    case (2 c)
    then show ?thesis using make_inbound_key by (auto simp: find_Some_iff)
  qed
qed

lemma sync_inbounds_ok:
  assumes "inbounds_ok (nd_agent nd) (nd_objs nd)"
  shows "inbounds_ok (nd_agent (node_sync cfg nd)) (nd_objs (node_sync cfg nd))"
proof -
  let ?a = "nd_agent nd" and ?objs = "nd_objs nd" and ?new = "newInboundMap cfg"
  let ?a' = "snd (syncInbounds cfg ?a)"
  let ?kept = "filter (\<lambda>e. map_of ?new (fst e) \<noteq> None) (live_entries ?objs)"
  let ?spawn = "filter (\<lambda>e. map_of (ag_activeInbounds ?a) (fst e) = None) (ag_activeInbounds ?a')"
  note ok = assms [unfolded inbounds_ok_def]
  have dist: "distinct (map fst (ag_activeInbounds ?a'))" by (rule sync_distinct) (use ok in blast)
  have le: "live_entries (nd_objs (node_sync cfg nd)) = ?kept @ ?spawn"
    by (simp only: node_sync_def Let_def spawned_def live_entries_append drop_obj_live new_obj_live node.select_convs node.update_convs node.surjective)
       (simp add: live_entries_append drop_obj_live new_obj_live)
  have mk: "map_of ?kept k = (if map_of ?new k \<noteq> None then map_of (ag_activeInbounds ?a) k else None)" for k
    using ok by (simp add: map_of_filter_key [where P = "\<lambda>k. map_of ?new k \<noteq> None"] del: not_None_eq)
  have ms: "map_of ?spawn k = (if map_of (ag_activeInbounds ?a) k = None then map_of (ag_activeInbounds ?a') k else None)" for k
    by (rule map_of_filter_key)
  have "map_of (?kept @ ?spawn) k = map_of (ag_activeInbounds ?a') k" for k
  proof -
    have "map_of (?kept @ ?spawn) k = (case if map_of ?new k \<noteq> None then map_of (ag_activeInbounds ?a) k else None of
        None \<Rightarrow> if map_of (ag_activeInbounds ?a) k = None then map_of (ag_activeInbounds ?a') k else None | Some h \<Rightarrow> Some h)"
      by (simp only: map_of_append map_add_def mk ms)
    also have "\<dots> = map_of (ag_activeInbounds ?a') k"
      unfolding newInboundMap_lookup syncInbounds_lookup by (auto split: option.splits)
    finally show ?thesis .
  qed
  moreover have "distinct (map fst (?kept @ ?spawn))"
  proof -
    have "fst e \<notin> fst ` set ?spawn" if "e \<in> set ?kept" for e
    proof -
      have eq: "map_of (live_entries ?objs) = map_of (ag_activeInbounds ?a)" using ok by blast
      have "map_of (live_entries ?objs) (fst e) \<noteq> None" using that by (auto simp: map_of_eq_None_iff)
      then have "map_of ?spawn (fst e) = None" unfolding eq ms by (simp only: if_False)
      then show ?thesis by (rule map_of_eq_None_iff [THEN iffD1])
    qed
    then show ?thesis using distinct_map_filter [of fst "live_entries ?objs"] distinct_map_filter [OF dist] ok by auto
  qed
  ultimately show ?thesis using dist le sync_keys_ok [of ?a cfg] ok by (auto simp: inbounds_ok_def node_sync_def Let_def)
qed

lemma sync_agent: "nd_agent (node_sync cfg nd) = snd (syncInbounds cfg (nd_agent nd))"
    "nd_pending (node_sync cfg nd) = nd_pending nd" "nd_mid (node_sync cfg nd) = nd_mid nd" "nd_history (node_sync cfg nd) = nd_history nd"
  by (simp_all add: node_sync_def Let_def)

lemma router_ok_sync: "router_ok hist a \<Longrightarrow> router_ok hist (snd (syncInbounds cfg a))"
  by (simp add: router_ok_def outbound_ids_def syncInbounds_frame)

lemma node_ok_step:
  assumes "node_step orderly nd nd'" "node_ok nd"
  shows "node_ok nd'"
  using assms(1)
proof (cases rule: node_step.cases)
  case (Update cfg e cbs a)
  note r = assms(2) [unfolded node_ok_def]
  have a: "a = (nd_agent nd)\<lparr>ag_cm := ag_cm a\<rparr>" "cm_Get (ag_cm a) = cm_Get (ag_cm (nd_agent nd)) \<and> e \<noteq> None \<or> cm_Get (ag_cm a) = cfg \<and> e = None"
      "set (map snd cbs) \<subseteq> (if e = None then {cfg} else {})"
    using Update(3) by (auto simp: ApplyConfig_def cm_Update_def cm_Get_def split: prod.splits option.splits)
  have "router_ok (nd_history nd @ (if e = None then [cfg] else [])) (nd_agent nd)" using r by (auto intro: router_ok_mono)
  then have "router_ok (nd_history nd @ (if e = None then [cfg] else [])) a"
    using a(2) r by (subst a(1)) (auto simp: router_ok_def outbound_ids_def)
  moreover have "inbounds_ok a (nd_objs nd)" using r by (subst a(1)) (simp add: inbounds_ok_def)
  ultimately show ?thesis using Update(1) a(3) r by (auto simp: node_ok_def split: if_splits)
next
  case (UpdateRouter i a)
  note r = assms(2) [unfolded node_ok_def]
  let ?cfg = "nd_pending nd ! i"
  have c: "?cfg \<in> set (nd_history nd)" using UpdateRouter(2) r by auto
  have "router_ok (nd_history nd) a"
    by (rule router_ok_apply [OF UpdateRouter(3) c]) (use r in \<open>simp_all add: router_ok_def\<close>)
  moreover have "inbounds_ok a (nd_objs nd)" using r applyConfig_frame [OF UpdateRouter(3)] by (simp add: inbounds_ok_def)
  ultimately show ?thesis using UpdateRouter(1) r c remove_nth_set [of i "nd_pending nd"] by (auto simp: node_ok_def)
next
  case (UpdateInbounds i)
  note r = assms(2) [unfolded node_ok_def]
  let ?nd = "nd\<lparr>nd_mid := remove_nth i (nd_mid nd)\<rparr>"
  have "inbounds_ok (nd_agent nd') (nd_objs nd')" unfolding UpdateInbounds(1) by (rule sync_inbounds_ok) (use r in simp)
  moreover have "router_ok (nd_history nd') (nd_agent nd')" using r router_ok_sync by (simp add: UpdateInbounds(1) sync_agent)
  ultimately show ?thesis using r remove_nth_set [of i "nd_mid nd"] by (auto simp: node_ok_def UpdateInbounds(1) sync_agent)
next
  case (Opened i socks)
  have "live_entries (nd_objs nd') = live_entries (nd_objs nd)"
  proof -
    have "live_entries (xs[i := (xs ! i)\<lparr>io_ran := True, io_socks := socks\<rparr>]) = live_entries xs" if "i < length xs" for xs
      using that by (induction xs arbitrary: i) (auto simp: live_entries_def split: nat.splits)
    with Opened show ?thesis by simp
  qed
  with assms(2) Opened(1) show ?thesis by (simp add: node_ok_def inbounds_ok_def)
next
  case (Side a)
  note c = side_core [OF Side(2)]
  then have "inbounds_ok a (nd_objs nd)" using assms(2) by (simp add: node_ok_def inbounds_ok_def same_core_def)
  with assms(2) Side(1) router_ok_core [OF _ c] show ?thesis by (simp add: node_ok_def)
qed

lemma node_ok_reach: "(node_step orderly)\<^sup>*\<^sup>* nd nd' \<Longrightarrow> node_ok nd \<Longrightarrow> node_ok nd'"
  by (induction rule: rtranclp_induct) (auto intro: node_ok_step)

lemma node_start_ok:
  assumes "agent_Start certs (agent_New cfg) = Inr (e, a)"
  shows "node_ok (node_start cfg a)"
proof -
  let ?a0 = "\<lambda>d. (agent_New cfg)\<lparr>ag_state := 1, ag_certManager := (case certs of Inl e \<Rightarrow> None | Inr cm \<Rightarrow> Some cm),
      ag_router := SetResolver () NewRouter, ag_dns := Some d\<rparr>"
  obtain d a1 where a1: "on_update cfg (?a0 d) = Inr a1" "ag_activeInbounds a = ag_activeInbounds a1" "ag_router a = ag_router a1"
      "ag_state a = 1" "ag_dns a = Some d" "ag_cm a = cm_Subscribe (NewConfigManager cfg)"
    using agent_Start_New [OF assms] by blast
  obtain b where b: "applyConfigToRouter cfg (?a0 d) = Inr b" "a1 = snd (syncInbounds cfg b)"
    using a1(1) by (auto simp: on_update_def res_bind_def split: sum.splits)
  have empty: "ag_activeInbounds b = []" using applyConfig_frame(2) [OF b(1)] by (simp add: agent_New_def)
  have "router_ok [cfg] b"
    by (rule router_ok_apply [OF b(1)]) (simp_all add: outbound_ids_def SetResolver_def NewRouter_def agent_New_def NewConfigManager_def cm_Get_def)
  then have "router_ok [cfg] a1" unfolding b(2) by (rule router_ok_sync)
  then have "router_ok [cfg] a" using a1(3-6) by (simp add: router_ok_def outbound_ids_def cm_Get_def cm_Subscribe_def NewConfigManager_def)
  moreover have "distinct (map fst (ag_activeInbounds a))" "\<forall>e \<in> set (ag_activeInbounds a). in_key (snd e) = fst e"
    using sync_distinct [of b cfg] sync_keys_ok [of b cfg] empty a1(2) b(2) by simp_all
  ultimately show ?thesis by (simp add: node_ok_def node_start_def inbounds_ok_def new_obj_live)
qed

section \<open>Orderly runs\<close>

text \<open>
  What holds in an orderly run. \<open>c\<close> is the current configuration: an update in progress is for \<open>c\<close>;
  once it has passed the router, rules and outbounds are those of \<open>c\<close>, and once it has passed the
  inbounds, so are they. Dropped handlers have run and have no open socket.
\<close>

definition inbounds_match :: "Config \<Rightarrow> (string \<times> InboundHandler) list \<Rightarrow> bool" where
  "inbounds_match c active \<longleftrightarrow> (\<forall>k. case find (\<lambda>i. inbound_key i = k) (rev (cf_Inbounds c)) of
     None \<Rightarrow> map_of active k = None
   | Some i \<Rightarrow> make_inbound i \<noteq> None \<longrightarrow> map_of active k \<noteq> None)"

definition router_match :: "Config \<Rightarrow> Agent \<Rightarrow> bool" where
  "router_match c a \<longleftrightarrow> br_rules (ag_router a) = rc_Rules (cf_Routing c)
     \<and> (\<forall>n oc. find (\<lambda>oc. oo_Name oc = n \<and> supported oc) (rev (cf_Outbounds c)) = Some oc \<longrightarrow> map_of (outbound_ids a) n = Some (configured oc))"

definition orderly_inv :: "node \<Rightarrow> bool" where
  "orderly_inv nd \<longleftrightarrow> (let a = nd_agent nd; c = cm_Get (ag_cm a) in
     (nd_pending nd = [c] \<and> nd_mid nd = [] \<or> nd_pending nd = [] \<and> nd_mid nd = [c] \<and> router_match c a
       \<or> quiet nd \<and> router_match c a \<and> inbounds_match c (ag_activeInbounds a))
     \<and> cm_subs (ag_cm a) = 1
     \<and> (\<forall>ob \<in> set (nd_objs nd). io_dropped ob \<longrightarrow> io_ran ob \<and> list_all (\<lambda>s. \<not> so_open s) (io_socks ob)))"

lemma outbound_ids_lookup: "map_of (outbound_ids a) n = map_option out_id (map_of (br_outbounds (ag_router a)) n)"
  by (simp add: outbound_ids_def map_of_map)

lemma apply_router_match:
  assumes "applyConfigToRouter c a = Inr b"
  shows "router_match c b"
proof -
  obtain r where r: "add_outbounds (ag_certManager a \<noteq> None) (cf_Outbounds c) (ag_router a) = Inr r"
      "ag_router b = UpdateRules (rc_Rules (cf_Routing c)) r"
    using assms by (auto simp: applyConfigToRouter_def res_bind_def split: sum.splits)
  show ?thesis using r(2) add_outbounds_lookup [OF r(1)] by (simp add: router_match_def outbound_ids_lookup UpdateRules_def)
qed

lemma sync_inbounds_match: "inbounds_match c (ag_activeInbounds (snd (syncInbounds c a)))"
  unfolding inbounds_match_def syncInbounds_lookup by (auto split: option.splits)

lemma match_core:
  assumes "same_core a b"
  shows "router_match c b = router_match c a" "ag_activeInbounds b = ag_activeInbounds a"
  using assms by (simp_all add: router_match_def same_core_def)

lemma router_match_sync: "router_match c (snd (syncInbounds c' a)) = router_match c a"
  by (simp add: router_match_def outbound_ids_def syncInbounds_frame)

lemma orderly_inv_step:
  assumes "node_step True nd nd'" "orderly_inv nd"
  shows "orderly_inv nd'"
  using assms(1)
proof (cases rule: node_step.cases)
  case (Update cfg e cbs a)
  have q: "quiet nd" "router_match (cm_Get (ag_cm (nd_agent nd))) (nd_agent nd)" "inbounds_match (cm_Get (ag_cm (nd_agent nd))) (ag_activeInbounds (nd_agent nd))"
      "cm_subs (ag_cm (nd_agent nd)) = 1"
    using assms(2) Update(2) by (auto simp: orderly_inv_def quiet_def Let_def)
  have "e = None \<and> cbs = [(0, cfg)] \<and> cm_Get (ag_cm a) = cfg \<and> cm_subs (ag_cm a) = 1 \<or> e \<noteq> None \<and> cbs = [] \<and> a = nd_agent nd"
  proof (cases "Validate cfg")
    case (Some err)
    then have "ApplyConfig cfg (nd_agent nd) = ((Some err, []), nd_agent nd)" by (simp add: ApplyConfig_def cm_Update_def)
    with Update(3) show ?thesis by auto
  next
    case None
    with Update(3) q(4) show ?thesis by (auto simp: ApplyConfig_def cm_Update_def cm_Get_def)
  qed
  then show ?thesis using assms(2) q Update(1) by (auto simp: orderly_inv_def quiet_def Let_def)
next
  case (UpdateRouter i a)
  have p: "nd_pending nd = [cm_Get (ag_cm (nd_agent nd))]" "nd_mid nd = []" "i = 0"
    using assms(2) UpdateRouter(2) by (auto simp: orderly_inv_def quiet_def Let_def)
  then have "router_match (cm_Get (ag_cm (nd_agent nd))) a" using apply_router_match UpdateRouter(3) by simp
  with p assms(2) applyConfig_frame(1) [OF UpdateRouter(3)] UpdateRouter(1) show ?thesis
    by (simp add: orderly_inv_def remove_nth_def quiet_def Let_def)
next
  case (UpdateInbounds i)
  let ?c = "cm_Get (ag_cm (nd_agent nd))"
  have p: "nd_pending nd = []" "nd_mid nd = [?c]" "i = 0" "router_match ?c (nd_agent nd)"
    using assms(2) UpdateInbounds(3) by (auto simp: orderly_inv_def quiet_def Let_def)
  have ran: "io_ran ob" if "ob \<in> set (nd_objs nd)" for ob using UpdateInbounds(2) that by (auto simp: settled_def list_all_iff)
  have "io_dropped ob \<longrightarrow> io_ran ob \<and> list_all (\<lambda>s. \<not> so_open s) (io_socks ob)" if "ob \<in> set (nd_objs nd')" for ob
    using that assms(2) ran in_Stop_closed
    by (auto simp: UpdateInbounds(1) node_sync_def Let_def spawned_def drop_obj_def new_obj_def orderly_inv_def split: if_splits)
  with p assms(2) sync_inbounds_match [of ?c "nd_agent nd"] show ?thesis
    by (simp add: orderly_inv_def UpdateInbounds(1) sync_agent syncInbounds_frame router_match_sync quiet_def remove_nth_def Let_def)
next
  case (Opened i socks)
  have "ob \<in> set (nd_objs nd) \<or> ob = (nd_objs nd ! i)\<lparr>io_ran := True, io_socks := socks\<rparr> \<and> \<not> io_dropped (nd_objs nd ! i)"
    if "ob \<in> set (nd_objs nd')" for ob
    using that Opened assms(2) set_update_subset_insert [of "nd_objs nd" i] by (fastforce simp: orderly_inv_def Let_def)
  with assms(2) Opened(1) show ?thesis by (fastforce simp: orderly_inv_def quiet_def Let_def)
next
  case (Side a)
  note c = side_core [OF Side(2)]
  have "ag_cm a = ag_cm (nd_agent nd)" using c by (simp add: same_core_def)
  with assms(2) Side(1) match_core [OF c] show ?thesis by (simp add: orderly_inv_def quiet_def Let_def)
qed

lemma orderly_inv_reach: "(node_step True)\<^sup>*\<^sup>* nd nd' \<Longrightarrow> orderly_inv nd \<Longrightarrow> orderly_inv nd'"
  by (induction rule: rtranclp_induct) (auto intro: orderly_inv_step)

lemma orderly_inv_start:
  assumes "agent_Start certs (agent_New cfg) = Inr (e, a)"
  shows "orderly_inv (node_start cfg a)"
proof -
  let ?a0 = "\<lambda>d. (agent_New cfg)\<lparr>ag_state := 1, ag_certManager := (case certs of Inl e \<Rightarrow> None | Inr cm \<Rightarrow> Some cm),
      ag_router := SetResolver () NewRouter, ag_dns := Some d\<rparr>"
  obtain d a1 where a1: "on_update cfg (?a0 d) = Inr a1" "ag_activeInbounds a = ag_activeInbounds a1" "ag_router a = ag_router a1"
      "ag_cm a = cm_Subscribe (NewConfigManager cfg)"
    using agent_Start_New [OF assms] by blast
  obtain b where b: "applyConfigToRouter cfg (?a0 d) = Inr b" "a1 = snd (syncInbounds cfg b)"
    using a1(1) by (auto simp: on_update_def res_bind_def split: sum.splits)
  have "router_match cfg a" using apply_router_match [OF b(1)] a1(3) b(2) router_match_sync [of cfg cfg b]
    by (simp add: router_match_def outbound_ids_def)
  moreover have "inbounds_match cfg (ag_activeInbounds a)" using sync_inbounds_match [of cfg b] a1(2) b(2) by simp
  moreover have "cm_Get (ag_cm a) = cfg" "cm_subs (ag_cm a) = 1" using a1(4) by (simp_all add: cm_Get_def cm_Subscribe_def NewConfigManager_def)
  ultimately show ?thesis by (auto simp: orderly_inv_def node_start_def quiet_def new_obj_def Let_def)
qed

section \<open>Properties\<close>

text \<open>
  C12: The agent's state stays well-formed. From a started agent, in every interleaving of updates,
  inbound goroutines, policies, administration, logins, traffic, dials, lookups, probes and UDP
  sessions: the keys of the active inbounds are distinct and each is the protocol and listen
  address of its handler; outbound names are distinct and each is the name of its handler; there is a router with a resolver; and for
  every active inbound there is exactly one handler object that has not been dropped.
\<close>

theorem node_well_formed:
  assumes "agent_Start certs (agent_New cfg) = Inr (e, a)" "(node_step orderly)\<^sup>*\<^sup>* (node_start cfg a) nd"
  shows "distinct (map fst (ag_activeInbounds (nd_agent nd))) \<and> (\<forall>(k, h) \<in> set (ag_activeInbounds (nd_agent nd)). in_key h = k)
    \<and> distinct (map fst (br_outbounds (ag_router (nd_agent nd)))) \<and> (\<forall>(n, h) \<in> set (br_outbounds (ag_router (nd_agent nd))). out_Name h = n)
    \<and> br_resolver (ag_router (nd_agent nd)) = Some () \<and> ag_dns (nd_agent nd) \<noteq> None \<and> ag_state (nd_agent nd) = 1
    \<and> distinct (map fst (live_entries (nd_objs nd))) \<and> set (live_entries (nd_objs nd)) = set (ag_activeInbounds (nd_agent nd))"
proof -
  have ok: "router_ok (nd_history nd) (nd_agent nd)" "inbounds_ok (nd_agent nd) (nd_objs nd)"
    using node_ok_reach [OF assms(2) node_start_ok [OF assms(1)]] by (simp_all add: node_ok_def)
  have "out_Name h = n" if "(n, h) \<in> set (br_outbounds (ag_router (nd_agent nd)))" for n h
  proof -
    have "(n, out_id h) \<in> set (outbound_ids (nd_agent nd))" using that by (force simp: outbound_ids_def)
    then have "from_config (nd_history nd) n (out_id h)" using ok(1) by (auto simp: router_ok_def)
    then show ?thesis using out_id_name [of h] by (auto simp: from_config_def configured_name)
  qed
  moreover have "set (live_entries (nd_objs nd)) = set (ag_activeInbounds (nd_agent nd))"
    using ok(2) unfolding inbounds_ok_def by (metis map_of_inject_set)
  ultimately show ?thesis using ok by (auto simp: router_ok_def inbounds_ok_def outbound_ids_keys)
qed

text \<open>
  C11: Traffic only goes where an accepted configuration says. In every interleaving, an outbound that
  routing returns was configured, with its protocol supported, in the first configuration or in
  one that passed validation since; and the rules in force are those of one such configuration.
\<close>

theorem routes_are_configured:
  assumes "agent_Start certs (agent_New cfg) = Inr (e, a)" "(node_step orderly)\<^sup>*\<^sup>* (node_start cfg a) nd"
    and "\<And>xs. set (ord xs) = set xs" "agent_Route ord (nd_agent nd) meta = Inr h"
  shows "(\<exists>c \<in> set (nd_history nd). \<exists>oc \<in> set (cf_Outbounds c). supported oc \<and> oo_Name oc = out_Name h \<and> out_id h = configured oc)
    \<and> (\<exists>c \<in> set (nd_history nd). br_rules (ag_router (nd_agent nd)) = rc_Rules (cf_Routing c))"
proof -
  let ?r = "ag_router (nd_agent nd)"
  have ok: "router_ok (nd_history nd) (nd_agent nd)"
    using node_ok_reach [OF assms(2) node_start_ok [OF assms(1)]] by (simp add: node_ok_def)
  obtain target where "route_rules ord ?r (meta\<lparr>m_Target := target\<rparr>) = Inr h"
    using assms(4) by (auto simp: agent_Route_def Route_def res_bind_def split: sum.splits)
  then have "h \<in> snd ` set (br_outbounds ?r)" by (rule route_rules_known [OF assms(3)])
  then obtain n where "(n, h) \<in> set (br_outbounds ?r)" by force
  then have "(n, out_id h) \<in> set (outbound_ids (nd_agent nd))" by (force simp: outbound_ids_def)
  then have f: "from_config (nd_history nd) n (out_id h)" using ok by (auto simp: router_ok_def)
  then have "out_Name h = n" using out_id_name [of h] by (auto simp: from_config_def configured_name)
  with f have "\<exists>c \<in> set (nd_history nd). \<exists>oc \<in> set (cf_Outbounds c). supported oc \<and> oo_Name oc = out_Name h \<and> out_id h = configured oc"
    by (simp add: from_config_def)
  moreover have "\<exists>c \<in> set (nd_history nd). br_rules ?r = rc_Rules (cf_Routing c)" using ok by (simp add: router_ok_def)
  ultimately show ?thesis by blast
qed


text \<open>A node for the examples: a SOCKS5 inbound and a direct outbound.\<close>

definition demo_node_cfg :: Config where
  "demo_node_cfg = demo_cfg [demo_inbound ''ann''] [demo_outbound ''default'' ''direct'']"

lemma demo_node_starts: "\<exists>a. agent_Start (Inl EOF) (agent_New demo_node_cfg) = Inr (None, a)"
proof -
  have c: "ag_state (agent_New demo_node_cfg) = 0" "cm_Get (ag_cm (agent_New demo_node_cfg)) = demo_node_cfg"
    by (simp_all add: agent_New_def cm_Get_def NewConfigManager_def)
  have "supported (demo_outbound ''default'' ''direct'')" "oo_Protocol (demo_outbound ''default'' ''direct'') = ''direct''"
    by (simp_all add: demo_outbound_def supported_def)
  then show ?thesis using c start_dns_plain [of demo_node_cfg]
    by (auto simp: agent_Start_def applyConfigToRouter_def outbound_of_def start_control_def Let_def demo_node_cfg_def)
qed

theorem node_well_formed_witness:
  "\<exists>a. agent_Start (Inl EOF) (agent_New demo_node_cfg) = Inr (None, a)
    \<and> set (live_entries (nd_objs (node_start demo_node_cfg a))) = set (ag_activeInbounds a)"
proof -
  obtain a where a: "agent_Start (Inl EOF) (agent_New demo_node_cfg) = Inr (None, a)" using demo_node_starts by blast
  from node_well_formed [OF a rtranclp.rtrancl_refl] a show ?thesis by (auto simp: node_start_def)
qed

theorem routes_are_configured_witness:
  "\<exists>a h. agent_Start (Inl EOF) (agent_New demo_node_cfg) = Inr (None, a) \<and> agent_Route rev a (meta0\<lparr>m_Target := ''a.example:80''\<rparr>) = Inr h
    \<and> out_id h = configured (demo_outbound ''default'' ''direct'')"
proof -
  obtain a where a: "agent_Start (Inl EOF) (agent_New demo_node_cfg) = Inr (None, a)" using demo_node_starts by blast
  have n: "oo_Name (demo_outbound ''default'' ''direct'') = ''default''" "supported (demo_outbound ''default'' ''direct'')"
    by (simp_all add: demo_outbound_def supported_def)
  have f: "br_rules (ag_router a) = []" "map_of (br_outbounds (ag_router a)) ''default'' = Some (configured (demo_outbound ''default'' ''direct''))"
    using orderly_inv_start [OF a] out_id_configured
    by (auto simp: orderly_inv_def node_start_def quiet_def router_match_def outbound_ids_lookup Let_def)
      (use agent_Start_New [OF a] update_router_lookup n in \<open>auto simp: demo_node_cfg_def\<close>)
  have "\<not> fi_Enabled (rc_FakeIP (cf_Routing demo_node_cfg))" by (simp add: demo_node_cfg_def)
  then obtain dns where d: "ag_dns a = Some dns" "\<forall>ip. ResolveFakeIP dns ip = Inr None"
    using agent_Start_New [OF a] start_dns_plain by fastforce
  have "agent_Route rev a (meta0\<lparr>m_Target := ''a.example:80''\<rparr>) = Inr (configured (demo_outbound ''default'' ''direct''))"
    using f by (simp add: agent_Route_def Route_def restore_target_def d route_rules_def no_outbound_def split: option.splits)
  moreover have "agent_Route rev (nd_agent (node_start demo_node_cfg a)) (meta0\<lparr>m_Target := ''a.example:80''\<rparr>) = agent_Route rev a (meta0\<lparr>m_Target := ''a.example:80''\<rparr>)"
    by (simp add: node_start_def)
  ultimately show ?thesis
    using routes_are_configured [OF a rtranclp.rtrancl_refl, of rev "meta0\<lparr>m_Target := ''a.example:80''\<rparr>"] a
    by (auto simp: node_start_def)
qed


text \<open>Steps of the race below.\<close>

lemma step_accept:
  assumes "Validate c = None" "cm_subs (ag_cm (nd_agent nd)) = 1"
  shows "\<exists>a. node_step False nd (nd\<lparr>nd_agent := a, nd_pending := nd_pending nd @ [c], nd_history := nd_history nd @ [c]\<rparr>)
    \<and> cm_Get (ag_cm a) = c \<and> cm_subs (ag_cm a) = 1"
proof -
  let ?a = "(nd_agent nd)\<lparr>ag_cm := (ag_cm (nd_agent nd))\<lparr>cm_current := c\<rparr>\<rparr>"
  have "ApplyConfig c (nd_agent nd) = ((None, [(0, c)]), ?a)" using assms by (simp add: ApplyConfig_def cm_Update_def)
  from node_step.Update [of False nd, OF _ this] assms(2) show ?thesis by (intro exI [of _ ?a]) (simp add: cm_Get_def)
qed

lemma apply_ok:
  assumes "\<forall>c \<in> set (cf_Outbounds cfg). oo_Protocol c \<noteq> ''npchain''"
  shows "\<exists>b. applyConfigToRouter cfg a = Inr b"
  using on_update_direct [OF assms, of a] by (auto simp: on_update_def res_bind_def split: sum.splits)

text \<open>
  C36: Two updates that overlap can leave a node with half of each. Each update runs in a goroutine of its
  own, and only the change of the inbounds is locked: for any two valid configurations (without
  tunnels, so that no certificate is needed) there is a run in which both updates have finished,
  the configuration manager reports the second one, the inbounds are those of the second one,
  and the routing rules are those of the first.
\<close>

theorem updates_race:
  assumes "agent_Start certs (agent_New cfg) = Inr (e, a)" "Validate c1 = None" "Validate c2 = None"
    and "\<forall>c \<in> set (cf_Outbounds c1). oo_Protocol c \<noteq> ''npchain''" "\<forall>c \<in> set (cf_Outbounds c2). oo_Protocol c \<noteq> ''npchain''"
  shows "\<exists>nd. (node_step False)\<^sup>*\<^sup>* (node_start cfg a) nd \<and> quiet nd \<and> cm_Get (ag_cm (nd_agent nd)) = c2
    \<and> inbounds_match c2 (ag_activeInbounds (nd_agent nd)) \<and> br_rules (ag_router (nd_agent nd)) = rc_Rules (cf_Routing c1)"
proof -
  let ?n0 = "node_start cfg a"
  have "cm_subs (ag_cm (nd_agent ?n0)) = 1" "nd_pending ?n0 = []" "nd_mid ?n0 = []"
    using agent_Start_New [OF assms(1)] by (auto simp: node_start_def cm_Subscribe_def NewConfigManager_def)
  note 0 = this
  obtain a1 where s1: "node_step False ?n0 (?n0\<lparr>nd_agent := a1, nd_pending := nd_pending ?n0 @ [c1], nd_history := nd_history ?n0 @ [c1]\<rparr>)" (is "node_step _ _ ?n1")
      "cm_subs (ag_cm a1) = 1" using step_accept [OF assms(2) 0(1)] by blast
  have "cm_subs (ag_cm (nd_agent ?n1)) = 1" using s1(2) by simp
  then obtain a2 where s2: "node_step False ?n1 (?n1\<lparr>nd_agent := a2, nd_pending := nd_pending ?n1 @ [c2], nd_history := nd_history ?n1 @ [c2]\<rparr>)" (is "node_step _ _ ?n2")
      "cm_Get (ag_cm a2) = c2" using step_accept [OF assms(3)] by blast
  have p2: "nd_pending ?n2 = [c1, c2]" "nd_mid ?n2 = []" using 0 by simp_all
  obtain a3 where a3: "applyConfigToRouter c2 (nd_agent ?n2) = Inr a3" using apply_ok [OF assms(5)] by blast
  let ?n3 = "?n2\<lparr>nd_agent := a3, nd_pending := [c1], nd_mid := [c2]\<rparr>"
  have s3: "node_step False ?n2 ?n3" using node_step.UpdateRouter [of 1 ?n2 a3 False] p2 a3 by (simp add: remove_nth_def)
  obtain a4 where a4: "applyConfigToRouter c1 (nd_agent ?n3) = Inr a4" using apply_ok [OF assms(4)] by blast
  let ?n4 = "?n3\<lparr>nd_agent := a4, nd_pending := [], nd_mid := [c2, c1]\<rparr>"
  have s4: "node_step False ?n3 ?n4" using node_step.UpdateRouter [of 0 ?n3 a4 False] a4 by (simp add: remove_nth_def)
  let ?n5 = "node_sync c1 (?n4\<lparr>nd_mid := [c2]\<rparr>)"
  have s5: "node_step False ?n4 ?n5" using node_step.UpdateInbounds [of False ?n4 1] by (simp add: remove_nth_def)
  let ?n6 = "node_sync c2 (?n5\<lparr>nd_mid := []\<rparr>)"
  have s6: "node_step False ?n5 ?n6" using node_step.UpdateInbounds [of False ?n5 0] by (simp add: remove_nth_def sync_agent)
  have "(node_step False)\<^sup>*\<^sup>* ?n0 ?n6" using s1(1) s2(1) s3 s4 s5 s6 by (meson converse_rtranclp_into_rtranclp r_into_rtranclp)
  moreover have "quiet ?n6" by (simp add: quiet_def sync_agent)
  moreover have "cm_Get (ag_cm (nd_agent ?n6)) = c2"
    using s2(2) applyConfig_frame(1) [OF a3] applyConfig_frame(1) [OF a4] by (simp add: sync_agent syncInbounds_frame)
  moreover have "br_rules (ag_router (nd_agent ?n6)) = rc_Rules (cf_Routing c1)"
    using applyConfig_frame(5) [OF a4] by (simp add: sync_agent syncInbounds_frame)
  moreover have "inbounds_match c2 (ag_activeInbounds (nd_agent ?n6))" using sync_inbounds_match by (simp add: sync_agent)
  ultimately show ?thesis by blast
qed

theorem updates_race_witness:
  "\<exists>a nd. agent_Start (Inl EOF) (agent_New demo_node_cfg) = Inr (None, a) \<and> (node_step False)\<^sup>*\<^sup>* (node_start demo_node_cfg a) nd
    \<and> cm_Get (ag_cm (nd_agent nd)) = demo_cfg [] []
    \<and> br_rules (ag_router (nd_agent nd)) = rc_Rules (cf_Routing (demo_cfg [] [demo_outbound ''d'' ''direct'']))"
proof -
  obtain a where a: "agent_Start (Inl EOF) (agent_New demo_node_cfg) = Inr (None, a)" using demo_node_starts by blast
  have "Validate (demo_cfg ins outs) = None" for ins outs by (simp add: Validate_def demo_cfg_def demo_config_def)
  from updates_race [OF a this this, of "[]" "[demo_outbound ''d'' ''direct'']" "[]" "[]"] a show ?thesis
    by (auto simp: demo_outbound_def)
qed

text \<open>A dropped handler that has run is never touched again.\<close>

lemma frozen_step:
  assumes "node_step orderly nd nd'" "i < length (nd_objs nd)" "nd_objs nd ! i = ob" "io_dropped ob" "io_ran ob"
  shows "i < length (nd_objs nd') \<and> nd_objs nd' ! i = ob"
  using assms(1)
proof (cases rule: node_step.cases)
  case (Opened j socks)
  then have "j \<noteq> i" using assms(3,5) by auto
  with Opened assms(2,3) show ?thesis by simp
next
  case (UpdateInbounds j)
  with assms show ?thesis by (auto simp: node_sync_def Let_def nth_append drop_obj_def)
qed (use assms in auto)

lemma frozen_reach:
  assumes "(node_step orderly)\<^sup>*\<^sup>* nd nd'" "i < length (nd_objs nd)" "nd_objs nd ! i = ob" "io_dropped ob" "io_ran ob"
  shows "i < length (nd_objs nd') \<and> nd_objs nd' ! i = ob"
  using assms(1)
proof (induction rule: rtranclp_induct)
  case (step b c)
  then show ?case using frozen_step [OF step.hyps(2) _ _ assms(4,5)] by blast
qed (use assms in simp)



end
