(* ===== verification/Tunnel.thy ===== *)
theory Tunnel
  imports Socks5_Inbound
begin

text \<open>
  A session through two nodes, end to end: the SOCKS5 handler of the ingress, its relay into the
  tunnel, the NP-Chain handler of the egress on a connection that carries what the ingress wrote,
  and its relay to the target. Shows that composing the parts modelled in \<open>Socks5_Inbound\<close>,
  \<open>Inbounds\<close> and \<open>Relaying\<close> carries exactly the client's bytes to the target and the target's
  bytes to the client.
\<close>

section \<open>Readers keep what a read keeps\<close>

definition rd_keeps :: "'s reader \<Rightarrow> ('s \<Rightarrow> bool) \<Rightarrow> bool" where
  "rd_keeps rd P \<longleftrightarrow> (\<forall>s n. P s \<longrightarrow> P (snd (rd s n)))"

lemma read_loop_keeps: "rd_keeps rd P \<Longrightarrow> P s \<Longrightarrow> P (snd (read_loop rd k want acc s))"
proof (induction rd k want acc s rule: read_loop.induct)
  case (2 rd k want acc s)
  obtain bs e s1 where rd: "rd s (want - length acc) = ((bs, e), s1)" by (metis prod.exhaust)
  then have "P s1" using 2(2,3) by (metis rd_keeps_def snd_conv)
  with 2 rd show ?case by (auto split: option.splits)
qed simp

lemma read_field_keeps:
  assumes "rd_keeps rd P" "P s" "read_field rd n s = (r, s')"
  shows "P s'"
  using read_loop_keeps [OF assms(1,2), of n n "[]"] assms(3) by (auto simp: read_field_def ReadFull_def split: prod.splits option.splits)

lemma read_byte0_keeps: "rd_keeps rd P \<Longrightarrow> P s \<Longrightarrow> read_byte0 rd s = (r, s') \<Longrightarrow> P s'"
  by (auto simp: read_byte0_def dest: read_field_keeps split: prod.splits sum.splits)

lemma decode_rest_keeps: "rd_keeps rd P \<Longrightarrow> P s \<Longrightarrow> decode_rest rd h hop sid net s = (d, s') \<Longrightarrow> P s'"
  by (auto simp: decode_rest_def Let_def dest: read_field_keeps split: prod.splits sum.splits if_splits)

lemma decode_hop_keeps: "rd_keeps rd P \<Longrightarrow> P s \<Longrightarrow> decode_hop rd h sid net s = (d, s') \<Longrightarrow> P s'"
  by (auto simp: decode_hop_def Let_def dest: read_field_keeps decode_rest_keeps split: prod.splits sum.splits if_splits option.splits)

lemma DecodeNextHop_keeps: "rd_keeps rd P \<Longrightarrow> P s \<Longrightarrow> DecodeNextHop rd ustr s = (d, s') \<Longrightarrow> P s'"
  by (auto simp: DecodeNextHop_def Let_def dest: read_field_keeps read_byte0_keeps decode_hop_keeps split: prod.splits sum.splits if_splits)

section \<open>Connections whose errors are final\<close>

lemma errors_final_empty: "errors_final c \<Longrightarrow> arriving (inq c) = [] \<longleftrightarrow> conn_rem c = []"
  by (simp add: errors_final_def)

lemma conn_read_final:
  assumes "errors_final c" "conn_read c n = ((bs, e), c')"
  shows "errors_final c'"
proof (cases "n = 0")
  case True
  with assms show ?thesis by (auto simp: conn_read_def errors_final_def)
next
  case False
  have o: "conn_open c" "\<not> is_closed c" using assms(1) by (simp_all add: errors_final_def conn_open_def)
  have t: "arriving (inq c) = bs @ arriving (inq c')" "\<not> is_closed c'"
    using conn_read_total [OF assms(2) o(2)] conn_read_frame [OF assms(2)] o(2) by simp_all
  show ?thesis
  proof (cases "conn_rem c = []")
    case True
    with assms(1) t have "arriving (inq c') = []" by (simp add: errors_final_def)
    with avail_prefix [of "inq c'"] t show ?thesis by (simp add: errors_final_def conn_rem_def)
  next
    case False
    with cr.rd_data [OF o(1), of n] \<open>n \<noteq> 0\<close> assms(2) have "conn_rem c = bs @ conn_rem c'" by auto
    with assms(1) t show ?thesis by (simp add: errors_final_def)
  qed
qed

text \<open>What reading leaves alone on a plain connection.\<close>

definition plain_conn :: "conn \<Rightarrow> netconn \<Rightarrow> bool" where
  "plain_conn c0 nc \<longleftrightarrow> (\<exists>c. nc = Inl c \<and> errors_final c \<and> outq c = outq c0 \<and> wlimit c = wlimit c0)"

lemma net_read_keeps: "rd_keeps net_read (plain_conn c0)"
  unfolding rd_keeps_def
proof (intro allI impI)
  fix nc n
  assume "plain_conn c0 nc"
  then obtain c where c: "nc = Inl c" "errors_final c" "outq c = outq c0" "wlimit c = wlimit c0" by (auto simp: plain_conn_def)
  obtain bs e c' where r: "conn_read c n = ((bs, e), c')" by (metis prod.exhaust)
  show "plain_conn c0 (snd (net_read nc n))"
    using conn_read_final [OF c(2) r] conn_read_frame [OF r] c r by (simp add: plain_conn_def)
qed

lemma HandleRelay_plain:
  assumes "HandleRelay netDial ustr sv en h c = Relayed rs" "no_obfs (ni_obfs h)" "errors_final c"
  shows "plain_conn c (rs_client rs)"
proof -
  obtain d nc where d: "DecodeNextHop net_read ustr (Inl c) = (d, nc)" by (metis prod.exhaust)
  have "plain_conn c (Inl c)" using assms(3) by (simp add: plain_conn_def)
  from DecodeNextHop_keeps [OF net_read_keeps this d] have "plain_conn c nc" .
  moreover have "rs_client rs = nc"
    using assms(1,2) d
    by (auto simp: HandleRelay_def no_obfs_def act_as_egress_def act_as_relay_def relay_system_def Let_def
        split: if_splits sum.splits conn_fail.splits prod.splits option.splits)
  ultimately show ?thesis by simp
qed

text \<open>The same for the SOCKS5 handler.\<close>

lemma read_into_keeps_final: "errors_final c \<Longrightarrow> errors_final (snd (read_into n buf c))"
  by (cases "ReadFull conn_read n c") (auto simp: read_into_def dest: ReadFull_final split: prod.splits)

lemma socks_auth_keeps_final: "errors_final c \<Longrightarrow> errors_final (snd (socks_auth bcryptOK auth buf c))"
  by (simp add: socks_auth_def split_beta Let_def read_into_keeps_final)

lemma read_host_keeps_final: "errors_final c \<Longrightarrow> errors_final (snd (read_host ty buf c))"
  by (simp add: read_host_def split_beta Let_def read_into_keeps_final)

lemma s5_handleConnect_final:
  assumes "errors_final c" "s5_handleConnect sv ty user lim c = Relayed rs" "rs_client rs = Inl c'"
  shows "errors_final c'"
proof -
  obtain tg b1 c1 where r: "read_host ty (replicate 256 0) c = ((tg, b1), c1)" by (metis prod.exhaust)
  obtain e b2 c2 where p: "read_into 2 b1 c1 = ((e, b2), c2)" by (metis prod.exhaust)
  have "errors_final c2"
    using read_into_keeps_final [of c1 2 b1] read_host_keeps_final [OF assms(1), of ty "replicate 256 0"] r p by simp
  with assms(2,3) r p show ?thesis
    by (auto simp: s5_handleConnect_def Let_def split: prod.splits if_splits sum.splits conn_fail.splits)
qed

lemma handleConnection_final:
  assumes "errors_final c" "handleConnection bcryptOK sv listenUDP s c lm = (Stream (Relayed rs), lm')" "rs_client rs = Inl c'"
  shows "errors_final c'"
proof -
  obtain e1 b1 c1 where 1: "read_into 2 (replicate 256 0) c = ((e1, b1), c1)" by (metis prod.exhaust)
  obtain ms e2 c2 where 2: "ReadFull conn_read (unat (b1 ! 1)) c1 = ((ms, e2), c2)" by (metis prod.exhaust)
  obtain u b3 c3 where 3: "socks_auth bcryptOK (s5_auth s) b1 c2 = ((u, b3), c3)" by (metis prod.exhaust)
  obtain e4 b4 c4 where 4: "read_into 4 b3 c3 = ((e4, b4), c4)" by (metis prod.exhaust)
  have "errors_final c1" using read_into_keeps_final [OF assms(1)] 1 by (metis snd_conv)
  then have "errors_final c2" using ReadFull_final [OF _ 2] by simp
  then have "errors_final c3" using socks_auth_keeps_final [of c2] 3 by (metis snd_conv)
  then have f: "errors_final c4" using read_into_keeps_final [of c3] 4 by (metis snd_conv)
  show ?thesis
    using assms(2,3) 1 2 3 4 s5_handleConnect_final [OF f]
    by (auto simp: handleConnection_def handleUDPAssociate_def Let_def split: prod.splits if_splits option.splits sum.splits)
qed

section \<open>Runs of a relay\<close>

definition dual_run :: "'l waiter \<Rightarrow> string \<Rightarrow> conn \<Rightarrow> conn \<Rightarrow> 'l relay_env \<Rightarrow> 'l dual \<Rightarrow> bool" where
  "dual_run waitN user c1 c2 env s \<longleftrightarrow> (dual_step waitN user)\<^sup>*\<^sup>* (dual_start c1 c2 env) s"

text \<open>The upstream loop has passed on everything and waits for more.\<close>

definition drained :: "'l dual \<Rightarrow> bool" where
  "drained s \<longleftrightarrow> du_up s = None \<and> arriving (inq (du_c1 s)) = []"

lemma dual_step_grows:
  assumes "dual_step waitN user s s'" "dual_inv w12 w21 s"
  shows "\<exists>xs. outq (du_c2 s') = outq (du_c2 s) @ xs"
  using assms(1)
proof (cases rule: dual_step.cases)
  case (upstream e c1 c2 t env)
  have "\<not> is_closed (du_c1 s)" using assms(2) by (simp add: dual_inv_def)
  with relay_round_spec [OF upstream(3)] upstream(1) show ?thesis by auto
next
  case (downstream e c2 c1 t env)
  have "\<not> is_closed (du_c2 s)" using assms(2) by (simp add: dual_inv_def)
  with relay_round_spec [OF downstream(3)] downstream(1) show ?thesis by auto
qed simp_all

lemma dual_run_grows:
  assumes "dual_run waitN user c1 c2 env s" "\<not> is_closed c1" "\<not> is_closed c2"
  shows "\<exists>xs. outq (du_c2 s) = outq c2 @ xs"
  using assms(1) unfolding dual_run_def
proof (induction rule: rtranclp_induct)
  case base
  show ?case by (simp add: dual_start_def)
next
  case (step s s')
  from dual_step_grows [OF step.hyps(2) dual_inv_reach [OF step.hyps(1) assms(2,3)]] step.IH show ?case by auto
qed

text \<open>What both sides have got, and that a drained relay has passed on everything.\<close>

lemma dual_run_carries:
  assumes "dual_run waitN user c1 c2 env s" "errors_final c1" "\<not> is_closed c2"
  shows "\<exists>sofar rest. outq (du_c2 s) = outq c2 @ sofar \<and> sofar @ rest = conn_rem c1 \<and> (drained s \<longrightarrow> rest = [])"
    and "\<exists>xs. outq (du_c1 s) @ xs = outq c1 @ arriving (inq c2)"
proof -
  have c: "\<not> is_closed c1" "arriving (inq c1) = conn_rem c1" using assms(2) by (simp_all add: errors_final_def)
  have inv: "dual_inv (outq c2 @ conn_rem c1) (outq c1 @ arriving (inq c2)) s"
    using dual_inv_reach [OF assms(1) [unfolded dual_run_def] c(1) assms(3)] c(2) by simp
  obtain xs where xs: "outq (du_c2 s) = outq c2 @ xs" using dual_run_grows [OF assms(1) c(1) assms(3)] by blast
  with inv show "\<exists>sofar rest. outq (du_c2 s) = outq c2 @ sofar \<and> sofar @ rest = conn_rem c1 \<and> (drained s \<longrightarrow> rest = [])"
    by (auto simp: dual_inv_def flow_inv_def drained_def)
  show "\<exists>xs. outq (du_c1 s) @ xs = outq c1 @ arriving (inq c2)"
    using inv by (auto simp: dual_inv_def flow_inv_def)
qed

text \<open>Without quota and limiter there is a run that passes on everything.\<close>

lemma dual_run_drains:
  assumes "errors_final c1" "\<not> is_closed c2" "wlimit c2 = None" "re_quota env = None" "re_limiter env = None"
  shows "\<exists>s. dual_run waitN user c1 c2 env s \<and> drained s"
proof -
  have "\<exists>s'. (dual_step waitN user)\<^sup>*\<^sup>* s s' \<and> drained s'"
    if "errors_final (du_c1 s)" "\<not> is_closed (du_c2 s)" "wlimit (du_c2 s) = None" "du_up s = None"
       "re_quota (du_env s) = None" "re_limiter (du_env s) = None" for s
    using that
  proof (induction "length (conn_rem (du_c1 s))" arbitrary: s rule: less_induct)
    case less
    note p = less.prems
    have op: "conn_open (du_c1 s)" and pos: "0 < BufferSize" using p(1) by (simp_all add: errors_final_def conn_open_def BufferSize_def)
    show ?case
    proof (cases "conn_rem (du_c1 s) = []")
      case True
      with p have "drained s" by (simp add: drained_def errors_final_def)
      then show ?thesis by blast
    next
      case False
      then obtain bs c1' where r: "conn_read (du_c1 s) BufferSize = ((bs, None), c1')" "bs \<noteq> []" "conn_rem (du_c1 s) = bs @ conn_rem c1'"
        using cr.rd_data [OF op pos] by auto
      let ?c2 = "(du_c2 s)\<lparr>outq := outq (du_c2 s) @ bs\<rparr>" and ?env = "count_bytes True (length bs) (du_env s)"
      let ?s = "s\<lparr>du_c1 := c1', du_c2 := ?c2, du_up := None, du_total_up := int64 (du_total_up s + int (length bs)), du_env := ?env\<rparr>"
      have "relay_round waitN user True (du_c1 s) (du_c2 s) (du_total_up s) (du_env s)
          = (None, c1', ?c2, int64 (du_total_up s + int (length bs)), ?env)"
        using r(1,2) p by (simp add: relay_round_def limited_read_def charge_def conn_write_def Let_def)
      from dual_step.upstream [OF p(4) this] have st: "dual_step waitN user s ?s" .
      have "\<exists>s'. (dual_step waitN user)\<^sup>*\<^sup>* ?s s' \<and> drained s'"
        by (rule less.hyps) (use r p conn_read_final [OF p(1) r(1)] in \<open>simp_all add: count_bytes_def\<close>)
      with st show ?thesis by (meson converse_rtranclp_into_rtranclp)
    qed
  qed
  from this [of "dual_start c1 c2 env"] assms show ?thesis by (simp add: dual_run_def dual_start_def)
qed

section \<open>Two nodes\<close>

text \<open>The egress on a connection that carries what the ingress has written so far.\<close>

lemma egress_continues:
  assumes "egress_dials hdr target" "dual_run waitN user c1 (c0\<lparr>outq := hdr\<rparr>) env s1" "errors_final c1" "conn_open c0"
    and "errors_final ct" "conn_rem ct = outq (du_c2 s1)" "no_obfs (ni_obfs h2)" "netDial ''tcp'' target = Inr tc"
  shows "\<exists>rs2 c2 rest. HandleRelay netDial ustr sv2 en2 h2 ct = Relayed rs2 \<and> rs_client rs2 = Inl c2 \<and> rs_target rs2 = Inl tc
    \<and> errors_final c2 \<and> outq c2 = outq ct \<and> conn_rem c2 @ rest = conn_rem c1 \<and> (drained s1 \<longrightarrow> rest = [])"
proof -
  have "\<not> is_closed (c0\<lparr>outq := hdr\<rparr>)" using assms(4) by (simp add: conn_open_def)
  from dual_run_carries(1) [OF assms(2,3) this] obtain sofar rest where
    f: "outq (du_c2 s1) = hdr @ sofar" "sofar @ rest = conn_rem c1" "drained s1 \<longrightarrow> rest = []" by auto
  have o: "conn_open ct" "conn_rem ct = hdr @ sofar" using assms(5,6) f(1) by (simp_all add: errors_final_def conn_open_def)
  obtain rs2 where r: "HandleRelay netDial ustr sv2 en2 h2 ct = Relayed rs2" "rs_target rs2 = Inl tc" "nrem (rs_client rs2) = sofar"
    using assms(1) [unfolded egress_dials_def] assms(7,8) o by metis
  from HandleRelay_plain [OF r(1) assms(7,5)] obtain c2 where "rs_client rs2 = Inl c2" "errors_final c2" "outq c2 = outq ct"
    by (auto simp: plain_conn_def)
  with r f show ?thesis by (auto simp: nrem_def)
qed

text \<open>The ingress: its client connection and the connection into the tunnel.\<close>

lemma ingress_starts:
  assumes "chain_services sv en n c0" "uuid_wf (en_uparse en) (en_unew en)" "hop_ok host" "au_Enabled (s5_auth s)"
    and "length ms < 256" "length u < 256" "length pw < 256" "length host < 256"
    and "authenticated bcryptOK (au_Users (s5_auth s)) (string_of_bytes u) (string_of_bytes pw)"
    and "errors_final c" "at c (socks_request ms u pw rsv host port @ payload) []"
  shows "\<exists>rs lm' c1 hdr. handleConnection bcryptOK sv listenUDP s c lm = (Stream (Relayed rs), lm') \<and> rs_user rs = string_of_bytes u
    \<and> rs_client rs = Inl c1 \<and> errors_final c1 \<and> conn_rem c1 = payload \<and> outq c1 = [5, 2, 1, 0] @ socks_reply 0
    \<and> rs_target rs = Inl (c0\<lparr>outq := hdr\<rparr>) \<and> egress_dials hdr (JoinHostPort host (nat_to_dec (unat port)))"
  using handleConnection_domain [OF assms(1-8,11), of bcryptOK listenUDP lm] assms(9) handleConnection_final [OF assms(10)]
  by (fastforce simp: at_def)

section \<open>Properties\<close>

text \<open>
  What an exchange may have delivered: to the target a prefix of the payload, all of it when both
  relays are drained; to the client, when the tunnel brings back what the egress has written, the
  replies of the protocol and a prefix of what the target sends.
\<close>

definition exchanged :: "bytes \<Rightarrow> conn \<Rightarrow> conn \<Rightarrow> 'l dual \<Rightarrow> 'm dual \<Rightarrow> bool" where
  "exchanged payload c0 tc s1 s2 \<longleftrightarrow>
     (\<exists>rest. outq (du_c2 s2) @ rest = outq tc @ payload)
     \<and> (drained s1 \<and> drained s2 \<longrightarrow> outq (du_c2 s2) = outq tc @ payload)
     \<and> (arriving (inq c0) = outq (du_c1 s2) \<longrightarrow>
          (\<exists>rest. outq (du_c1 s1) @ rest = [5, 2, 1, 0] @ socks_reply 0 @ arriving (inq tc)))"

text \<open>
  C5: A SOCKS5 session through two nodes, end to end. For a good login and a request for a domain
  name, followed by a payload, in any segmentation: the ingress relays, and whatever its relay has
  written into the tunnel at any moment, in every interleaving and whatever its limiter and quota
  do, the egress that gets these bytes dials exactly the requested host and port, and in every
  interleaving of its own relay the target has received a prefix of the payload and nothing
  else, all of it when both relays have passed on what arrived; and when what comes back to the
  ingress is what the egress has written, the client has received, after the replies of the
  protocol, a prefix of what the target sends and nothing else.
\<close>

theorem socks5_end_to_end:
  assumes "chain_services sv en n c0" "uuid_wf (en_uparse en) (en_unew en)" "hop_ok host" "au_Enabled (s5_auth s)"
    and "length ms < 256" "length u < 256" "length pw < 256" "length host < 256"
    and "authenticated bcryptOK (au_Users (s5_auth s)) (string_of_bytes u) (string_of_bytes pw)"
    and "errors_final c" "at c (socks_request ms u pw rsv host port @ payload) []"
    and "no_obfs (ni_obfs h2)" "netDial ''tcp'' (JoinHostPort host (nat_to_dec (unat port))) = Inr tc" "\<not> is_closed tc"
  shows "\<exists>rs lm' c1. handleConnection bcryptOK sv listenUDP s c lm = (Stream (Relayed rs), lm') \<and> rs_client rs = Inl c1
    \<and> (\<forall>waitN env s1 ct. dual_run waitN (rs_user rs) c1 (base_conn (rs_target rs)) env s1
          \<and> errors_final ct \<and> outq ct = [] \<and> conn_rem ct = outq (du_c2 s1) \<longrightarrow>
        (\<exists>rs2 c2. HandleRelay netDial ustr sv2 en2 h2 ct = Relayed rs2 \<and> rs_client rs2 = Inl c2 \<and> rs_target rs2 = Inl tc
          \<and> (\<forall>waitN2 env2 s2. dual_run waitN2 (rs_user rs2) c2 tc env2 s2 \<longrightarrow> exchanged payload c0 tc s1 s2)))"
proof -
  obtain rs lm' c1 hdr where i: "handleConnection bcryptOK sv listenUDP s c lm = (Stream (Relayed rs), lm')"
      "rs_client rs = Inl c1" "errors_final c1" "conn_rem c1 = payload" "outq c1 = [5, 2, 1, 0] @ socks_reply 0"
      "rs_target rs = Inl (c0\<lparr>outq := hdr\<rparr>)" "egress_dials hdr (JoinHostPort host (nat_to_dec (unat port)))"
    using ingress_starts [OF assms(1-11), of listenUDP lm] by blast
  have c0: "conn_open c0" "\<not> is_closed (c0\<lparr>outq := hdr\<rparr>)" using assms(1) by (simp_all add: chain_services_def conn_open_def)
  have "\<exists>rs2 c2. HandleRelay netDial ustr sv2 en2 h2 ct = Relayed rs2 \<and> rs_client rs2 = Inl c2 \<and> rs_target rs2 = Inl tc
          \<and> (\<forall>waitN2 env2 s2. dual_run waitN2 (rs_user rs2) c2 tc env2 s2 \<longrightarrow> exchanged payload c0 tc s1 s2)"
    if run: "dual_run waitN (rs_user rs) c1 (c0\<lparr>outq := hdr\<rparr>) env s1" and ct: "errors_final ct" "outq ct = []" "conn_rem ct = outq (du_c2 s1)"
    for waitN env s1 ct
  proof -
    obtain rs2 c2 left where e: "HandleRelay netDial ustr sv2 en2 h2 ct = Relayed rs2" "rs_client rs2 = Inl c2" "rs_target rs2 = Inl tc"
        "errors_final c2" "outq c2 = []" "conn_rem c2 @ left = payload" "drained s1 \<longrightarrow> left = []"
      using egress_continues [where netDial = netDial, OF i(7) run i(3) c0(1) ct(1,3) assms(12,13), of ustr sv2 en2] ct(2) i(4) by auto
    have ret: "\<exists>xs. outq (du_c1 s1) @ xs = ([5, 2, 1, 0] @ socks_reply 0) @ arriving (inq c0)"
      using dual_run_carries(2) [OF run i(3) c0(2)] i(5) by simp
    have "exchanged payload c0 tc s1 s2" if run2: "dual_run waitN2 (rs_user rs2) c2 tc env2 s2" for waitN2 env2 s2
      unfolding exchanged_def
    proof (intro conjI impI)
      obtain got more where g: "outq (du_c2 s2) = outq tc @ got" "got @ more = conn_rem c2" "drained s2 \<longrightarrow> more = []"
        using dual_run_carries(1) [OF run2 e(4) assms(14)] by blast
      show "\<exists>rest. outq (du_c2 s2) @ rest = outq tc @ payload" using g(1) g(2) [symmetric] e(6) by (intro exI [of _ "more @ left"]) simp
      show "outq (du_c2 s2) = outq tc @ payload" if "drained s1 \<and> drained s2" using g e(6,7) that by simp
      obtain ys where "outq (du_c1 s2) @ ys = arriving (inq tc)"
        using dual_run_carries(2) [OF run2 e(4) assms(14)] e(5) by auto
      with ret show "\<exists>rest. outq (du_c1 s1) @ rest = [5, 2, 1, 0] @ socks_reply 0 @ arriving (inq tc)"
        if "arriving (inq c0) = outq (du_c1 s2)" using that by (metis append.assoc)
    qed
    with e(1-3) show ?thesis by blast
  qed
  with i(1,2,6) show ?thesis by auto
qed

text \<open>The login of \<open>demo_login\<close>, through a chain to a target that takes what it gets.\<close>

lemma demo_session:
  "chain_services demo_services demo_entropy (demo_node ''192.0.2.9:443'') (peer_sends [])" "uuid_wf (en_uparse demo_entropy) (en_unew demo_entropy)"
  "hop_ok ''a.example''" "au_Enabled (s5_auth demo_s5)"
  "length [2 :: byte] < 256" "length (bytes_of_string ''ann'') < 256" "length (bytes_of_string ''pw'') < 256" "length ''a.example'' < 256"
  "authenticated (=) (au_Users (s5_auth demo_s5)) (string_of_bytes (bytes_of_string ''ann'')) (string_of_bytes (bytes_of_string ''pw''))"
  "errors_final (peer_sends (demo_login ''pw''))"
  "at (peer_sends (demo_login ''pw'')) (socks_request [2] (bytes_of_string ''ann'') (bytes_of_string ''pw'') 0 ''a.example'' 443 @ [7, 8]) []"
  using demo_chain_services demo_entropy_wf demo_hop_ok(1)
  by (simp_all add: demo_s5_def NewSocks5Handler_def authenticated_def errors_final_def at_def demo_closed demo_login_def)

lemma peer_final: "errors_final (peer_sends bs)"
  by (simp add: errors_final_def demo_closed)

theorem socks5_end_to_end_witness:
  "\<exists>rs lm' c1 s1 rs2 c2 s2. handleConnection (=) demo_services (Inr 5000) demo_s5 (peer_sends (demo_login ''pw'')) (NewLimiterManager 1) = (Stream (Relayed rs), lm')
    \<and> rs_client rs = Inl c1 \<and> dual_run demo_wait (rs_user rs) c1 (base_conn (rs_target rs)) (demo_env None) s1
    \<and> HandleRelay (\<lambda>n. demo_dial None) string_of_bytes demo_services demo_entropy (NewNPChainInboundHandler demo_obfs) (peer_sends (outq (du_c2 s1))) = Relayed rs2
    \<and> rs_client rs2 = Inl c2 \<and> dual_run demo_wait (rs_user rs2) c2 (peer_sends []) (demo_env None) s2 \<and> outq (du_c2 s2) = [7, 8]"
proof -
  have h2: "no_obfs (ni_obfs (NewNPChainInboundHandler demo_obfs))" by (simp add: NewNPChainInboundHandler_def no_obfs_def demo_obfs_def)
  have env: "re_quota (demo_env None) = None" "re_limiter (demo_env None) = None" by (simp_all add: demo_env_def)
  obtain rs lm' c1 where i: "handleConnection (=) demo_services (Inr 5000) demo_s5 (peer_sends (demo_login ''pw'')) (NewLimiterManager 1) = (Stream (Relayed rs), lm')"
      "rs_client rs = Inl c1"
    and e: "\<forall>waitN (env :: unit relay_env) s1 ct. dual_run waitN (rs_user rs) c1 (base_conn (rs_target rs)) env s1
          \<and> errors_final ct \<and> outq ct = [] \<and> conn_rem ct = outq (du_c2 s1) \<longrightarrow>
        (\<exists>rs2 c2. HandleRelay (\<lambda>n. demo_dial None) string_of_bytes demo_services demo_entropy (NewNPChainInboundHandler demo_obfs) ct = Relayed rs2
          \<and> rs_client rs2 = Inl c2 \<and> rs_target rs2 = Inl (peer_sends [])
          \<and> (\<forall>waitN2 (env2 :: unit relay_env) s2. dual_run waitN2 (rs_user rs2) c2 (peer_sends []) env2 s2 \<longrightarrow> exchanged [7, 8] (peer_sends []) (peer_sends []) s1 s2))"
    using socks5_end_to_end [where netDial = "\<lambda>n. demo_dial None" and tc = "peer_sends []" and 'a = unit and 'b = unit, OF demo_session h2 demo_dial_peer demo_closed(1),
        of "Inr 5000" "NewLimiterManager 1" string_of_bytes demo_services demo_entropy] by blast
  obtain x hdr where x: "errors_final x" "base_conn (rs_target rs) = (peer_sends [])\<lparr>outq := hdr\<rparr>" "x = c1"
    using ingress_starts [OF demo_session, of "Inr 5000" "NewLimiterManager 1"] i by auto
  obtain s1 where s1: "dual_run demo_wait (rs_user rs) c1 (base_conn (rs_target rs)) (demo_env None) s1" "drained s1"
    using dual_run_drains [of c1 "base_conn (rs_target rs)" "demo_env None" demo_wait "rs_user rs"] x env by (auto simp: peer_sends_def)
  obtain rs2 c2 where 2: "HandleRelay (\<lambda>n. demo_dial None) string_of_bytes demo_services demo_entropy (NewNPChainInboundHandler demo_obfs) (peer_sends (outq (du_c2 s1))) = Relayed rs2"
      "rs_client rs2 = Inl c2" "\<forall>waitN2 (env2 :: unit relay_env) s2. dual_run waitN2 (rs_user rs2) c2 (peer_sends []) env2 s2 \<longrightarrow> exchanged [7, 8] (peer_sends []) (peer_sends []) s1 s2"
    using e [rule_format, of demo_wait "demo_env None" s1 "peer_sends (outq (du_c2 s1))"] s1(1) by (auto simp: peer_final demo_closed)
  have "errors_final c2" using HandleRelay_plain [OF 2(1) h2 peer_final] 2(2) by (auto simp: plain_conn_def)
  then obtain s2 where s2: "dual_run demo_wait (rs_user rs2) c2 (peer_sends []) (demo_env None) s2" "drained s2"
    using dual_run_drains [of c2 "peer_sends []" "demo_env None" demo_wait "rs_user rs2"] env by (auto simp: peer_sends_def)
  with 2(3) s1(2) have "outq (du_c2 s2) = [7, 8]" by (auto simp: exchanged_def demo_closed)
  with i s1(1) 2(1,2) s2(1) show ?thesis by blast
qed

text \<open>
  C35: A session through two nodes can always complete. Without quota and limiter, for a good login and
  request as before, there is a run of the ingress after which the egress, on any connection that
  carries what was written into the tunnel, in any segmentation, has a run that delivers all of
  the payload to the target.
\<close>

theorem socks5_delivers:
  assumes "chain_services sv en n c0" "uuid_wf (en_uparse en) (en_unew en)" "hop_ok host" "au_Enabled (s5_auth s)"
    and "length ms < 256" "length u < 256" "length pw < 256" "length host < 256"
    and "authenticated bcryptOK (au_Users (s5_auth s)) (string_of_bytes u) (string_of_bytes pw)"
    and "errors_final c" "at c (socks_request ms u pw rsv host port @ payload) []"
    and "no_obfs (ni_obfs h2)" "netDial ''tcp'' (JoinHostPort host (nat_to_dec (unat port))) = Inr tc" "\<not> is_closed tc" "wlimit tc = None"
    and "re_quota env = None" "re_limiter env = None" "re_quota env2 = None" "re_limiter env2 = None"
  shows "\<exists>rs lm' c1 s1. handleConnection bcryptOK sv listenUDP s c lm = (Stream (Relayed rs), lm') \<and> rs_client rs = Inl c1
    \<and> dual_run waitN (rs_user rs) c1 (base_conn (rs_target rs)) env s1
    \<and> (\<forall>ct. errors_final ct \<and> conn_rem ct = outq (du_c2 s1) \<longrightarrow>
        (\<exists>rs2 c2 s2. HandleRelay netDial ustr sv2 en2 h2 ct = Relayed rs2 \<and> rs_client rs2 = Inl c2 \<and> rs_target rs2 = Inl tc
          \<and> dual_run waitN2 (rs_user rs2) c2 tc env2 s2 \<and> outq (du_c2 s2) = outq tc @ payload))"
proof -
  obtain rs lm' c1 hdr where i: "handleConnection bcryptOK sv listenUDP s c lm = (Stream (Relayed rs), lm')"
      "rs_client rs = Inl c1" "errors_final c1" "conn_rem c1 = payload" "rs_target rs = Inl (c0\<lparr>outq := hdr\<rparr>)"
      "egress_dials hdr (JoinHostPort host (nat_to_dec (unat port)))"
    using ingress_starts [OF assms(1-11), of listenUDP lm] by blast
  have c0: "conn_open c0" "\<not> is_closed (c0\<lparr>outq := hdr\<rparr>)" "wlimit (c0\<lparr>outq := hdr\<rparr>) = None"
    using assms(1) by (simp_all add: chain_services_def conn_open_def)
  obtain s1 where s1: "dual_run waitN (rs_user rs) c1 (c0\<lparr>outq := hdr\<rparr>) env s1" "drained s1"
    using dual_run_drains [OF i(3) c0(2,3) assms(16,17)] by blast
  have "\<exists>rs2 c2 s2. HandleRelay netDial ustr sv2 en2 h2 ct = Relayed rs2 \<and> rs_client rs2 = Inl c2 \<and> rs_target rs2 = Inl tc
      \<and> dual_run waitN2 (rs_user rs2) c2 tc env2 s2 \<and> outq (du_c2 s2) = outq tc @ payload"
    if ct: "errors_final ct" "conn_rem ct = outq (du_c2 s1)" for ct
  proof -
    obtain rs2 c2 where e: "HandleRelay netDial ustr sv2 en2 h2 ct = Relayed rs2" "rs_client rs2 = Inl c2" "rs_target rs2 = Inl tc"
        "errors_final c2" "conn_rem c2 = payload"
      using egress_continues [where netDial = netDial, OF i(6) s1(1) i(3) c0(1) ct assms(12,13), of ustr sv2 en2] i(4) s1(2) by auto
    obtain s2 where s2: "dual_run waitN2 (rs_user rs2) c2 tc env2 s2" "drained s2"
      using dual_run_drains [OF e(4) assms(14,15,18,19)] by blast
    from dual_run_carries(1) [OF s2(1) e(4) assms(14)] s2(2) e(5) have "outq (du_c2 s2) = outq tc @ payload" by auto
    with e(1-3) s2(1) show ?thesis by blast
  qed
  with i(1,2,5) s1(1) show ?thesis by auto
qed

theorem socks5_delivers_witness:
  "\<exists>rs s1 rs2 s2. fst (handleConnection (=) demo_services (Inr 5000) demo_s5 (peer_sends (demo_login ''pw'')) (NewLimiterManager 1)) = Stream (Relayed rs)
    \<and> HandleRelay (\<lambda>n. demo_dial None) string_of_bytes demo_services demo_entropy (NewNPChainInboundHandler demo_obfs)
        (peer_sends (outq (du_c2 (s1 :: unit dual)))) = Relayed rs2
    \<and> rs_target rs2 = Inl (peer_sends []) \<and> outq (du_c2 (s2 :: unit dual)) = [7, 8]"
proof -
  have h2: "no_obfs (ni_obfs (NewNPChainInboundHandler demo_obfs))" by (simp add: NewNPChainInboundHandler_def no_obfs_def demo_obfs_def)
  have env: "re_quota (demo_env None) = None" "re_limiter (demo_env None) = None" by (simp_all add: demo_env_def)
  obtain rs lm' and s1 :: "unit dual" where 1: "handleConnection (=) demo_services (Inr 5000) demo_s5 (peer_sends (demo_login ''pw'')) (NewLimiterManager 1) = (Stream (Relayed rs), lm')"
    and 2: "\<forall>ct. errors_final ct \<and> conn_rem ct = outq (du_c2 s1) \<longrightarrow>
        (\<exists>rs2 c2 s2. HandleRelay (\<lambda>n. demo_dial None) string_of_bytes demo_services demo_entropy (NewNPChainInboundHandler demo_obfs) ct = Relayed rs2
          \<and> rs_client rs2 = Inl c2 \<and> rs_target rs2 = Inl (peer_sends []) \<and> dual_run demo_wait (rs_user rs2) c2 (peer_sends []) (demo_env None) s2
          \<and> outq (du_c2 s2) = outq (peer_sends []) @ [7, 8])"
    using socks5_delivers [where netDial = "\<lambda>n. demo_dial None" and tc = "peer_sends []" and env = "demo_env None" and ?env2.0 = "demo_env None",
        OF demo_session h2 demo_dial_peer demo_closed(1,4) env env, of "Inr 5000" "NewLimiterManager 1" demo_wait string_of_bytes demo_services demo_entropy demo_wait] by blast
  from 2 [rule_format, of "peer_sends (outq (du_c2 s1))"] 1 show ?thesis by (fastforce simp: peer_final demo_closed)
qed

end
