(* ===== verification/Sessions.thy ===== *)
theory Sessions
  imports UDP_Inbounds
begin

text \<open>
  All relays of a process together (\<^verbatim>\<open>DualRelay\<close> and \<^verbatim>\<open>Relay\<close> in \<^verbatim>\<open>internal/common/utils.go\<close>). Every
  session registers itself, runs one loop per direction, and returns when the first of them has
  reported; the other one runs on until it fails on the closed connections. The sessions share
  the session table, the counters and the quota manager, and share counters and quota with the UDP
  packets of all inbounds. \<open>world_step\<close> interleaves them.
\<close>

section \<open>State\<close>

text \<open>
  A call of \<^verbatim>\<open>DualRelay\<close>: what each loop returned, whether its deferred update has run and its result
  is in the channel, and whether \<^verbatim>\<open>DualRelay\<close> and the handler that called it have returned.
  \<open>se_base\<close> is what had been written on both connections before.
\<close>

record session =
  se_id :: string
  se_user :: string
  se_limited :: bool
  se_metered :: bool
  se_cancelled :: bool
  se_c1 :: conn
  se_c2 :: conn
  se_up :: "error option"
  se_down :: "error option"
  se_total_up :: int
  se_total_down :: int
  se_acc_up :: bool
  se_acc_down :: bool
  se_returned :: bool
  se_base :: nat

text \<open>
  \<open>wo_udp\<close> lists the UDP packets sent on, each with its user and size, and \<open>wo_read\<close> counts the bytes
  read by all sessions and UDP inbounds; no code looks at either.
\<close>

record world =
  wo_sessions :: "session list"
  wo_table :: session_map
  wo_metrics :: metrics
  wo_quota :: QuotaManager
  wo_errors :: "string list"
  wo_udp :: "(string \<times> nat) list"
  wo_read :: nat

definition world0 :: "QuotaManager \<Rightarrow> world" where
  "world0 q = \<lparr>wo_sessions = [], wo_table = [],
     wo_metrics = metrics0,
     wo_quota = q, wo_errors = [], wo_udp = [], wo_read = 0\<rparr>"

definition upd_sess :: "nat \<Rightarrow> (session \<Rightarrow> session) \<Rightarrow> world \<Rightarrow> world" where
  "upd_sess i f w = w\<lparr>wo_sessions := (wo_sessions w)[i := f (wo_sessions w ! i)]\<rparr>"

section \<open>Operations\<close>

definition new_session :: "string \<Rightarrow> string \<Rightarrow> bool \<Rightarrow> bool \<Rightarrow> conn \<Rightarrow> conn \<Rightarrow> session" where
  "new_session sid user limited metered c1 c2 = \<lparr>se_id = sid, se_user = user, se_limited = limited, se_metered = metered,
     se_cancelled = False, se_c1 = c1, se_c2 = c2, se_up = None, se_down = None, se_total_up = 0, se_total_down = 0,
     se_acc_up = False, se_acc_down = False, se_returned = False, se_base = length (outq c1) + length (outq c2)\<rparr>"

definition session_begin :: "string \<Rightarrow> string \<Rightarrow> int \<Rightarrow> bool \<Rightarrow> bool \<Rightarrow> conn \<Rightarrow> conn \<Rightarrow> world \<Rightarrow> world" where
  "session_begin sid user now limited metered c1 c2 w = (case dual_begin sid user now c1 c2 (wo_metrics w, wo_table w) of
     (mt, m) \<Rightarrow> w\<lparr>wo_metrics := mt, wo_table := m, wo_sessions := wo_sessions w @ [new_session sid user limited metered c1 c2]\<rparr>)"

text \<open>One round of one direction, on the shared quota and counters. \<open>lim\<close> is the state of the limiter at that time.\<close>

definition session_round :: "'l waiter \<Rightarrow> bool \<Rightarrow> 'l option \<Rightarrow> nat \<Rightarrow> world \<Rightarrow> world" where
  "session_round waitN up lim i w =
     (let s = wo_sessions w ! i;
          env = \<lparr>re_quota = (if se_metered s then Some (wo_quota w) else None), re_limiter = lim, re_cancelled = se_cancelled s,
            re_metrics = wo_metrics w, re_errors = wo_errors w\<rparr>;
          src = (if up then se_c1 s else se_c2 s); dst = (if up then se_c2 s else se_c1 s) in
      case relay_round waitN (se_user s) up src dst (if up then se_total_up s else se_total_down s) env of
        (e, src', dst', tot, env') \<Rightarrow>
          upd_sess i (\<lambda>s. if up then s\<lparr>se_c1 := src', se_c2 := dst', se_up := e, se_total_up := tot\<rparr>
              else s\<lparr>se_c2 := src', se_c1 := dst', se_down := e, se_total_down := tot\<rparr>)
            (w\<lparr>wo_quota := (case re_quota env' of Some q \<Rightarrow> q | None \<Rightarrow> wo_quota w), wo_metrics := re_metrics env',
               wo_errors := re_errors env', wo_read := wo_read w + (length (arriving (inq src)) - length (arriving (inq src')))\<rparr>))"

text \<open>A loop has returned: its deferred update of the session table, and its result in the channel.\<close>

definition session_account :: "bool \<Rightarrow> nat \<Rightarrow> world \<Rightarrow> world" where
  "session_account up i w = (let s = wo_sessions w ! i in
     upd_sess i (\<lambda>s. if up then s\<lparr>se_acc_up := True\<rparr> else s\<lparr>se_acc_down := True\<rparr>)
       (w\<lparr>wo_table := relay_account (se_id s) (if up then se_total_up s else se_total_down s) (wo_table w)\<rparr>))"

text \<open>\<^verbatim>\<open>DualRelay\<close> returns, and with it the handler, which closes both connections.\<close>

definition session_return :: "nat \<Rightarrow> world \<Rightarrow> world" where
  "session_return i w = (case dual_end (se_id (wo_sessions w ! i)) (wo_metrics w, wo_table w) of (mt, m) \<Rightarrow>
     upd_sess i (\<lambda>s. s\<lparr>se_returned := True, se_cancelled := True, se_c1 := conn_close (se_c1 s), se_c2 := conn_close (se_c2 s)\<rparr>)
       (w\<lparr>wo_metrics := mt, wo_table := m\<rparr>))"

text \<open>A UDP packet of any inbound, with what \<^verbatim>\<open>ForwardPacket\<close> did, and a reply.\<close>

definition was_sent :: "udp_sent \<Rightarrow> bool" where
  "was_sent r = (case r of SentDatagram _ \<Rightarrow> True | SentWrite _ \<Rightarrow> True | _ \<Rightarrow> False)"

definition udp_forwarded :: "string \<Rightarrow> nat \<Rightarrow> udp_sent \<Rightarrow> QuotaManager \<Rightarrow> world \<Rightarrow> world" where
  "udp_forwarded u n r q w = w\<lparr>wo_quota := q, wo_metrics := forward_count r n (wo_metrics w),
     wo_udp := wo_udp w @ (if was_sent r then [(u, n)] else []), wo_read := wo_read w + n\<rparr>"

definition udp_replied :: "(string \<times> string \<times> bytes) option \<Rightarrow> world \<Rightarrow> world" where
  "udp_replied r w = w\<lparr>wo_metrics := reverse_count r (wo_metrics w)\<rparr>"

text \<open>
  \<open>uniq\<close> says that a session gets an id that none had before it, as the inbounds' fresh UUIDs do. A
  cancellation is a kick of the administrator.
\<close>

inductive world_step :: "'l waiter \<Rightarrow> bool \<Rightarrow> world \<Rightarrow> world \<Rightarrow> bool" for waitN uniq where
  Begin: "uniq \<longrightarrow> sid \<notin> se_id ` set (wo_sessions w) \<Longrightarrow> \<not> is_closed c1 \<Longrightarrow> \<not> is_closed c2 \<Longrightarrow>
     world_step waitN uniq w (session_begin sid user now limited metered c1 c2 w)"
| Round: "i < length (wo_sessions w) \<Longrightarrow> (if up then se_up else se_down) (wo_sessions w ! i) = None \<Longrightarrow>
     (lim \<noteq> None \<longleftrightarrow> se_limited (wo_sessions w ! i)) \<Longrightarrow> world_step waitN uniq w (session_round waitN up lim i w)"
| Account: "i < length (wo_sessions w) \<Longrightarrow> (if up then se_up else se_down) (wo_sessions w ! i) \<noteq> None \<Longrightarrow>
     \<not> (if up then se_acc_up else se_acc_down) (wo_sessions w ! i) \<Longrightarrow> world_step waitN uniq w (session_account up i w)"
| Return: "i < length (wo_sessions w) \<Longrightarrow> \<not> se_returned (wo_sessions w ! i) \<Longrightarrow>
     se_acc_up (wo_sessions w ! i) \<or> se_acc_down (wo_sessions w ! i) \<Longrightarrow> world_step waitN uniq w (session_return i w)"
| Cancel: "i < length (wo_sessions w) \<Longrightarrow> world_step waitN uniq w (upd_sess i (\<lambda>s. s\<lparr>se_cancelled := True\<rparr>) w)"
| Packet: "ForwardPacket sv en j dat target u (Some (wo_quota w)) m = (r, Some q, m') \<Longrightarrow>
     world_step waitN uniq w (udp_forwarded u (length dat) r q w)"
| Reply: "reverse_step svc now rd j m = (r, m') \<Longrightarrow> world_step waitN uniq w (udp_replied r w)"

inductive_cases world_stepE: "world_step waitN uniq w w'"

section \<open>The session table\<close>

text \<open>A session that runs has its entry, with no bytes until a loop has reported; one that has returned has none.\<close>

definition entry_ok :: "session_map \<Rightarrow> session \<Rightarrow> bool" where
  "entry_ok m s \<longleftrightarrow> se_id s \<noteq> [] \<longrightarrow>
     (if se_returned s then map_of m (se_id s) = None
      else \<exists>info. map_of m (se_id s) = Some info \<and> si_ID info = se_id s \<and> si_UserID info = se_user s
        \<and> (\<not> se_acc_up s \<and> \<not> se_acc_down s \<longrightarrow> si_BytesSent info = 0))"

definition running :: "session list \<Rightarrow> nat" where
  "running ss = length (filter (\<lambda>s. \<not> se_returned s) ss)"

definition table_ok :: "session list \<Rightarrow> session_map \<Rightarrow> metrics \<Rightarrow> bool" where
  "table_ok ss m mt \<longleftrightarrow> distinct (map se_id ss) \<and> (\<forall>s \<in> set ss. entry_ok m s)
     \<and> (\<forall>sid. map_of m sid \<noteq> None \<longrightarrow> sid \<noteq> [] \<and> sid \<in> se_id ` set ss) \<and> mt_activeCount mt = int64 (int (running ss))"

lemma running_update:
  "i < length ss \<Longrightarrow> running (ss[i := s]) + (if se_returned (ss ! i) then 0 else 1) = running ss + (if se_returned s then 0 else 1)"
proof (induction ss arbitrary: i)
  case (Cons x ss)
  have c: "running (y # ys) = (if se_returned y then 0 else 1) + running ys" for y ys by (simp add: running_def)
  show ?case using Cons.IH Cons.prems by (cases i) (simp_all add: c)
qed simp

text \<open>An operation of one session changes at most its own entry.\<close>

lemma table_ok_update:
  assumes "table_ok ss m mt" "i < length ss" "se_id s = se_id (ss ! i)"
    and "\<And>k. k \<noteq> se_id (ss ! i) \<Longrightarrow> map_of m' k = map_of m k" "map_of m' [] = None" "entry_ok m' s"
    and "mt_activeCount mt' = int64 (int (running (ss[i := s])))"
  shows "table_ok (ss[i := s]) m' mt'"
proof -
  have ids: "map se_id (ss[i := s]) = map se_id ss" using assms(2,3) by (simp add: map_update list_update_same_conv)
  then have dom: "se_id ` set (ss[i := s]) = se_id ` set ss" by (metis list.set_map)
  have d: "distinct (map se_id ss)" using assms(1) by (simp add: table_ok_def)
  have "entry_ok m' x" if x: "x \<in> set (ss[i := s])" for x
  proof -
    obtain j where j: "j < length ss" "x = ss[i := s] ! j" using x by (auto simp: in_set_conv_nth)
    show ?thesis
    proof (cases "j = i")
      case True
      with j assms(6) show ?thesis by simp
    next
      case False
      then have "se_id (ss ! j) \<noteq> se_id (ss ! i)" using nth_eq_iff_index_eq [OF d, of j i] j(1) assms(2) by simp
      with assms(1,4) j False show ?thesis by (auto simp: table_ok_def entry_ok_def)
    qed
  qed
  moreover have "sid \<noteq> [] \<and> sid \<in> se_id ` set ss" if "map_of m' sid \<noteq> None" for sid
  proof (cases "sid = se_id (ss ! i)")
    case True
    with that assms(2,5) show ?thesis by (metis imageI nth_mem)
  next
    case False
    with that assms(1,4) show ?thesis by (auto simp: table_ok_def)
  qed
  ultimately show ?thesis using ids d dom assms(7) by (simp add: table_ok_def)
qed

lemma table_ok_nil: "table_ok ss m mt \<Longrightarrow> map_of m [] = None"
  by (auto simp: table_ok_def)

lemma table_ok_entry: "table_ok ss m mt \<Longrightarrow> i < length ss \<Longrightarrow> entry_ok m (ss ! i)"
  by (simp add: table_ok_def)

lemma relay_round_count:
  "relay_round waitN user up src dst tot env = (e, src', dst', tot', env') \<Longrightarrow> mt_activeCount (re_metrics env') = mt_activeCount (re_metrics env)"
  by (auto simp: relay_round_def limited_read_def charge_def log_error_def count_bytes_def AddBytesIn_def AddBytesOut_def AddBytesTransferred_def Let_def
      split: prod.splits if_splits option.splits bool.splits)

lemma udp_counts: "mt_activeCount (forward_count r n mt) = mt_activeCount mt" "mt_activeCount (reverse_count b mt) = mt_activeCount mt"
  by (auto simp: forward_count_def reverse_count_def AddBytesIn_def AddBytesOut_def AddBytesTransferred_def split: udp_sent.splits option.splits prod.splits)

text \<open>The part of a session that its rounds leave alone.\<close>

definition se_view :: "session \<Rightarrow> string \<times> string \<times> bool \<times> bool \<times> bool" where
  "se_view s = (se_id s, se_user s, se_acc_up s, se_acc_down s, se_returned s)"

lemma entry_ok_view: "se_view s = se_view s' \<Longrightarrow> entry_ok m s = entry_ok m s'"
  by (simp add: entry_ok_def se_view_def)

lemma table_ok_view:
  assumes "table_ok ss m mt" "i < length ss" "se_view s = se_view (ss ! i)" "mt_activeCount mt' = mt_activeCount mt"
  shows "table_ok (ss[i := s]) m mt'"
proof (rule table_ok_update [OF assms(1,2)])
  show "se_id s = se_id (ss ! i)" using assms(3) by (simp add: se_view_def)
  show "entry_ok m s" using entry_ok_view [OF assms(3)] table_ok_entry [OF assms(1,2)] by simp
  have "running (ss[i := s]) = running ss" using running_update [OF assms(2), of s] assms(3) by (simp add: se_view_def split: if_splits)
  then show "mt_activeCount mt' = int64 (int (running (ss[i := s])))" using assms(1,4) by (simp add: table_ok_def)
qed (simp_all add: table_ok_nil [OF assms(1)])

lemma table_ok_begin:
  assumes "table_ok ss m mt" "sid \<notin> se_id ` set ss" "dual_begin sid user now c1 c2 (mt, m) = (mt', m')"
  shows "table_ok (ss @ [new_session sid user limited metered c1 c2]) m' mt'"
proof -
  have "entry_ok m' s" if "s \<in> set ss" for s
  proof -
    have "map_of m' (se_id s) = map_of m (se_id s)"
      using assms(2,3) that by (auto simp: dual_begin_def AList.update_conv' split: if_splits)
    moreover have "entry_ok m s" using assms(1) that by (simp add: table_ok_def)
    ultimately show ?thesis by (simp add: entry_ok_def)
  qed
  moreover have "entry_ok m' (new_session sid user limited metered c1 c2)"
    using assms(3) by (auto simp: entry_ok_def new_session_def dual_begin_def AList.update_conv' split: if_splits)
  moreover have "k \<noteq> [] \<and> (k = sid \<or> k \<in> se_id ` set ss)" if "map_of m' k \<noteq> None" for k
  proof -
    have "k = sid \<and> sid \<noteq> [] \<or> map_of m k \<noteq> None" using assms(3) that by (auto simp: dual_begin_def AList.update_conv' split: if_splits)
    with assms(1) show ?thesis unfolding table_ok_def by blast
  qed
  moreover have "mt_activeCount mt' = int64 (int (running ss) + 1)"
    using assms(1,3) by (auto simp: table_ok_def dual_begin_def IncActiveSessions_def Let_def)
  ultimately show ?thesis using assms(1,2) by (auto simp: table_ok_def new_session_def running_def add.commute)
qed

lemma table_ok_return:
  assumes "table_ok ss m mt" "i < length ss" "\<not> se_returned (ss ! i)" "dual_end (se_id (ss ! i)) (mt, m) = (mt', m')"
    and "se_id s = se_id (ss ! i)" "se_returned s"
  shows "table_ok (ss[i := s]) m' mt'"
proof (rule table_ok_update [OF assms(1,2,5)])
  show "map_of m' k = map_of m k" if "k \<noteq> se_id (ss ! i)" for k
    using assms(4) that by (auto simp: dual_end_def delete_conv' split: if_splits)
  show "map_of m' [] = None" using assms(4) table_ok_nil [OF assms(1)] by (auto simp: dual_end_def delete_conv' split: if_splits)
  show "entry_ok m' s" using assms(4-6) by (auto simp: entry_ok_def dual_end_def delete_conv')
  have "running (ss[i := s]) + 1 = running ss" using running_update [OF assms(2), of s] assms(3,6) by simp
  then have "int (running (ss[i := s])) = int (running ss) - 1" by linarith
  moreover have "int64 (int64 x - 1) = int64 (x - 1)" for x using int64_add_left [of x "-1"] by simp
  ultimately show "mt_activeCount mt' = int64 (int (running (ss[i := s])))"
    using assms(1,4) by (auto simp: table_ok_def dual_end_def DecActiveSessions_def Let_def)
qed

lemma table_ok_account:
  assumes "table_ok ss m mt" "i < length ss" "se_id s = se_id (ss ! i)" "se_user s = se_user (ss ! i)"
    and "se_returned s = se_returned (ss ! i)" "se_acc_up s \<or> se_acc_down s"
  shows "table_ok (ss[i := s]) (relay_account (se_id (ss ! i)) t m) mt"
proof (rule table_ok_update [OF assms(1-3)])
  show "map_of (relay_account (se_id (ss ! i)) t m) k = map_of m k" if "k \<noteq> se_id (ss ! i)" for k
    using that by (auto simp: relay_account_def AList.update_conv' split: option.splits)
  show "map_of (relay_account (se_id (ss ! i)) t m) [] = None"
    using table_ok_nil [OF assms(1)] by (auto simp: relay_account_def AList.update_conv' split: option.splits)
  show "entry_ok (relay_account (se_id (ss ! i)) t m) s"
    using table_ok_entry [OF assms(1,2)] assms(3-6)
    by (auto simp: entry_ok_def relay_account_def AList.update_conv' split: option.splits if_splits)
  have "running (ss[i := s]) = running ss" using running_update [OF assms(2), of s] assms(5) by (simp split: if_splits)
  then show "mt_activeCount mt = int64 (int (running (ss[i := s])))" using assms(1) by (simp add: table_ok_def)
qed

lemma table_ok_step:
  assumes "world_step waitN True w w'" "table_ok (wo_sessions w) (wo_table w) (wo_metrics w)"
  shows "table_ok (wo_sessions w') (wo_table w') (wo_metrics w')"
  using assms(1)
proof (cases rule: world_step.cases)
  case (Begin sid c1 c2 user now limited metered)
  obtain mt m where "dual_begin sid user now c1 c2 (wo_metrics w, wo_table w) = (mt, m)" by (metis prod.exhaust)
  with table_ok_begin [OF assms(2) _ this, of limited metered] Begin show ?thesis by (simp add: session_begin_def)
next
  case (Round i up lim)
  let ?s = "wo_sessions w ! i"
  define env where "env = \<lparr>re_quota = (if se_metered ?s then Some (wo_quota w) else None), re_limiter = lim, re_cancelled = se_cancelled ?s,
            re_metrics = wo_metrics w, re_errors = wo_errors w\<rparr>"
  obtain e src dst tot env' where r: "relay_round waitN (se_user ?s) up (if up then se_c1 ?s else se_c2 ?s) (if up then se_c2 ?s else se_c1 ?s)
      (if up then se_total_up ?s else se_total_down ?s) env = (e, src, dst, tot, env')" by (metis prod.exhaust)
  have m: "mt_activeCount (re_metrics env') = mt_activeCount (wo_metrics w)" using relay_round_count [OF r] by (simp add: env_def)
  show ?thesis using Round r table_ok_view [OF assms(2) Round(2) _ m]
    by (simp add: session_round_def upd_sess_def Let_def env_def [symmetric] se_view_def)
next
  case (Account i up)
  show ?thesis using Account
    by (auto simp: session_account_def upd_sess_def Let_def intro!: table_ok_account [OF assms(2)])
next
  case (Return i)
  obtain mt m where "dual_end (se_id (wo_sessions w ! i)) (wo_metrics w, wo_table w) = (mt, m)" by (metis prod.exhaust)
  with table_ok_return [OF assms(2) Return(2,3) this] Return(1) show ?thesis by (simp add: session_return_def upd_sess_def)
next
  case (Cancel i)
  then show ?thesis using table_ok_view [OF assms(2) Cancel(2)] by (simp add: upd_sess_def se_view_def)
next
  case (Packet sv en j dat target u m r q m')
  then show ?thesis using assms(2) by (simp add: udp_forwarded_def table_ok_def udp_counts)
next
  case (Reply svc now rd j m r m')
  then show ?thesis using assms(2) by (simp add: udp_replied_def table_ok_def udp_counts)
qed

lemma table_ok_reach: "(world_step waitN True)\<^sup>*\<^sup>* (world0 q) w \<Longrightarrow> table_ok (wo_sessions w) (wo_table w) (wo_metrics w)"
proof (induction rule: rtranclp_induct)
  case base
  show ?case by (simp add: world0_def metrics0_def table_ok_def running_def)
qed (rule table_ok_step)

section \<open>The quota of all sessions of a user\<close>

definition delivered :: "session \<Rightarrow> nat" where
  "delivered s = length (outq (se_c1 s)) + length (outq (se_c2 s)) - se_base s"

definition user_bytes :: "string \<Rightarrow> session list \<Rightarrow> nat" where
  "user_bytes u ss = sum_list (map (\<lambda>s. if se_metered s \<and> se_user s = u then delivered s else 0) ss)"

lemma sum_list_upd_le:
  fixes f :: "'a \<Rightarrow> nat"
  shows "i < length xs \<Longrightarrow> f y \<le> f (xs ! i) + d \<Longrightarrow> sum_list (map f (xs[i := y])) \<le> sum_list (map f xs) + d"
proof (induction xs arbitrary: i)
  case (Cons x xs)
  show ?case
  proof (cases i)
    case 0
    with Cons.prems show ?thesis by simp
  next
    case (Suc j)
    with Cons.IH [of j] Cons.prems show ?thesis by simp
  qed
qed simp

text \<open>The quota after charging \<open>n\<close> bytes.\<close>

definition charged :: "session \<Rightarrow> nat \<Rightarrow> QuotaManager \<Rightarrow> QuotaManager" where
  "charged s n q = (if se_metered s \<and> se_user s \<noteq> [] \<and> 0 < n then snd (AddUsage (se_user s) (int n) q) else q)"

lemma closed_round:
  assumes "is_closed src" "relay_round waitN user up src dst tot env = (e, src', dst', tot', env')"
  shows "src' = src \<and> dst' = dst \<and> re_quota env' = re_quota env"
proof -
  have "conn_read src BufferSize = (([], Some ErrClosed), src)" using assms(1) by (simp add: conn_read_def)
  with assms(2) show ?thesis by (auto simp: relay_round_def limited_read_def log_error_def Let_def split: if_splits)
qed

lemma round_charge:
  assumes "relay_round waitN (se_user s) up src dst tot env = (e, src', dst', tot', env')" "re_quota env = (if se_metered s then Some q else None)"
  shows "\<exists>n d. length (arriving (inq src)) = n + length (arriving (inq src')) \<and> length (outq dst') = length (outq dst) + d \<and> outq src' = outq src
    \<and> d \<le> n \<and> (case re_quota env' of Some q' \<Rightarrow> q' | None \<Rightarrow> q) = charged s n q
    \<and> (se_metered s \<and> se_user s \<noteq> [] \<and> 0 < d \<longrightarrow> \<not> fst (AddUsage (se_user s) (int n) q))"
proof (cases "is_closed src")
  case True
  with closed_round [OF True assms(1)] assms(2) show ?thesis by (intro exI [of _ 0]) (auto simp: charged_def)
next
  case False
  from relay_round_spec [OF assms(1) False] obtain bs k where r: "arriving (inq src) = bs @ arriving (inq src')" "outq dst' = outq dst @ take k bs"
      "outq src' = outq src" "re_quota env' = (if bs = [] then re_quota env else re_quota (snd (charge (se_user s) (length bs) env)))"
      "take k bs \<noteq> [] \<longrightarrow> \<not> fst (charge (se_user s) (length bs) env)" by blast
  have q: "(case re_quota env' of Some q' \<Rightarrow> q' | None \<Rightarrow> q) = charged s (length bs) q"
    using r(4) assms(2) by (auto simp: charged_def charge_def split: option.splits prod.splits if_splits)
  have f: "\<not> fst (AddUsage (se_user s) (int (length bs)) q)" if "se_metered s" "se_user s \<noteq> []" "0 < length (take k bs)"
    using r(5) that assms(2) by (auto simp: charge_def split: option.splits prod.splits)
  show ?thesis
    by (intro exI [of _ "length bs"] exI [of _ "length (take k bs)"]) (use r q f in auto)
qed

lemma round_effect:
  assumes "i < length (wo_sessions w)"
  shows "\<exists>s' n d. let s = wo_sessions w ! i; w' = session_round waitN up lim i w in
    wo_sessions w' = (wo_sessions w)[i := s'] \<and> se_metered s' = se_metered s \<and> se_user s' = se_user s
    \<and> delivered s' \<le> delivered s + d \<and> d \<le> n \<and> wo_read w' = wo_read w + n \<and> wo_quota w' = charged s n (wo_quota w) \<and> wo_udp w' = wo_udp w
    \<and> (se_metered s \<and> se_user s \<noteq> [] \<and> 0 < d \<longrightarrow> \<not> fst (AddUsage (se_user s) (int n) (wo_quota w)))"
proof -
  let ?s = "wo_sessions w ! i"
  define env where "env = \<lparr>re_quota = (if se_metered ?s then Some (wo_quota w) else None), re_limiter = lim, re_cancelled = se_cancelled ?s,
            re_metrics = wo_metrics w, re_errors = wo_errors w\<rparr>"
  obtain e src dst tot env' where r: "relay_round waitN (se_user ?s) up (if up then se_c1 ?s else se_c2 ?s) (if up then se_c2 ?s else se_c1 ?s)
      (if up then se_total_up ?s else se_total_down ?s) env = (e, src, dst, tot, env')" by (metis prod.exhaust)
  have "re_quota env = (if se_metered ?s then Some (wo_quota w) else None)" by (simp add: env_def)
  from round_charge [OF r this] obtain n d where
    c: "length (arriving (inq (if up then se_c1 ?s else se_c2 ?s))) = n + length (arriving (inq src))"
       "length (outq dst) = length (outq (if up then se_c2 ?s else se_c1 ?s)) + d" "outq src = outq (if up then se_c1 ?s else se_c2 ?s)" "d \<le> n"
       "(case re_quota env' of Some q' \<Rightarrow> q' | None \<Rightarrow> wo_quota w) = charged ?s n (wo_quota w)"
       "se_metered ?s \<and> se_user ?s \<noteq> [] \<and> 0 < d \<longrightarrow> \<not> fst (AddUsage (se_user ?s) (int n) (wo_quota w))" by blast
  let ?s' = "if up then ?s\<lparr>se_c1 := src, se_c2 := dst, se_up := e, se_total_up := tot\<rparr> else ?s\<lparr>se_c2 := src, se_c1 := dst, se_down := e, se_total_down := tot\<rparr>"
  have d: "delivered ?s' \<le> delivered ?s + d" using c(2,3) by (cases up) (simp_all add: delivered_def)
  show ?thesis
    by (intro exI [of _ ?s'] exI [of _ n] exI [of _ d], cases up)
      (use c r d in \<open>simp_all add: session_round_def upd_sess_def Let_def env_def [symmetric]\<close>)
qed

definition udp_bytes :: "string \<Rightarrow> (string \<times> nat) list \<Rightarrow> nat" where
  "udp_bytes u ps = sum_list (map (\<lambda>(v, n). if v = u then n else 0) ps)"

lemma ForwardPacket_quota:
  assumes "ForwardPacket sv en j dat target u (Some q) m = (r, Some q', m')"
  shows "q' = (if u = [] then q else snd (AddUsage u (int (length dat)) q))
    \<and> (u \<noteq> [] \<and> was_sent r \<longrightarrow> \<not> fst (AddUsage u (int (length dat)) q))"
  using assms by (auto simp: ForwardPacket_def quota_check_def was_sent_def split: prod.splits bool.splits sum.splits conn_fail.splits if_splits)

definition quota_ok :: "string \<Rightarrow> int \<Rightarrow> world \<Rightarrow> bool" where
  "quota_ok u limit w \<longleftrightarrow> (\<exists>used. GetStatus u (wo_quota w) = (used, limit) \<and> 0 \<le> used \<and> used \<le> int (wo_read w)
     \<and> int (user_bytes u (wo_sessions w) + udp_bytes u (wo_udp w)) \<le> min used limit)"

text \<open>A charge of \<open>n\<close> bytes to the user, of which \<open>d\<close> go on when it is accepted.\<close>

lemma quota_ok_charge:
  assumes "quota_ok u limit w" "u \<noteq> []" "0 < limit" "wo_read w' < 2 ^ 62" "wo_read w' = wo_read w + n"
    and "wo_quota w' = snd (AddUsage u (int n) (wo_quota w))" "0 < d \<longrightarrow> \<not> fst (AddUsage u (int n) (wo_quota w))" "d \<le> n"
    and "user_bytes u (wo_sessions w') + udp_bytes u (wo_udp w') \<le> user_bytes u (wo_sessions w) + udp_bytes u (wo_udp w) + d"
  shows "quota_ok u limit w'"
proof -
  obtain used where q: "GetStatus u (wo_quota w) = (used, limit)" "0 \<le> used" "used \<le> int (wo_read w)"
      "int (user_bytes u (wo_sessions w) + udp_bytes u (wo_udp w)) \<le> min used limit" using assms(1) by (auto simp: quota_ok_def)
  have g: "get0 (qm_used (wo_quota w)) u = used" "get0 (qm_limits (wo_quota w)) u = limit" using q(1) by (simp_all add: GetStatus_def)
  have i: "int64 (used + int n) = used + int n" using q(2,3) assms(4,5) by (intro int64_id) (simp add: in_int64_def)
  have "GetStatus u (wo_quota w') = (used + int n, limit)" using assms(6) g i by simp
  moreover have "0 < d \<longrightarrow> used + int n \<le> limit" using assms(3,7) g i by (auto simp: AddUsage_def Let_def)
  then have "int (user_bytes u (wo_sessions w') + udp_bytes u (wo_udp w')) \<le> min (used + int n) limit"
    using assms(8,9) q(4) by (cases "d = 0") auto
  ultimately show ?thesis using q(2,3) assms(5) by (auto simp: quota_ok_def)
qed

text \<open>Other steps deliver nothing for the user and charge the user nothing.\<close>

lemma quota_ok_frame:
  assumes "quota_ok u limit w" "GetStatus u (wo_quota w') = GetStatus u (wo_quota w)" "wo_read w \<le> wo_read w'"
    and "user_bytes u (wo_sessions w') \<le> user_bytes u (wo_sessions w)" "udp_bytes u (wo_udp w') \<le> udp_bytes u (wo_udp w)"
  shows "quota_ok u limit w'"
  using assms by (auto simp: quota_ok_def)

lemma user_bytes_update:
  assumes "i < length ss" "se_metered s = se_metered (ss ! i)" "se_user s = se_user (ss ! i)" "delivered s \<le> delivered (ss ! i) + d"
  shows "user_bytes u (ss[i := s]) \<le> user_bytes u ss + (if se_metered (ss ! i) \<and> se_user (ss ! i) = u then d else 0)"
  unfolding user_bytes_def by (rule sum_list_upd_le) (use assms in auto)

lemma quota_ok_round:
  assumes "quota_ok u limit w" "u \<noteq> []" "0 < limit" "i < length (wo_sessions w)" "wo_read (session_round waitN up lim i w) < 2 ^ 62"
  shows "quota_ok u limit (session_round waitN up lim i w)"
proof -
  let ?s = "wo_sessions w ! i" and ?w = "session_round waitN up lim i w"
  obtain s' n d where r: "wo_sessions ?w = (wo_sessions w)[i := s']" "se_metered s' = se_metered ?s" "se_user s' = se_user ?s"
      "delivered s' \<le> delivered ?s + d" "d \<le> n" "wo_read ?w = wo_read w + n" "wo_quota ?w = charged ?s n (wo_quota w)" "wo_udp ?w = wo_udp w"
      "se_metered ?s \<and> se_user ?s \<noteq> [] \<and> 0 < d \<longrightarrow> \<not> fst (AddUsage (se_user ?s) (int n) (wo_quota w))"
    using round_effect [OF assms(4), of waitN up lim] unfolding Let_def by blast
  have b: "user_bytes u (wo_sessions ?w) \<le> user_bytes u (wo_sessions w) + (if se_metered ?s \<and> se_user ?s = u then d else 0)"
    using user_bytes_update [OF assms(4) r(2-4)] r(1) by simp
  show ?thesis
  proof (cases "se_metered ?s \<and> se_user ?s = u \<and> 0 < n")
    case True
    show ?thesis by (rule quota_ok_charge [OF assms(1-3,5) r(6) _ _ r(5)]) (use True r b assms(2) in \<open>auto simp: charged_def\<close>)
  next
    case False
    show ?thesis by (rule quota_ok_frame [OF assms(1)]) (use False r b in \<open>auto simp: charged_def split: if_splits\<close>)
  qed
qed

lemma quota_ok_packet:
  assumes "quota_ok u limit w" "u \<noteq> []" "0 < limit" "wo_read (udp_forwarded v (length dat) r q w) < 2 ^ 62"
    and "ForwardPacket sv en j dat target v (Some (wo_quota w)) m = (r, Some q, m')"
  shows "quota_ok u limit (udp_forwarded v (length dat) r q w)"
proof (cases "v = u")
  case True
  show ?thesis
    by (rule quota_ok_charge [OF assms(1-4), where n = "length dat" and d = "if was_sent r then length dat else 0"])
      (use True assms(2) ForwardPacket_quota [OF assms(5)] in \<open>auto simp: udp_forwarded_def udp_bytes_def\<close>)
next
  case False
  show ?thesis
    by (rule quota_ok_frame [OF assms(1)]) (use False ForwardPacket_quota [OF assms(5)] in \<open>auto simp: udp_forwarded_def udp_bytes_def\<close>)
qed

lemma quota_ok_step:
  assumes "world_step waitN uniq w w'" "quota_ok u limit w" "u \<noteq> []" "0 < limit" "wo_read w' < 2 ^ 62"
  shows "quota_ok u limit w'"
  using assms(1)
proof (cases rule: world_step.cases)
  case (Begin sid c1 c2 user now limited metered)
  show ?thesis by (rule quota_ok_frame [OF assms(2)])
      (simp_all add: Begin(1) session_begin_def user_bytes_def new_session_def delivered_def split: prod.splits)
next
  case (Round i up lim)
  then show ?thesis using quota_ok_round [OF assms(2-4) Round(2)] assms(5) by simp
next
  case (Account i up)
  show ?thesis by (rule quota_ok_frame [OF assms(2)])
      (use user_bytes_update [OF Account(2), of _ 0 u] in \<open>auto simp: Account(1) session_account_def upd_sess_def delivered_def Let_def split: if_splits\<close>)
next
  case (Return i)
  show ?thesis by (rule quota_ok_frame [OF assms(2)])
      (use user_bytes_update [OF Return(2), of _ 0 u] in \<open>auto simp: Return(1) session_return_def upd_sess_def delivered_def conn_close_def split: prod.splits if_splits\<close>)
next
  case (Cancel i)
  show ?thesis by (rule quota_ok_frame [OF assms(2)])
      (use user_bytes_update [OF Cancel(2), of _ 0 u] in \<open>auto simp: Cancel(1) upd_sess_def delivered_def split: if_splits\<close>)
next
  case (Packet sv en j dat target v m r q m')
  show ?thesis using quota_ok_packet [OF assms(2-4) _ Packet(2)] assms(5) Packet(1) by simp
next
  case (Reply svc now rd j m r m')
  show ?thesis by (rule quota_ok_frame [OF assms(2)]) (simp_all add: Reply(1) udp_replied_def)
qed

lemma read_grows: "world_step waitN uniq w w' \<Longrightarrow> wo_read w \<le> wo_read w'"
  by (induction rule: world_step.induct)
    (auto simp: session_begin_def session_round_def session_account_def session_return_def upd_sess_def udp_forwarded_def udp_replied_def Let_def
      split: prod.splits)

lemma quota_ok_reach:
  assumes "(world_step waitN uniq)\<^sup>*\<^sup>* (world0 q) w" "u \<noteq> []" "0 < limit" "GetStatus u q = (0, limit)" "wo_read w < 2 ^ 62"
  shows "quota_ok u limit w"
  using assms(1,5)
proof (induction rule: rtranclp_induct)
  case base
  show ?case using assms(3,4) by (simp add: quota_ok_def world0_def user_bytes_def udp_bytes_def)
next
  case (step w w')
  then show ?case using quota_ok_step [OF step.hyps(2) _ assms(2,3) step.prems] read_grows [OF step.hyps(2)] by simp
qed

section \<open>Properties\<close>

text \<open>
  C13: A user cannot exceed the quota by opening many sessions or by changing to UDP. Whatever
  sessions run, of whatever users, in every interleaving of their rounds, returns and kicks with the
  UDP packets of all users, from a fresh counter of the user with a positive limit, the bytes that
  all metered sessions of the user have delivered in both directions and those of the user's UDP
  packets sent on are together at most the limit (with fewer than $2^{62}$ bytes read in all).
\<close>

theorem quota_across_sessions:
  assumes "(world_step waitN uniq)\<^sup>*\<^sup>* (world0 q) w" "u \<noteq> []" "0 < limit" "GetStatus u q = (0, limit)" "wo_read w < 2 ^ 62"
  shows "int (user_bytes u (wo_sessions w) + udp_bytes u (wo_udp w)) \<le> limit"
  using quota_ok_reach [OF assms] by (auto simp: quota_ok_def)


text \<open>
  The table never shows the bytes of a running session. They are added when a loop returns, and the
  session is removed right after: until one of its loops has ended, an entry shows zero bytes,
  however much the session has transferred.
\<close>

theorem session_bytes_hidden:
  assumes "(world_step waitN True)\<^sup>*\<^sup>* (world0 q) w" "s \<in> set (wo_sessions w)" "se_id s \<noteq> []" "\<not> se_returned s"
    and "\<not> se_acc_up s" "\<not> se_acc_down s"
  shows "\<exists>info. map_of (wo_table w) (se_id s) = Some info \<and> si_BytesSent info = 0"
  using table_ok_reach [OF assms(1)] assms(2-6) by (force simp: table_ok_def entry_ok_def)

text \<open>
  Two sessions with the same id hide each other. The egress takes the id from the header it is sent;
  when two tunnels name the same one, the first to return removes the entry, and the other one
  runs on where no administrator can list or kick it.
\<close>

theorem same_id_hides_session:
  assumes "i < length (wo_sessions w)" "j < length (wo_sessions w)" "i \<noteq> j" "se_id (wo_sessions w ! i) = sid" "se_id (wo_sessions w ! j) = sid" "sid \<noteq> []"
    and "\<not> se_returned (wo_sessions w ! i)" "\<not> se_returned (wo_sessions w ! j)" "se_acc_up (wo_sessions w ! i) \<or> se_acc_down (wo_sessions w ! i)"
  shows "world_step waitN False w (session_return i w) \<and> map_of (wo_table (session_return i w)) sid = None
    \<and> wo_sessions (session_return i w) ! j = wo_sessions w ! j"
proof (intro conjI)
  show "world_step waitN False w (session_return i w)" by (rule world_step.Return [OF assms(1,7,9)])
  show "map_of (wo_table (session_return i w)) sid = None" "wo_sessions (session_return i w) ! j = wo_sessions w ! j"
    using assms(3-6) by (simp_all add: session_return_def dual_end_def upd_sess_def delete_conv')
qed

text \<open>A user with a limit of two bytes and a first session of one round.\<close>

definition demo_world :: world where
  "demo_world = session_begin ''s1'' ''ann'' 0 False True (peer_sends [1, 2, 3]) (peer_sends [9]) (world0 (SetLimit ''ann'' 2 NewQuotaManager))"

lemma demo_world_simps:
  "length (wo_sessions demo_world) = 1" "se_up (wo_sessions demo_world ! 0) = None" "\<not> se_limited (wo_sessions demo_world ! 0)"
  "se_id (wo_sessions demo_world ! 0) = ''s1''" "wo_read demo_world = 0" "se_c1 (wo_sessions demo_world ! 0) = peer_sends [1, 2, 3]"
  by (simp_all add: demo_world_def session_begin_def world0_def new_session_def dual_begin_def)

lemma demo_world_reach:
  "(world_step demo_wait True)\<^sup>*\<^sup>* (world0 (SetLimit ''ann'' 2 NewQuotaManager)) (session_round demo_wait True None 0 demo_world)"
proof -
  have 1: "world_step demo_wait True (world0 (SetLimit ''ann'' 2 NewQuotaManager)) demo_world"
    unfolding demo_world_def by (rule world_step.Begin) (simp_all add: world0_def demo_closed)
  have 2: "world_step demo_wait True demo_world (session_round demo_wait True None 0 demo_world)"
    by (rule world_step.Round) (simp_all add: demo_world_simps)
  from 1 2 show ?thesis by (meson r_into_rtranclp rtranclp.rtrancl_into_rtrancl)
qed

lemma demo_world_read: "wo_read (session_round demo_wait True None 0 demo_world) < 2 ^ 62"
proof -
  have "wo_read (session_round demo_wait True None 0 demo_world) \<le> 3"
    by (auto simp: session_round_def upd_sess_def Let_def demo_world_simps demo_closed split: prod.splits)
  then show ?thesis by simp
qed

theorem quota_across_sessions_witness:
  "user_bytes ''ann'' (wo_sessions (session_round demo_wait True None 0 demo_world))
   + udp_bytes ''ann'' (wo_udp (session_round demo_wait True None 0 demo_world)) \<le> 2"
  using quota_across_sessions [OF demo_world_reach _ _ _ demo_world_read, of "''ann''" 2]
  by (simp add: NewQuotaManager_def get0_def)

lemma demo_world_length: "length (wo_sessions (session_round demo_wait True None 0 demo_world)) = 1"
  by (simp add: session_round_def upd_sess_def Let_def demo_world_simps split: prod.splits)

lemma demo_world_view: "se_view (wo_sessions (session_round demo_wait True None 0 demo_world) ! 0) = (''s1'', ''ann'', False, False, False)"
  by (simp add: session_round_def upd_sess_def Let_def demo_world_def session_begin_def world0_def new_session_def dual_begin_def se_view_def split: prod.splits)


theorem session_bytes_hidden_witness:
  "\<exists>info. map_of (wo_table (session_round demo_wait True None 0 demo_world)) ''s1'' = Some info \<and> si_BytesSent info = 0"
proof -
  let ?w = "session_round demo_wait True None 0 demo_world"
  obtain s where s: "wo_sessions ?w = [s]" using demo_world_length by (auto simp: length_Suc_conv)
  have v: "se_id s = ''s1''" "\<not> se_returned s" "\<not> se_acc_up s" "\<not> se_acc_down s" using demo_world_view by (simp_all add: s se_view_def)
  show ?thesis using session_bytes_hidden [OF demo_world_reach, of s] by (simp add: s v)
qed

text \<open>Two tunnels with the same id, one of which has reported.\<close>

definition demo_twins :: world where
  "demo_twins = upd_sess 0 (\<lambda>s. s\<lparr>se_acc_up := True\<rparr>) (session_begin ''s1'' ''relay-system'' 0 False False (peer_sends []) (peer_sends [])
     (session_begin ''s1'' ''relay-system'' 0 False False (peer_sends [4]) (peer_sends []) (world0 NewQuotaManager)))"

lemma demo_twins_simps:
  "0 < length (wo_sessions demo_twins)" "1 < length (wo_sessions demo_twins)" "se_id (wo_sessions demo_twins ! 0) = ''s1''"
  "se_id (wo_sessions demo_twins ! 1) = ''s1''" "\<not> se_returned (wo_sessions demo_twins ! 0)" "\<not> se_returned (wo_sessions demo_twins ! 1)"
  "se_acc_up (wo_sessions demo_twins ! 0)"
  by (simp_all add: demo_twins_def upd_sess_def session_begin_def world0_def new_session_def dual_begin_def)

theorem same_id_hides_session_witness:
  "map_of (wo_table (session_return 0 demo_twins)) ''s1'' = None \<and> wo_sessions (session_return 0 demo_twins) ! 1 = wo_sessions demo_twins ! 1"
  using same_id_hides_session [where waitN = demo_wait, OF demo_twins_simps(1,2) _ demo_twins_simps(3,4) _ demo_twins_simps(5,6) disjI1 [OF demo_twins_simps(7)]] by simp

end
