(* ===== verification/Session_Flow.thy ===== *)
theory Session_Flow
  imports Sessions
begin

text \<open>
  What all sessions of the process together do for each of them: the bytes of a session are
  its own (\<open>flow_ok\<close>), every session comes to an end (\<open>work\<close>), and the counters of the process add up
  what the sessions have read (\<open>counters_ok\<close>). All are statements on the runs of \<open>world_step\<close>.
\<close>

section \<open>Transparency\<close>

definition flow_ok :: "bytes \<Rightarrow> bytes \<Rightarrow> session \<Rightarrow> bool" where
  "flow_ok w12 w21 s \<longleftrightarrow> flow_inv w12 (se_up s) (outq (se_c2 s)) (arriving (inq (se_c1 s)))
     \<and> flow_inv w21 (se_down s) (outq (se_c1 s)) (arriving (inq (se_c2 s)))"

lemma flow_inv_ended: "flow_inv w12 st got rest \<Longrightarrow> flow_inv w12 (Some e) got rest'"
  by (auto simp: flow_inv_def)

text \<open>A round moves bytes from the front of what arrives to the end of what was delivered, and touches no other queue.\<close>

lemma round_flow:
  assumes "relay_round waitN user up src dst tot env = (e, src', dst', tot', env')" "flow_inv w12 None (outq dst) (arriving (inq src))"
  shows "flow_inv w12 e (outq dst') (arriving (inq src')) \<and> outq src' = outq src \<and> inq dst' = inq dst"
proof (cases "is_closed src")
  case True
  have "e \<noteq> None" using True assms(1) relay_round_shrinks [of waitN user up src dst tot env src' dst' tot' env'] closed_round [OF True assms(1)] by auto
  then show ?thesis using closed_round [OF True assms(1)] assms(2) flow_inv_ended by auto
next
  case False
  then obtain bs k where r: "arriving (inq src) = bs @ arriving (inq src')" "outq dst' = outq dst @ take k bs"
      "e = None \<longrightarrow> take k bs = bs" "outq src' = outq src" "inq dst' = inq dst" using relay_round_spec [OF assms(1)] by blast
  then show ?thesis using assms(2) flow_inv_round [of w12 "outq dst" bs "arriving (inq src')" e k] by simp
qed

text \<open>One round as a relation of the session and the counters before and after it.\<close>

definition round_sess :: "'l waiter \<Rightarrow> bool \<Rightarrow> metrics \<Rightarrow> metrics \<Rightarrow> session \<Rightarrow> session \<Rightarrow> bool" where
  "round_sess waitN up mt mt' s s' \<longleftrightarrow> (\<exists>env e src dst tot env'.
     relay_round waitN (se_user s) up (if up then se_c1 s else se_c2 s) (if up then se_c2 s else se_c1 s)
       (if up then se_total_up s else se_total_down s) env = (e, src, dst, tot, env')
     \<and> re_metrics env = mt \<and> re_metrics env' = mt'
     \<and> s' = (if up then s\<lparr>se_c1 := src, se_c2 := dst, se_up := e, se_total_up := tot\<rparr>
            else s\<lparr>se_c2 := src, se_c1 := dst, se_down := e, se_total_down := tot\<rparr>))"

lemma session_round_sess:
  obtains s' where "wo_sessions (session_round waitN up lim i w) = (wo_sessions w)[i := s']"
    "round_sess waitN up (wo_metrics w) (wo_metrics (session_round waitN up lim i w)) (wo_sessions w ! i) s'"
proof -
  let ?s = "wo_sessions w ! i"
  define env where "env = \<lparr>re_quota = (if se_metered ?s then Some (wo_quota w) else None), re_limiter = lim, re_cancelled = se_cancelled ?s,
            re_metrics = wo_metrics w, re_errors = wo_errors w\<rparr>"
  obtain e src dst tot env' where r: "relay_round waitN (se_user ?s) up (if up then se_c1 ?s else se_c2 ?s) (if up then se_c2 ?s else se_c1 ?s)
      (if up then se_total_up ?s else se_total_down ?s) env = (e, src, dst, tot, env')" by (metis prod.exhaust)
  let ?s' = "if up then ?s\<lparr>se_c1 := src, se_c2 := dst, se_up := e, se_total_up := tot\<rparr> else ?s\<lparr>se_c2 := src, se_c1 := dst, se_down := e, se_total_down := tot\<rparr>"
  have m: "wo_metrics (session_round waitN up lim i w) = re_metrics env'"
    using r by (simp add: session_round_def upd_sess_def Let_def env_def [symmetric])
  have "round_sess waitN up (wo_metrics w) (re_metrics env') ?s ?s'" unfolding round_sess_def
    by (intro exI [of _ env] exI [of _ e] exI [of _ src] exI [of _ dst] exI [of _ tot] exI [of _ env']) (use r in \<open>simp add: env_def\<close>)
  then show ?thesis
    by (intro that [of ?s']) (use r m in \<open>simp_all add: session_round_def upd_sess_def Let_def env_def [symmetric]\<close>)
qed

lemma flow_ok_round:
  "round_sess waitN up mt mt' s s' \<Longrightarrow> (if up then se_up else se_down) s = None \<Longrightarrow> flow_ok w12 w21 s \<Longrightarrow> flow_ok w12 w21 s'"
proof -
  assume "round_sess waitN up mt mt' s s'" and run: "(if up then se_up else se_down) s = None" and ok: "flow_ok w12 w21 s"
  then obtain env e src dst tot env' where
    r: "relay_round waitN (se_user s) up (if up then se_c1 s else se_c2 s) (if up then se_c2 s else se_c1 s)
          (if up then se_total_up s else se_total_down s) env = (e, src, dst, tot, env')"
    and s': "s' = (if up then s\<lparr>se_c1 := src, se_c2 := dst, se_up := e, se_total_up := tot\<rparr>
          else s\<lparr>se_c2 := src, se_c1 := dst, se_down := e, se_total_down := tot\<rparr>)" unfolding round_sess_def by blast
  have "flow_inv (if up then w12 else w21) None (outq (if up then se_c2 s else se_c1 s)) (arriving (inq (if up then se_c1 s else se_c2 s)))"
    using ok run by (auto simp: flow_ok_def)
  with round_flow [OF r] ok show "flow_ok w12 w21 s'" unfolding s' by (cases up) (simp_all add: flow_ok_def)
qed

text \<open>What a step does to the session \<open>i\<close>: nothing, a round, or one of the operations on its flags and connections.\<close>

lemma step_session:
  assumes "world_step waitN uniq w w'" "i < length (wo_sessions w)"
  obtains (same) "wo_sessions w' ! i = wo_sessions w ! i"
  | (rnd) up where "round_sess waitN up (wo_metrics w) (wo_metrics w') (wo_sessions w ! i) (wo_sessions w' ! i)"
      "(if up then se_up else se_down) (wo_sessions w ! i) = None"
  | (account) up where "wo_sessions w' ! i = (if up then (wo_sessions w ! i)\<lparr>se_acc_up := True\<rparr> else (wo_sessions w ! i)\<lparr>se_acc_down := True\<rparr>)"
      "(if up then se_up else se_down) (wo_sessions w ! i) \<noteq> None" "\<not> (if up then se_acc_up else se_acc_down) (wo_sessions w ! i)"
  | (return) "wo_sessions w' ! i = (wo_sessions w ! i)\<lparr>se_returned := True, se_cancelled := True,
        se_c1 := conn_close (se_c1 (wo_sessions w ! i)), se_c2 := conn_close (se_c2 (wo_sessions w ! i))\<rparr>" "\<not> se_returned (wo_sessions w ! i)"
  | (cancel) "wo_sessions w' ! i = (wo_sessions w ! i)\<lparr>se_cancelled := True\<rparr>"
  using assms(1)
proof (cases rule: world_step.cases)
  case (Begin sid c1 c2 user now limited metered)
  then show ?thesis using assms(2) same by (simp add: session_begin_def nth_append split: prod.splits)
next
  case (Round j up lim)
  obtain s' where "wo_sessions w' = (wo_sessions w)[j := s']" "round_sess waitN up (wo_metrics w) (wo_metrics w') (wo_sessions w ! j) s'"
    using session_round_sess [of waitN up lim j w] Round(1) by metis
  then show ?thesis using Round(2,3) rnd [of up] same by (cases "i = j") simp_all
next
  case (Account j up)
  show ?thesis
  proof (cases "i = j")
    case True
    show ?thesis by (rule account [of up]) (use Account True in \<open>simp_all add: session_account_def upd_sess_def Let_def\<close>)
  next
    case False
    show ?thesis by (rule same) (use Account False in \<open>simp add: session_account_def upd_sess_def Let_def\<close>)
  qed
next
  case (Return j)
  show ?thesis
  proof (cases "i = j")
    case True
    show ?thesis by (rule return) (use Return True in \<open>simp_all add: session_return_def upd_sess_def split: prod.splits\<close>)
  next
    case False
    show ?thesis by (rule same) (use Return False in \<open>simp add: session_return_def upd_sess_def split: prod.splits\<close>)
  qed
next
  case (Cancel j)
  then show ?thesis using cancel same by (cases "i = j") (simp_all add: upd_sess_def)
next
  case (Packet sv en j dat target u m r q m')
  then show ?thesis using same by (simp add: udp_forwarded_def)
next
  case (Reply svc now rd j m r m')
  then show ?thesis using same by (simp add: udp_replied_def)
qed

lemma step_sessions: "world_step waitN uniq w w' \<Longrightarrow> length (wo_sessions w) \<le> length (wo_sessions w')"
  by (induction rule: world_step.induct)
    (auto simp: session_begin_def session_round_def session_account_def session_return_def upd_sess_def udp_forwarded_def udp_replied_def Let_def
      split: prod.splits)

lemma flow_ok_step:
  assumes "world_step waitN uniq w w'" "i < length (wo_sessions w)" "flow_ok w12 w21 (wo_sessions w ! i)"
  shows "flow_ok w12 w21 (wo_sessions w' ! i)"
  using assms(1,2)
proof (cases rule: step_session)
  case (rnd up)
  then show ?thesis using assms(3) by (rule flow_ok_round)
qed (use assms(3) in \<open>auto simp: flow_ok_def conn_close_def\<close>)

lemma flow_ok_reach:
  assumes "(world_step waitN uniq)\<^sup>*\<^sup>* w w'" "i < length (wo_sessions w)" "flow_ok w12 w21 (wo_sessions w ! i)"
  shows "i < length (wo_sessions w') \<and> flow_ok w12 w21 (wo_sessions w' ! i)"
  using assms(1)
proof (induction rule: rtranclp_induct)
  case (step x y)
  then show ?case using flow_ok_step step_sessions by fastforce
qed (use assms(2,3) in simp)

section \<open>Progress\<close>

text \<open>
  A part of a system whose own steps use up a natural number that no step increases: when it moves
  again and again as long as it can, it comes to a state in which it cannot.
\<close>

locale fair_progress =
  fixes step :: "'w \<Rightarrow> 'w \<Rightarrow> bool" and own :: "'w \<Rightarrow> 'w \<Rightarrow> bool" and inv :: "'w \<Rightarrow> bool" and rank :: "'w \<Rightarrow> nat"
  assumes inv_step: "step w w' \<Longrightarrow> inv w \<Longrightarrow> inv w'"
    and rank_step: "step w w' \<Longrightarrow> inv w \<Longrightarrow> rank w' \<le> rank w"
    and rank_own: "own w w' \<Longrightarrow> inv w \<Longrightarrow> rank w' < rank w"
begin

lemma run_inv:
  assumes "\<And>k. step (r k) (r (Suc k))" "inv (r 0)"
  shows "inv (r k)"
  using assms(2) by (induction k) (auto intro: inv_step [OF assms(1)])

lemma run_rank:
  assumes "\<And>k. step (r k) (r (Suc k))" "inv (r 0)" "k \<le> l"
  shows "rank (r l) \<le> rank (r k)"
  using assms(3) by (rule lift_Suc_antimono_le [rotated]) (rule rank_step [OF assms(1) run_inv [OF assms(1,2)]])

lemma fair_comes_to_rest:
  assumes "\<And>k. step (r k) (r (Suc k))" "inv (r 0)"
    and "\<And>k. (\<exists>w. own (r k) w) \<Longrightarrow> \<exists>l \<ge> k. own (r l) (r (Suc l))"
  shows "\<exists>k. \<nexists>w. own (r k) w"
proof (rule ccontr)
  assume "\<nexists>k. \<nexists>w. own (r k) w"
  then have live: "\<exists>w. own (r k) w" for k by simp
  have False if "rank (r k) = n" for k n
    using that
  proof (induction n arbitrary: k rule: less_induct)
    case (less n)
    obtain l where l: "k \<le> l" "own (r l) (r (Suc l))" using assms(3) live by blast
    have "rank (r (Suc l)) < n"
      using rank_own [OF l(2) run_inv [OF assms(1,2)]] run_rank [OF assms(1,2) l(1)] less.prems by simp
    then show ?case using less.IH by blast
  qed
  then show False by blast
qed

end

text \<open>The steps of the goroutines of the session \<open>i\<close>, and what is left for them to do.\<close>

inductive own_step :: "'l waiter \<Rightarrow> nat \<Rightarrow> world \<Rightarrow> world \<Rightarrow> bool" for waitN i w where
  own_round: "i < length (wo_sessions w) \<Longrightarrow> (if up then se_up else se_down) (wo_sessions w ! i) = None \<Longrightarrow>
     (lim \<noteq> None \<longleftrightarrow> se_limited (wo_sessions w ! i)) \<Longrightarrow> own_step waitN i w (session_round waitN up lim i w)"
| own_account: "i < length (wo_sessions w) \<Longrightarrow> (if up then se_up else se_down) (wo_sessions w ! i) \<noteq> None \<Longrightarrow>
     \<not> (if up then se_acc_up else se_acc_down) (wo_sessions w ! i) \<Longrightarrow> own_step waitN i w (session_account up i w)"
| own_return: "i < length (wo_sessions w) \<Longrightarrow> \<not> se_returned (wo_sessions w ! i) \<Longrightarrow>
     se_acc_up (wo_sessions w ! i) \<or> se_acc_down (wo_sessions w ! i) \<Longrightarrow> own_step waitN i w (session_return i w)"

definition ended :: "session \<Rightarrow> bool" where
  "ended s \<longleftrightarrow> se_up s \<noteq> None \<and> se_down s \<noteq> None \<and> se_acc_up s \<and> se_acc_down s \<and> se_returned s"

definition work :: "session \<Rightarrow> nat" where
  "work s = length (arriving (inq (se_c1 s))) + length (arriving (inq (se_c2 s))) + of_bool (se_up s = None) + of_bool (se_down s = None)
     + of_bool (\<not> se_acc_up s) + of_bool (\<not> se_acc_down s) + of_bool (\<not> se_returned s)"

lemma own_enabled:
  assumes "i < length (wo_sessions w)" "\<not> ended (wo_sessions w ! i)"
  shows "\<exists>w'. own_step waitN i w w'"
proof -
  let ?s = "wo_sessions w ! i" and ?lim = "if se_limited (wo_sessions w ! i) then Some undefined else None"
  consider up where "(if up then se_up else se_down) ?s = None" | up where "(if up then se_up else se_down) ?s \<noteq> None"
      "\<not> (if up then se_acc_up else se_acc_down) ?s" | "\<not> se_returned ?s" "se_acc_up ?s"
    using assms(2) unfolding ended_def by (metis (full_types))
  then show ?thesis
  proof cases
    case 1
    then show ?thesis using own_round [OF assms(1), of _ ?lim waitN] by (metis option.distinct(1))
  next
    case 2
    then show ?thesis using own_account [OF assms(1)] by blast
  next
    case 3
    then show ?thesis using own_return [OF assms(1)] by blast
  qed
qed

lemma round_consumes:
  assumes "relay_round waitN user up src dst tot env = (e, src', dst', tot', env')"
  shows "length (arriving (inq src')) + of_bool (e = None) \<le> length (arriving (inq src)) \<and> inq dst' = inq dst"
proof (cases "is_closed src")
  case True
  then show ?thesis using closed_round [OF True assms] assms relay_round_shrinks [of waitN user up src dst tot env] by (cases e) auto
next
  case False
  then show ?thesis using relay_round_spec [OF assms False] by (cases e) (auto simp: Suc_le_eq)
qed

lemma work_round:
  assumes "round_sess waitN up mt mt' s s'" "(if up then se_up else se_down) s = None"
  shows "work s' < work s"
proof -
  obtain env e src dst tot env' where
    r: "relay_round waitN (se_user s) up (if up then se_c1 s else se_c2 s) (if up then se_c2 s else se_c1 s)
          (if up then se_total_up s else se_total_down s) env = (e, src, dst, tot, env')"
    and s': "s' = (if up then s\<lparr>se_c1 := src, se_c2 := dst, se_up := e, se_total_up := tot\<rparr>
          else s\<lparr>se_c2 := src, se_c1 := dst, se_down := e, se_total_down := tot\<rparr>)" using assms(1) unfolding round_sess_def by blast
  show ?thesis using round_consumes [OF r] assms(2) unfolding s' by (cases up; cases e) (simp_all add: work_def)
qed

lemma work_step:
  assumes "world_step waitN uniq w w'" "i < length (wo_sessions w)"
  shows "work (wo_sessions w' ! i) \<le> work (wo_sessions w ! i)"
  using assms
proof (cases rule: step_session)
  case (rnd up)
  then show ?thesis using work_round by (intro less_imp_le) blast
qed (simp_all add: work_def conn_close_def)

lemma work_own:
  assumes "own_step waitN i w w'"
  shows "work (wo_sessions w' ! i) < work (wo_sessions w ! i)"
  using assms
proof (cases rule: own_step.cases)
  case (own_round up lim)
  obtain s' where "wo_sessions w' = (wo_sessions w)[i := s']" "round_sess waitN up (wo_metrics w) (wo_metrics w') (wo_sessions w ! i) s'"
    using session_round_sess [of waitN up lim i w] own_round(1) by metis
  then show ?thesis using work_round own_round(2,3) by fastforce
next
  case (own_account up)
  then show ?thesis by (cases up) (simp_all add: session_account_def upd_sess_def work_def Let_def)
next
  case own_return
  then show ?thesis by (simp add: session_return_def upd_sess_def work_def conn_close_def split: prod.splits)
qed

interpretation sp: fair_progress "world_step waitN uniq" "own_step waitN i" "\<lambda>w. i < length (wo_sessions w)" "\<lambda>w. work (wo_sessions w ! i)"
  for waitN uniq i
  by unfold_locales (use step_sessions in fastforce, rule work_step, assumption+, rule work_own)

section \<open>Counters\<close>

definition bytes_at :: "string \<Rightarrow> string \<Rightarrow> metrics \<Rightarrow> int" where
  "bytes_at direction node mt = get0 (mt_BytesTransferred mt) (direction, node)"

text \<open>A 64-bit counter \<open>v\<close>, the sum \<open>S\<close> of the sessions' totals, and the values \<open>V\<close> for relays and \<open>U\<close> for UDP of the exported vector.\<close>

definition adds_up :: "int \<Rightarrow> int \<Rightarrow> int \<Rightarrow> int \<Rightarrow> bool" where
  "adds_up v S V U \<longleftrightarrow> v = int64 (S + U) \<and> v = int64 (V + U)"

definition counters_ok :: "session list \<Rightarrow> metrics \<Rightarrow> bool" where
  "counters_ok ss mt \<longleftrightarrow>
     adds_up (fst (GetTotalStats mt)) (sum_list (map se_total_up ss)) (bytes_at ''upstream'' ''relay'' mt) (bytes_at ''udp'' ''ingress'' mt)
     \<and> adds_up (snd (GetTotalStats mt)) (sum_list (map se_total_down ss)) (bytes_at ''downstream'' ''relay'' mt) (bytes_at ''udp'' ''egress'' mt)"

lemma adds_up_udp:
  assumes "adds_up v S V U"
  shows "adds_up (int64 (v + k)) S V (U + k)"
proof -
  have "v = int64 (S + U)" "v = int64 (V + U)" using assms by (simp_all add: adds_up_def)
  then have "int64 (v + k) = int64 (S + U + k)" "int64 (v + k) = int64 (V + U + k)" by (metis int64_add_left)+
  then show ?thesis by (simp add: adds_up_def add.assoc)
qed

lemma adds_up_relay:
  assumes "adds_up v S V U"
  shows "adds_up (int64 (v + k)) (S - t + int64 (t + k)) (V + k) U"
  using adds_up_udp [OF assms, of k] int64_add_right [of "S - t + U" "t + k"] by (simp add: adds_up_def algebra_simps)

lemma count_simps [simp]:
  "bytes_at d n (AddBytesTransferred d' n' k mt) = bytes_at d n mt + (if d = d' \<and> n = n' then int k else 0)"
  "bytes_at d n (AddBytesIn k' mt) = bytes_at d n mt" "bytes_at d n (AddBytesOut k' mt) = bytes_at d n mt"
  "GetTotalStats (AddBytesTransferred d' n' k mt) = GetTotalStats mt"
  "GetTotalStats (AddBytesIn k' mt) = (int64 (fst (GetTotalStats mt) + k'), snd (GetTotalStats mt))"
  "GetTotalStats (AddBytesOut k' mt) = (fst (GetTotalStats mt), int64 (snd (GetTotalStats mt) + k'))"
  by (simp_all add: bytes_at_def AddBytesTransferred_def AddBytesIn_def AddBytesOut_def GetTotalStats_def)

text \<open>A round adds the same amount to the session's total and to the counters, or changes neither.\<close>

lemma round_counts:
  assumes "relay_round waitN user up src dst tot env = (e, src', dst', tot', env')"
  shows "tot' = tot \<and> re_metrics env' = re_metrics env \<or> (\<exists>n. tot' = int64 (tot + int n) \<and> re_metrics env' = re_metrics (count_bytes up n env))"
proof -
  obtain bs e1 s1 env1 where r: "limited_read waitN src env = ((bs, e1), s1, env1)" by (metis prod.exhaust)
  obtain ex env2 where c: "charge user (length bs) env1 = (ex, env2)" by (cases "charge user (length bs) env1")
  have m: "re_metrics env1 = re_metrics env" "re_metrics env2 = re_metrics env"
    using r c by (auto simp: limited_read_def charge_def split: prod.splits if_splits option.splits)
  show ?thesis
  proof (cases "bs = [] \<or> ex")
    case True
    then show ?thesis using assms r c m by (auto simp: relay_round_def log_error_def Let_def split: if_splits)
  next
    case False
    then have "tot' = int64 (tot + int (length bs)) \<and> re_metrics env' = re_metrics (count_bytes up (length bs) env)"
      using assms r c m by (auto simp: relay_round_def log_error_def count_bytes_def Let_def split: prod.splits option.splits if_splits)
    then show ?thesis by blast
  qed
qed

lemma sum_list_upd:
  fixes f :: "'a \<Rightarrow> int"
  shows "i < length xs \<Longrightarrow> sum_list (map f (xs[i := y])) = sum_list (map f xs) - f (xs ! i) + f y"
proof (induction xs arbitrary: i)
  case (Cons x xs)
  then show ?case by (cases i) simp_all
qed simp

lemma counters_ok_round:
  assumes "counters_ok ss mt" "i < length ss" "round_sess waitN up mt mt' (ss ! i) s'"
  shows "counters_ok (ss[i := s']) mt'"
proof -
  let ?s = "ss ! i"
  obtain env e src dst tot env' where
    r: "relay_round waitN (se_user ?s) up (if up then se_c1 ?s else se_c2 ?s) (if up then se_c2 ?s else se_c1 ?s)
          (if up then se_total_up ?s else se_total_down ?s) env = (e, src, dst, tot, env')"
    and m: "re_metrics env = mt" "re_metrics env' = mt'"
    and s': "s' = (if up then ?s\<lparr>se_c1 := src, se_c2 := dst, se_up := e, se_total_up := tot\<rparr>
          else ?s\<lparr>se_c2 := src, se_c1 := dst, se_down := e, se_total_down := tot\<rparr>)" using assms(3) unfolding round_sess_def by blast
  consider "tot = (if up then se_total_up ?s else se_total_down ?s)" "mt' = mt"
    | n where "tot = int64 ((if up then se_total_up ?s else se_total_down ?s) + int n)" "mt' = re_metrics (count_bytes up n env)"
    using round_counts [OF r] m by blast
  then show ?thesis
  proof cases
    case 1
    with assms(1,2) show ?thesis unfolding s' by (simp add: counters_ok_def sum_list_upd)
  next
    case (2 n)
    show ?thesis using assms(1,2) 2 m(1) unfolding s'
      by (cases up) (simp_all add: counters_ok_def sum_list_upd count_bytes_def adds_up_relay)
  qed
qed

lemma counters_ok_view:
  assumes "counters_ok ss mt" "map se_total_up ss' = map se_total_up ss" "map se_total_down ss' = map se_total_down ss"
    and "GetTotalStats mt' = GetTotalStats mt" "mt_BytesTransferred mt' = mt_BytesTransferred mt"
  shows "counters_ok ss' mt'"
  using assms by (simp add: counters_ok_def bytes_at_def)

lemma dual_counts:
  "dual_begin sid user now c1 c2 (mt, m) = (mt', m') \<Longrightarrow> GetTotalStats mt' = GetTotalStats mt \<and> mt_BytesTransferred mt' = mt_BytesTransferred mt"
  "dual_end sid (mt, m) = (mt', m') \<Longrightarrow> GetTotalStats mt' = GetTotalStats mt \<and> mt_BytesTransferred mt' = mt_BytesTransferred mt"
  by (auto simp: dual_begin_def dual_end_def IncActiveSessions_def DecActiveSessions_def GetTotalStats_def Let_def)

lemma map_upd_same: "f y = f (xs ! i) \<Longrightarrow> map f (xs[i := y]) = map f xs"
  by (metis list_update_id map_update)

lemma counters_ok_step:
  assumes "world_step waitN uniq w w'" "counters_ok (wo_sessions w) (wo_metrics w)"
  shows "counters_ok (wo_sessions w') (wo_metrics w')"
  using assms(1)
proof (cases rule: world_step.cases)
  case (Begin sid c1 c2 user now limited metered)
  obtain mt m where b: "dual_begin sid user now c1 c2 (wo_metrics w, wo_table w) = (mt, m)" by (metis prod.exhaust)
  show ?thesis using assms(2) dual_counts(1) [OF b] by (simp add: Begin(1) session_begin_def b counters_ok_def bytes_at_def new_session_def)
next
  case (Round i up lim)
  show ?thesis unfolding Round(1)
    by (rule session_round_sess [of waitN up lim i w]) (use counters_ok_round [OF assms(2) Round(2)] in simp)
next
  case (Account i up)
  show ?thesis by (rule counters_ok_view [OF assms(2)]) (simp_all add: Account(1) session_account_def upd_sess_def map_upd_same Let_def)
next
  case (Return i)
  obtain mt m where b: "dual_end (se_id (wo_sessions w ! i)) (wo_metrics w, wo_table w) = (mt, m)" by (metis prod.exhaust)
  show ?thesis by (rule counters_ok_view [OF assms(2)])
      (use dual_counts(2) [OF b] in \<open>simp_all add: Return(1) session_return_def b upd_sess_def map_upd_same\<close>)
next
  case (Cancel i)
  show ?thesis by (rule counters_ok_view [OF assms(2)]) (simp_all add: Cancel(1) upd_sess_def map_upd_same)
next
  case (Packet sv en j dat target u m r q m')
  then show ?thesis using assms(2) by (simp add: udp_forwarded_def forward_count_def counters_ok_def adds_up_udp split: udp_sent.split)
next
  case (Reply svc now rd j m r m')
  then show ?thesis using assms(2) by (simp add: udp_replied_def reverse_count_def counters_ok_def adds_up_udp split: option.split prod.split)
qed

lemma counters_ok_reach: "(world_step waitN uniq)\<^sup>*\<^sup>* (world0 q) w \<Longrightarrow> counters_ok (wo_sessions w) (wo_metrics w)"
proof (induction rule: rtranclp_induct)
  case base
  show ?case by (simp add: counters_ok_def adds_up_def world0_def metrics0_def GetTotalStats_def bytes_at_def get0_def)
qed (rule counters_ok_step)

section \<open>Properties\<close>

text \<open>
  C9: Sessions never mix their bytes. Whatever the process runs besides, from the moment a session
  begins between two connections, in every interleaving with all other sessions, kicks and UDP
  packets, and whatever quota, limiter and errors do, each of its two peers has received, after what
  it had before, a prefix of what the other one sends; and while the loop of a direction runs,
  that prefix and what is still to arrive are all of it: nothing is lost, repeated or reordered, and
  no byte of another session gets in.
\<close>

theorem sessions_transparent:
  assumes "(world_step waitN uniq)\<^sup>*\<^sup>* (session_begin sid user now limited metered c1 c2 w0) w" "i = length (wo_sessions w0)"
  shows "i < length (wo_sessions w)
    \<and> (\<exists>xs. outq (se_c2 (wo_sessions w ! i)) @ xs = outq c2 @ arriving (inq c1))
    \<and> (\<exists>xs. outq (se_c1 (wo_sessions w ! i)) @ xs = outq c1 @ arriving (inq c2))
    \<and> (se_up (wo_sessions w ! i) = None \<longrightarrow> outq (se_c2 (wo_sessions w ! i)) @ arriving (inq (se_c1 (wo_sessions w ! i))) = outq c2 @ arriving (inq c1))
    \<and> (se_down (wo_sessions w ! i) = None \<longrightarrow> outq (se_c1 (wo_sessions w ! i)) @ arriving (inq (se_c2 (wo_sessions w ! i))) = outq c1 @ arriving (inq c2))"
proof -
  let ?w = "session_begin sid user now limited metered c1 c2 w0"
  have "wo_sessions ?w = wo_sessions w0 @ [new_session sid user limited metered c1 c2]" by (simp add: session_begin_def split: prod.splits)
  then have "i < length (wo_sessions ?w)" "flow_ok (outq c2 @ arriving (inq c1)) (outq c1 @ arriving (inq c2)) (wo_sessions ?w ! i)"
    using assms(2) by (simp_all add: flow_ok_def flow_inv_def new_session_def)
  from flow_ok_reach [OF assms(1) this] show ?thesis by (simp add: flow_ok_def flow_inv_def)
qed



theorem sessions_transparent_witness:
  "\<exists>xs. outq (se_c2 (wo_sessions (session_round demo_wait True None 0 demo_world) ! 0)) @ xs = [1, 2, 3]"
proof -
  have "(world_step demo_wait True)\<^sup>*\<^sup>* demo_world (session_round demo_wait True None 0 demo_world)"
    by (intro r_into_rtranclp world_step.Round) (simp_all add: demo_world_simps)
  from sessions_transparent [OF this [unfolded demo_world_def] refl, folded demo_world_def] show ?thesis by (simp add: world0_def demo_closed)
qed

text \<open>A session of two silent peers, until nothing of it is left; from then on it is kicked again and again.\<close>

fun demo_run :: "nat \<Rightarrow> world" where
  "demo_run 0 = session_begin ''s1'' ''ann'' 0 False True (peer_sends []) (peer_sends []) (world0 NewQuotaManager)"
| "demo_run (Suc k) = (if k < 2 then session_round demo_wait (k = 0) None 0 (demo_run k)
     else if k < 4 then session_account (k = 2) 0 (demo_run k) else if k = 4 then session_return 0 (demo_run k) else demo_run k)"

lemma silent_round:
  "relay_round demo_wait user up (peer_sends []) dst tot env = (Some EOF, (peer_sends [])\<lparr>inq := []\<rparr>, dst, tot, env)"
  by (simp add: relay_round_def limited_read_def conn_read_def peer_sends_def BufferSize_def)

definition demo_sess :: "nat \<Rightarrow> session" where
  "demo_sess k = (let shut = (if 5 \<le> k then conn_close else id); none = (peer_sends [])\<lparr>inq := []\<rparr> in
     (new_session ''s1'' ''ann'' False True (peer_sends []) (peer_sends []))
       \<lparr>se_cancelled := 5 \<le> k, se_c1 := shut (if 1 \<le> k then none else peer_sends []), se_c2 := shut (if 2 \<le> k then none else peer_sends []),
        se_up := (if 1 \<le> k then Some EOF else None), se_down := (if 2 \<le> k then Some EOF else None),
        se_acc_up := 3 \<le> k, se_acc_down := 4 \<le> k, se_returned := 5 \<le> k\<rparr>)"

lemma demo_run_sess: "wo_sessions (demo_run k) = [demo_sess k]"
proof (induction k)
  case 0
  show ?case by (simp add: session_begin_def world0_def demo_sess_def new_session_def Let_def split: prod.splits)
next
  case (Suc k)
  consider "k = 0" | "k = 1" | "k = 2" | "k = 3" | "k = 4" | "5 \<le> k" by linarith
  then have "wo_sessions (if k < 2 then session_round demo_wait (k = 0) None 0 (demo_run k)
     else if k < 4 then session_account (k = 2) 0 (demo_run k) else if k = 4 then session_return 0 (demo_run k) else demo_run k) = [demo_sess (Suc k)]"
  proof cases
    case 1
    with Suc show ?thesis by (simp add: session_round_def upd_sess_def demo_sess_def new_session_def Let_def silent_round)
  next
    case 2
    with Suc show ?thesis by (simp add: session_round_def upd_sess_def demo_sess_def new_session_def Let_def silent_round)
  next
    case 6
    with Suc show ?thesis by (simp add: demo_sess_def)
  qed (use Suc in \<open>simp_all add: session_account_def session_return_def upd_sess_def demo_sess_def new_session_def Let_def split: prod.splits\<close>)
  then show ?case by simp
qed

lemma demo_sess_simps:
  "se_up (demo_sess k) = (if 1 \<le> k then Some EOF else None)" "se_down (demo_sess k) = (if 2 \<le> k then Some EOF else None)"
  "se_acc_up (demo_sess k) \<longleftrightarrow> 3 \<le> k" "se_acc_down (demo_sess k) \<longleftrightarrow> 4 \<le> k" "se_returned (demo_sess k) \<longleftrightarrow> 5 \<le> k"
  "\<not> se_limited (demo_sess k)" "5 \<le> k \<Longrightarrow> se_cancelled (demo_sess k)"
  by (simp_all add: demo_sess_def new_session_def Let_def)

lemma demo_run_step: "world_step demo_wait True (demo_run k) (demo_run (Suc k))"
proof -
  consider "k < 2" | "2 \<le> k" "k < 4" | "k = 4" | "5 \<le> k" by linarith
  then show ?thesis
  proof cases
    case 1
    then show ?thesis using world_step.Round [of 0 "demo_run k" "k = 0" None demo_wait True] by (simp add: demo_run_sess demo_sess_simps)
  next
    case 2
    then show ?thesis using world_step.Account [of 0 "demo_run k" "k = 2" demo_wait True] by (simp add: demo_run_sess demo_sess_simps)
  next
    case 3
    then show ?thesis using world_step.Return [of 0 "demo_run 4" demo_wait True]
      unfolding demo_run.simps(2) [of k] by (simp add: demo_run_sess demo_sess_simps)
  next
    case 4
    then have "upd_sess 0 (\<lambda>s. s\<lparr>se_cancelled := True\<rparr>) (demo_run k) = demo_run k"
      by (simp add: upd_sess_def demo_run_sess demo_sess_simps)
    with 4 show ?thesis using world_step.Cancel [of 0 "demo_run k" demo_wait True] by (simp add: demo_run_sess)
  qed
qed



end
