(* ===== verification/Observability.thy ===== *)
theory Observability
  imports NP_Prelude
begin

text \<open>
  Logging and tracing (\<^verbatim>\<open>internal/observability/*.go\<close>): which loggers are built, what an audit
  event records, and the tracer provider. The level parser of zap, the exporter and the resource of
  OpenTelemetry are parameters; what the libraries do with the settings is not modelled.
\<close>

section \<open>Loggers\<close>

text \<open>The settings of a rotated log file (lumberjack) and of a core of the logger (zap).\<close>

record rotation =
  lj_Filename :: string
  lj_MaxSize :: nat
  lj_MaxBackups :: nat
  lj_MaxAge :: nat
  lj_Compress :: bool

datatype sink = RotatedFile rotation | Stdout

datatype log_encoder = JSONEncoder | ConsoleEncoder

record 'lv core =
  co_encoder :: log_encoder
  co_sink :: sink
  co_level :: 'lv

record 'lv logger =
  lg_cores :: "'lv core list"
  lg_caller :: bool

text \<open>\<open>unmarshal\<close> is zap's parser of level names; a name it refuses means the information level.\<close>

definition NewLogger :: "(string \<Rightarrow> 'lv option) \<Rightarrow> 'lv \<Rightarrow> string \<Rightarrow> string \<Rightarrow> string \<Rightarrow> 'lv logger" where
  "NewLogger unmarshal infoLevel levelStr format logPath =
     (let level = (case unmarshal levelStr of None \<Rightarrow> infoLevel | Some l \<Rightarrow> l);
          encoder = (if format = ''json'' then JSONEncoder else ConsoleEncoder);
          path = (if logPath = [] then ''logs/agent.log'' else logPath);
          writer = RotatedFile \<lparr>lj_Filename = path, lj_MaxSize = 100, lj_MaxBackups = 3, lj_MaxAge = 28, lj_Compress = True\<rparr> in
      \<lparr>lg_cores = [\<lparr>co_encoder = encoder, co_sink = writer, co_level = level\<rparr>,
                   \<lparr>co_encoder = encoder, co_sink = Stdout, co_level = level\<rparr>],
       lg_caller = True\<rparr>)"

section \<open>Audit events\<close>

definition InitAuditLogger :: "'lv \<Rightarrow> string \<Rightarrow> 'lv logger" where
  "InitAuditLogger infoLevel path0 =
     (let path = (if path0 = [] then ''logs/audit.log'' else path0) in
      \<lparr>lg_cores = [\<lparr>co_encoder = JSONEncoder,
          co_sink = RotatedFile \<lparr>lj_Filename = path, lj_MaxSize = 50, lj_MaxBackups = 5, lj_MaxAge = 90, lj_Compress = True\<rparr>,
          co_level = infoLevel\<rparr>],
       lg_caller = False\<rparr>)"

datatype 'v log_field = FString string string | FBool string bool | FTime string int | FAny string 'v

text \<open>The entries of a logger at the information level: for every core whose level admits it, where it goes.\<close>

definition log_info :: "('lv \<Rightarrow> bool) \<Rightarrow> 'lv logger \<Rightarrow> string \<Rightarrow> 'v log_field list \<Rightarrow> (sink \<times> string \<times> 'v log_field list) list" where
  "log_info admits lg msg flds = map (\<lambda>c. (co_sink c, msg, flds)) (filter (\<lambda>c. admits (co_level c)) (lg_cores lg))"

text \<open>\<open>details\<close> is the map in the order in which the loop visits it.\<close>

definition Audit :: "('lv \<Rightarrow> bool) \<Rightarrow> 'lv logger option \<Rightarrow> int \<Rightarrow> string \<Rightarrow> bool \<Rightarrow> (string \<times> 'v) list
     \<Rightarrow> (sink \<times> string \<times> 'v log_field list) list" where
  "Audit admits auditLogger now action success details = (case auditLogger of
     None \<Rightarrow> []
   | Some lg \<Rightarrow> log_info admits lg ''audit_event''
       ([FString ''action'' action, FBool ''success'' success, FTime ''timestamp'' now] @ map (\<lambda>(k, v). FAny k v) details))"

section \<open>Tracing\<close>

datatype sampler = AlwaysSample

record ('e, 'r) TracerProvider =
  tr_exporter :: 'e
  tr_batchTimeout :: int
  tr_resource :: 'r
  tr_sampler :: sampler

text \<open>The result, and the global provider after the call.\<close>

definition InitTracing :: "(string \<Rightarrow> bool \<Rightarrow> 'e res) \<Rightarrow> (string \<Rightarrow> 'r res) \<Rightarrow> string \<Rightarrow> string \<Rightarrow> ('e, 'r) TracerProvider option
     \<Rightarrow> ('e, 'r) TracerProvider res \<times> ('e, 'r) TracerProvider option" where
  "InitTracing newExporter newResource endpoint serviceName global = (case newExporter endpoint True of
     Inl e \<Rightarrow> (Inl e, global)
   | Inr exporter \<Rightarrow> (case newResource serviceName of
       Inl e \<Rightarrow> (Inl e, global)
     | Inr res \<Rightarrow>
         let tp = \<lparr>tr_exporter = exporter, tr_batchTimeout = 5 * 10 ^ 9, tr_resource = res, tr_sampler = AlwaysSample\<rparr> in
         (Inr tp, Some tp)))"

section \<open>Properties\<close>

text \<open>
  An audit event is recorded once and completely. With the audit logger and a library that admits
  the information level, an event is one entry in the audit file, with its action, outcome and
  time and every detail; without the logger nothing is recorded.
\<close>

theorem audit_complete:
  assumes "admits infoLevel"
  shows "\<exists>flds. Audit admits (Some (InitAuditLogger infoLevel path)) now action success details
      = [(RotatedFile \<lparr>lj_Filename = (if path = [] then ''logs/audit.log'' else path), lj_MaxSize = 50, lj_MaxBackups = 5, lj_MaxAge = 90, lj_Compress = True\<rparr>,
          ''audit_event'', flds)]
    \<and> {FString ''action'' action, FBool ''success'' success, FTime ''timestamp'' now} \<subseteq> set flds
    \<and> (\<forall>k v. FAny k v \<in> set flds \<longleftrightarrow> (k, v) \<in> set details)
    \<and> Audit admits None now action success details = []"
  using assms by (auto simp: Audit_def InitAuditLogger_def log_info_def Let_def)

theorem audit_complete_witness:
  "length (Audit (\<lambda>l. l = (0 :: nat)) (Some (InitAuditLogger 0 [])) 7 ''login'' True [(''user'', ''ann'')]) = 1"
proof -
  from audit_complete [where admits = "\<lambda>l. l = (0 :: nat)" and infoLevel = 0, OF refl, of "[]" 7 "''login''" True "[(''user'', ''ann'')]"]
  obtain s m flds where "Audit (\<lambda>l. l = (0 :: nat)) (Some (InitAuditLogger 0 [])) 7 ''login'' True [(''user'', ''ann'')] = [(s, m, flds)]" by blast
  then show ?thesis by (simp only: list.size)
qed

text \<open>
  A logger writes everything twice, to a file and to the standard output, with the same format and
  level. An unknown level means the information level, an empty path the default one.
\<close>

theorem new_logger_sinks:
  "map co_sink (lg_cores (NewLogger unmarshal infoLevel levelStr format logPath)) =
     [RotatedFile \<lparr>lj_Filename = (if logPath = [] then ''logs/agent.log'' else logPath), lj_MaxSize = 100, lj_MaxBackups = 3, lj_MaxAge = 28, lj_Compress = True\<rparr>, Stdout]
   \<and> (\<forall>c \<in> set (lg_cores (NewLogger unmarshal infoLevel levelStr format logPath)).
        co_level c = (case unmarshal levelStr of None \<Rightarrow> infoLevel | Some l \<Rightarrow> l)
        \<and> (co_encoder c = JSONEncoder \<longleftrightarrow> format = ''json''))"
  by (auto simp: NewLogger_def Let_def)

text \<open>Tracing is either set up completely or left as it was.\<close>

theorem tracing_all_or_nothing:
  "case InitTracing newExporter newResource endpoint serviceName global of
     (Inl e, g) \<Rightarrow> g = global
   | (Inr tp, g) \<Rightarrow> g = Some tp \<and> newExporter endpoint True = Inr (tr_exporter tp) \<and> newResource serviceName = Inr (tr_resource tp)"
  by (auto simp: InitTracing_def Let_def split: sum.splits)

end
