(* ===== verification/Spec2Isabelle.thy ===== *)
theory Spec2Isabelle
  imports Obfs Mux Admin Node Tunnel Session_Flow Observability
begin

text \<open>
  NodePro: a verification of the proxy agent.

  \<^bold>\<open>The program.\<close> An agent listens on inbounds (SOCKS5, HTTP, TCP and UDP forwarding, load balancing,
  transparent proxies, and the tunnel itself), routes every session by rules to an outbound (a
  direct connection or an NP-Chain tunnel to another node), and relays bytes both ways under the
  user's bandwidth limit and traffic quota. A tunnel starts with a header that names the hops; each
  node takes the first one off, the last one dials the target. The agent takes its configuration
  from a file or from a controller, and applies changes while it runs.

  \<^bold>\<open>Layers and theories\<close>, with the files under \<^verbatim>\<open>src/internal/\<close> each models:

  \<^item> \<open>NP_Prelude\<close>, \<open>Go_Strings\<close>, \<open>Go_Net\<close>, \<open>Go_IO\<close>: what the program uses of Go. Errors as a sum
    type with panics as one of the errors, slices with bounds checks, 64-bit integers with
    wrap-around, strings as byte strings, decimal numbers, \<^verbatim>\<open>host:port\<close> and IP literals, readers. A
    connection is a queue of what will arrive (bytes in any segmentation, errors, timeouts) and
    the bytes written. Locale \<open>byte_reader\<close> is the contract of \<^verbatim>\<open>io.Reader\<close>; it is interpreted on
    connections, buffered readers, and the tunnel's connection.
  \<^item> \<open>NP_Types\<close>, \<open>Configuration\<close>: \<^verbatim>\<open>common/types.go\<close>, \<^verbatim>\<open>errors.go\<close>, \<^verbatim>\<open>config.go\<close>,
    \<^verbatim>\<open>config_manager.go\<close>.
  \<^item> \<open>NPChain_Codec\<close>: \<^verbatim>\<open>protocol/npchain/codec.go\<close>, \<^verbatim>\<open>udp.go\<close>. \<open>Obfs\<close>: \<^verbatim>\<open>common/obfs.go\<close>.
  \<^item> \<open>Mux_Flow\<close>, \<open>Mux\<close>: \<^verbatim>\<open>mux/flowcontrol.go\<close>, \<^verbatim>\<open>aggregator.go\<close>, \<^verbatim>\<open>reassembler.go\<close>. Locale
    \<open>flow_control\<close> is the contract between the window and the reassembler.
  \<^item> \<open>Accounting\<close>, \<open>Relaying\<close>: \<^verbatim>\<open>common/quota.go\<close>, \<^verbatim>\<open>ratelimit.go\<close>, \<^verbatim>\<open>metrics.go\<close>, \<^verbatim>\<open>pool.go\<close>,
    \<^verbatim>\<open>utils.go\<close>. \<open>Sessions\<close>: all relays and UDP packets of the process on the shared session
    table, counters and quota, \<open>world_step\<close>. \<open>Session_Flow\<close>: the bytes, the end and the counters of
    these sessions. Locale \<open>fair_progress\<close> is the argument that a part of a system comes to an end
    when it is scheduled fairly; it is interpreted on the goroutines of a session.
  \<^item> \<open>Sniffer\<close>, \<open>ProxyProto\<close>, \<open>Socks5_UDP\<close>: \<^verbatim>\<open>common/sniffer.go\<close>, \<^verbatim>\<open>common/proxyproto.go\<close>,
    \<^verbatim>\<open>protocol/socks5/udp.go\<close>.
  \<^item> \<open>Outbound\<close>, \<open>Router\<close>, \<open>FakeIP\<close>, \<open>Resolver\<close>: \<^verbatim>\<open>outbound/*.go\<close>, \<^verbatim>\<open>routing/router.go\<close>,
    \<^verbatim>\<open>generator.go\<close>, \<^verbatim>\<open>geoip.go\<close>, \<^verbatim>\<open>dns.go\<close>. Locale \<open>name_pool\<close> is what the router relies on of
    the pool of fake addresses.
  \<^item> \<open>Inbounds\<close>, \<open>Socks5_Inbound\<close>, \<open>HTTP_Inbound\<close>, \<open>UDP_Inbounds\<close>: \<^verbatim>\<open>inbound/*.go\<close>. A stream
    handler is modelled up to its call of \<^verbatim>\<open>DualRelay\<close>: its result is the connection it dropped,
    the arguments of that call, or a panic. UDP sessions are objects in a store.
  \<^item> \<open>Tunnel\<close>: no code of its own; the SOCKS5 handler, the NP-Chain handler and the relays of two nodes
    composed, with runs \<open>dual_run\<close> of each relay.
  \<^item> \<open>Observability\<close>: \<^verbatim>\<open>observability/*.go\<close>.
  \<^item> \<open>Lifecycle\<close>: listening, \<^verbatim>\<open>Stop\<close> and \<^verbatim>\<open>Addr\<close> of every inbound, and the stubs for other platforms.
    Locales \<open>closable\<close> and \<open>inbound_life\<close> are what the agent relies on of an inbound; they are
    interpreted on every one of them.
  \<^item> \<open>Transport\<close>, \<open>QUIC\<close>, \<open>Control\<close>: \<^verbatim>\<open>transport/*.go\<close>, \<^verbatim>\<open>control/client.go\<close>. The loops of the QUIC
    server are a step relation over all its connections.
  \<^item> \<open>Agent\<close>: \<^verbatim>\<open>agent/*.go\<close>, every operation as a function. Locale \<open>registry\<close> is the contract of the
    agent's session tables. \<open>Node\<close>: the running agent, \<open>node_step\<close>: updates in goroutines of their
    own, inbounds that open their sockets later than they are registered, policies,
    administration, probes and sessions, in every interleaving. With \<open>orderly\<close>, updates do not
    overlap.
  \<^item> \<open>Npctl\<close>, \<open>Admin\<close>: \<^verbatim>\<open>cmd/npctl/main.go\<close> and the dispatch of the admin server, from the command line
    to the effect on the agent and the printed text.

  Records keep the fields of the Go structs with a short prefix, operations keep their names (with
  a prefix where several types have the same method). Go maps are association lists; where the
  iteration order can be seen, it is a parameter \<open>ord\<close> and the theorems hold for every order.

  \<^bold>\<open>What is shown.\<close>

  \<^item> The tunnel: headers, frames and datagrams are read back as they were written, over every
    segmentation; a chain of nodes reaches its target; reassembly delivers a prefix of the data
    under any reordering, repetition or loss, and all of it when all frames arrive.
  \<^item> Sessions: in every interleaving of everything a process relays, each session is transparent in
    both directions, all sessions and UDP packets of a user together stay within the quota, the
    session table is exactly what runs, and the totals add up and agree with the exported counters;
    every session that is scheduled fairly ends and leaves no goroutine behind; sniffing and the
    PROXY protocol lose no byte.
  \<^item> End to end: through two nodes, in every interleaving of their relays, the target receives
    exactly the client's payload and the client exactly the protocol's replies and the target's
    answer, each up to a prefix; without quota and limiter the payload can always be delivered
    completely.
  \<^item> Inbounds: a request of a SOCKS5 or HTTP client makes the egress node dial exactly what was
    asked for, under the user who authenticated and no one else; a UDP answer reaches the client
    that asked, in every interleaving of packets, answers and cleanups.
  \<^item> Routing: the router refines its specification; a fake address is routed as the domain it stands
    for; cached DNS answers live in their window.
  \<^item> Agent: a started agent runs its configuration; what an update changes and what it leaves; in
    every interleaving the agent's tables stay well-formed and traffic only goes where an accepted
    configuration says; updates that do not overlap converge to the current configuration. The
    client of the controller does what it is told, with bounded waits; a command of \<^verbatim>\<open>npctl\<close> acts on
    exactly what it names; the QUIC server hands on what arrives in order and once.
  \<^item> Defects: where the code does not do what it means to, a theorem says what it does. Among them:
    padding shifts the hops of longer chains, a header cannot be read through the obfuscating
    connection, a second write on a multiplexed stream panics, transparent, relayed and UDP
    sessions have no hop chain and are refused, IPv6 targets panic with fake addresses, changed
    settings of a running inbound are ignored, the generated configuration reaches no proxy;
    overlapping updates mix two configurations, an inbound removed before it has opened its socket
    is never closed, concurrent first packets of a UDP client orphan a session, two concurrent
    dials orphan a pooled QUIC connection, a change of the authority cuts running nodes off.

  \<^bold>\<open>Bounds and fuel.\<close> Loops are structural recursions or functions with a termination proof; where a loop
  of the program may run forever (accepting, reconnecting, heartbeats), the model runs it on the
  list of what happens to it, and a flag says whether it returned. The read loops of \<open>Go_IO\<close> take
  as fuel the number of bytes and events that can still arrive, which every round reduces.
  Scores of health checks, floating-point numbers in the code, are counted in units of 1/4000, in
  which all of them are integers.

  \<^bold>\<open>Parameters.\<close> Code outside the repository is an argument of the definitions that use it: UUIDs and
  random bytes, bcrypt, YAML, the DNS and HTTP libraries, QUIC and the network, system calls, the
  token bucket, the MaxMind readers. Hypotheses about them state only their documented behaviour.

  \<^bold>\<open>Not modelled.\<close> Tracing spans (nothing in the program reads them), the two Prometheus vectors for DNS
  (nothing writes them), the generated gRPC code, socket options, closing of the MaxMind readers, and
  \<open>getOriginalDstIPv4\<close>, which does not compile. The values of the other Prometheus vectors, floating-point
  numbers in the code, are integers.
  Memory-model effects of unsynchronised fields are not modelled: an operation under a mutex or on
  an atomic is one step, and where the code releases a lock between two parts of an operation
  (updates, UDP sessions, the QUIC pool) the parts are separate steps.
\<close>

end
